(* ===== verification/Prelude.thy ===== *)
theory Prelude
  imports Main "HOL-Library.Word"
begin

text \<open>
  Prelude of the development: machine integers, the physical memory of the modelled machine,
  failed assertions as values, and the generic facts about them that every component uses.

  \<^item> C integer types are words of their width; pointers are 64-bit words;
  \<^item> physical memory is one byte array indexed by 64-bit addresses, read and written as
    little-endian 64-bit cells by \<open>read64\<close> and \<open>write64\<close> (page tables live in it, and so do
    strings, buffers and process images);
  \<^item> a failed \<open>assert\<close> is the value \<open>Inl (Assertion file line expression)\<close>, threaded by \<open>bindR\<close>.

  The locale \<open>cell_memory\<close> states what a store of aligned cells promises; the page-table
  component is proved against it and \<open>read64\<close>/\<open>write64\<close> are its interpretation.
\<close>

unbundle bit_operations_syntax

named_theorems res_simps \<open>evaluation of computations that may fail an assertion\<close>
named_theorems unat_simps \<open>machine arithmetic read as arithmetic on natural numbers\<close>
named_theorems page_simps \<open>page alignment, page offsets and page-table entry addresses\<close>

type_synonym u8 = "8 word"
type_synonym u16 = "16 word"
type_synonym u32 = "32 word"
type_synonym u64 = "64 word"

type_synonym memory = "u64 \<Rightarrow> u8"

section \<open>Computations that may fail an assertion\<close>

datatype assertion = Assertion string nat string

type_synonym 'a chk = "assertion + 'a"

definition bindR :: "'e + 'a \<Rightarrow> ('a \<Rightarrow> 'e + 'b) \<Rightarrow> 'e + 'b" where
  "bindR r f = (case r of Inl e \<Rightarrow> Inl e | Inr x \<Rightarrow> f x)"

definition check :: "string \<Rightarrow> nat \<Rightarrow> string \<Rightarrow> bool \<Rightarrow> unit chk" where
  "check file line expr b = (if b then Inr () else Inl (Assertion file line expr))"

lemma bindR_Inl [simp, res_simps]: "bindR (Inl e) f = Inl e"
  by (simp add: bindR_def)

lemma bindR_Inr [simp, res_simps]: "bindR (Inr x) f = f x"
  by (simp add: bindR_def)

lemma bindR_eq_Inr [res_simps]: "bindR r f = Inr y \<longleftrightarrow> (\<exists>x. r = Inr x \<and> f x = Inr y)"
  by (cases r) auto

lemma bindR_assoc: "bindR (bindR r f) g = bindR r (\<lambda>x. bindR (f x) g)"
  by (cases r) simp_all

lemma bindR_eq_Inl [res_simps]:
  "bindR r f = Inl e \<longleftrightarrow> r = Inl e \<or> (\<exists>x. r = Inr x \<and> f x = Inl e)"
  by (cases r) auto

lemma check_True [simp, res_simps]: "check file line expr True = Inr ()"
  by (simp add: check_def)

lemma check_eq_Inr [simp, res_simps]: "check file line expr b = Inr u \<longleftrightarrow> b"
  by (simp add: check_def)

lemma check_eq_Inl [simp, res_simps]:
  "check file line expr b = Inl e \<longleftrightarrow> \<not> b \<and> e = Assertion file line expr"
  by (auto simp: check_def)

section \<open>Machine arithmetic read as natural-number arithmetic\<close>

lemma unat_u64_less [simp]: "unat (a :: u64) < 18446744073709551616"
  using unsigned_less [of a] by simp

lemma unat_minus_1_u64 [simp]: "unat (- 1 :: u64) = 18446744073709551615"
  by (simp add: unsigned_minus_1_eq_mask mask_eq_exp_minus_1)

lemma unat_add_u64 [unat_simps]:
  "unat (a :: u64) + unat b < 18446744073709551616 \<Longrightarrow> unat (a + b) = unat a + unat b"
  by (simp add: unat_word_ariths)

lemma unat_mult_u64 [unat_simps]:
  "unat (a :: u64) * unat b < 18446744073709551616 \<Longrightarrow> unat (a * b) = unat a * unat b"
  by (simp add: unat_word_ariths)

lemma unat_sub_u64 [unat_simps]: "(b :: u64) \<le> a \<Longrightarrow> unat (a - b) = unat a - unat b"
  by (rule unat_sub)

lemma unat_take_bit_u64 [unat_simps]: "unat (take_bit n (a :: u64)) = unat a mod 2 ^ n"
proof -
  have "unat (take_bit n a) = take_bit n (unat a)"
    by (rule unsigned_take_bit_eq)
  then show ?thesis by (simp only: take_bit_eq_mod)
qed

lemma unat_clear_low_bits: "unat ((a :: u64) AND NOT (mask n)) = unat a - unat a mod 2 ^ n"
proof -
  have "(a AND NOT (mask n)) + take_bit n a = (a AND NOT (mask n)) OR take_bit n a"
    by (simp add: disjunctive_add bit_simps)
  also have "\<dots> = a"
    by (rule bit_word_eqI) (auto simp: bit_simps)
  finally have "a AND NOT (mask n) = a - take_bit n a" by (simp add: algebra_simps)
  moreover have "take_bit n a \<le> a"
    by (simp add: word_le_nat_alt unat_take_bit_u64)
  ultimately show ?thesis by (simp add: unat_sub_u64 unat_take_bit_u64)
qed

lemma unat_drop_bit_u64 [unat_simps]: "unat (drop_bit n (a :: u64)) = unat a div 2 ^ n"
proof -
  have "unat (drop_bit n a) = drop_bit n (take_bit LENGTH(64) (unat a))"
    by (rule unsigned_drop_bit_eq)
  also have "take_bit LENGTH(64) (unat a) = unat a"
    by (simp add: take_bit_nat_eq_self)
  finally show ?thesis by (simp only: drop_bit_eq_div)
qed

lemma u64_eq_iff_unat: "(a :: u64) = b \<longleftrightarrow> unat a = unat b"
  by (rule word_unat_eq_iff)

lemma unat_of_nat_u64 [unat_simps]:
  "n < 18446744073709551616 \<Longrightarrow> unat (of_nat n :: u64) = n"
  by (simp add: unsigned_of_nat take_bit_eq_mod)

lemma and_FFF_take_bit [page_simps]: "(a :: u64) AND 0xFFF = take_bit 12 a"
  by (simp add: take_bit_eq_mask mask_numeral)

lemma and_1FF_take_bit [page_simps]: "(a :: u64) AND 0x1FF = take_bit 9 a"
  by (simp add: take_bit_eq_mask mask_numeral)

lemma and_7_take_bit [page_simps]: "(a :: u64) AND 7 = take_bit 3 a"
  by (simp add: take_bit_eq_mask mask_numeral)

lemma and_FFF_eq_0_iff [page_simps]: "(a :: u64) AND 0xFFF = 0 \<longleftrightarrow> unat a mod 4096 = 0"
  by (simp add: and_FFF_take_bit u64_eq_iff_unat unat_take_bit_u64 flip: unat_eq_0)

text \<open>A 64-bit value converted to the type \<open>int\<close>: its low 32 bits, read as two's complement.\<close>

definition c_int :: "u64 \<Rightarrow> int" where
  "c_int w = signed_take_bit 31 (uint w)"

lemma c_int_small [simp]: "unat w < 2147483648 \<Longrightarrow> c_int w = int (unat w)"
proof -
  assume "unat w < 2147483648"
  then have "int (unat w) < 2 ^ 31" by (simp del: of_nat_unat)
  then have "uint w < 2 ^ 31" by (simp only: uint_nat)
  moreover have "- (2 ^ 31) \<le> uint w"
    by (rule order_trans [OF _ uint_ge_0]) simp
  ultimately show ?thesis
    by (simp add: c_int_def signed_take_bit_int_eq_self)
qed

section \<open>Bytes and little-endian 64-bit cells\<close>

definition byte_of :: "u64 \<Rightarrow> nat \<Rightarrow> u8" where
  "byte_of v k = ucast (drop_bit (8 * k) v)"

definition read64 :: "memory \<Rightarrow> u64 \<Rightarrow> u64" where
  "read64 m a = ucast (m a) OR push_bit 8 (ucast (m (a + 1))) OR push_bit 16 (ucast (m (a + 2)))
     OR push_bit 24 (ucast (m (a + 3))) OR push_bit 32 (ucast (m (a + 4)))
     OR push_bit 40 (ucast (m (a + 5))) OR push_bit 48 (ucast (m (a + 6)))
     OR push_bit 56 (ucast (m (a + 7)))"

definition write64 :: "memory \<Rightarrow> u64 \<Rightarrow> u64 \<Rightarrow> memory" where
  "write64 m a v = m(a := byte_of v 0, a + 1 := byte_of v 1, a + 2 := byte_of v 2,
     a + 3 := byte_of v 3, a + 4 := byte_of v 4, a + 5 := byte_of v 5, a + 6 := byte_of v 6,
     a + 7 := byte_of v 7)"

lemma bit_byte_of_shifted:
  "bit (push_bit (8 * k) (ucast (byte_of v k) :: u64)) n \<longleftrightarrow> n < 64 \<and> 8 * k \<le> n \<and> n < 8 * k + 8 \<and> bit v n"
  by (auto simp: byte_of_def bit_simps)

lemma bytes_join:
  fixes v :: u64
  defines "w \<equiv> ucast (byte_of v 0) OR push_bit 8 (ucast (byte_of v 1))
     OR push_bit 16 (ucast (byte_of v 2)) OR push_bit 24 (ucast (byte_of v 3))
     OR push_bit 32 (ucast (byte_of v 4)) OR push_bit 40 (ucast (byte_of v 5))
     OR push_bit 48 (ucast (byte_of v 6)) OR push_bit 56 (ucast (byte_of v 7) :: u64)"
  shows "w = v"
proof (rule bit_word_eqI)
  fix n
  assume "n < LENGTH(64)"
  then have n: "n < 64" by simp
  have "bit w n \<longleftrightarrow> (\<exists>k \<in> {0, 1, 2, 3, 4, 5, 6, 7}. 8 * k \<le> n \<and> n < 8 * k + 8) \<and> bit v n"
    using n bit_byte_of_shifted [of 0 v n] bit_byte_of_shifted [of 1 v n]
      bit_byte_of_shifted [of 2 v n] bit_byte_of_shifted [of 3 v n] bit_byte_of_shifted [of 4 v n]
      bit_byte_of_shifted [of 5 v n] bit_byte_of_shifted [of 6 v n] bit_byte_of_shifted [of 7 v n]
    unfolding w_def bit_or_iff by simp blast
  moreover have "\<exists>k \<in> {0, 1, 2, 3, 4, 5, 6, 7}. 8 * k \<le> n \<and> n < 8 * k + 8"
    using n by simp linarith
  ultimately show "bit w n = bit v n" by simp
qed

lemma read64_write64_same: "read64 (write64 m a v) a = v"
  using bytes_join [of v] by (simp add: read64_def write64_def)

text \<open>Two cells that are each 8-byte aligned are the same cell or share no byte.\<close>

lemma aligned_cells_disjoint:
  fixes a b k l :: u64
  assumes "unat a mod 8 = 0" "unat b mod 8 = 0" "unat k < 8" "unat l < 8" "a + k = b + l"
  shows "a = b"
proof -
  have nowrap: "unat (c + d) = unat c + unat d" if "unat c mod 8 = 0" "unat d < 8" for c d :: u64
  proof -
    from that(1) obtain c' where c': "unat c = 8 * c'" by auto
    have "unat c < 18446744073709551616" by simp
    then have "c' \<le> 2305843009213693951" unfolding c' by simp
    with that(2) have "unat c + unat d < 18446744073709551616" unfolding c' by linarith
    then show ?thesis by (rule unat_add_u64)
  qed
  have "unat a + unat k = unat b + unat l"
    using assms nowrap by metis
  moreover obtain a' b' where ab: "unat a = 8 * a'" "unat b = 8 * b'"
    using assms(1,2) by (metis mod_0_imp_dvd dvdE)
  ultimately have "unat a = unat b"
    using assms(3,4) by (cases a' b' rule: linorder_cases) linarith+
  then show ?thesis by (simp add: u64_eq_iff_unat)
qed

lemma write64_other:
  assumes "unat a mod 8 = 0" "unat b mod 8 = 0" "a \<noteq> b" "unat k < 8"
  shows "write64 m a v (b + k) = m (b + k)"
proof -
  have neq: "b + k \<noteq> a + j" if "unat j < 8" for j
    using aligned_cells_disjoint [OF assms(2,1,4) that] assms(3) by blast
  show ?thesis
    using neq [of 0] neq [of 1] neq [of 2] neq [of 3] neq [of 4] neq [of 5] neq [of 6] neq [of 7]
    by (simp add: write64_def)
qed

lemma read64_cong:
  assumes "\<And>k. unat k < 8 \<Longrightarrow> m (a + k) = m' (a + k)"
  shows "read64 m a = read64 m' a"
  using assms [of 0] assms [of 1] assms [of 2] assms [of 3] assms [of 4] assms [of 5]
    assms [of 6] assms [of 7]
  by (simp add: read64_def)

lemma read64_write64_other:
  assumes "unat a mod 8 = 0" "unat b mod 8 = 0" "a \<noteq> b"
  shows "read64 (write64 m a v) b = read64 m b"
  by (rule read64_cong) (rule write64_other [OF assms])

text \<open>Writing back what a cell holds changes nothing.\<close>

lemma byte_of_read64:
  "byte_of (read64 m a) 0 = m a" "byte_of (read64 m a) (Suc 0) = m (a + 1)"
  "byte_of (read64 m a) 2 = m (a + 2)" "byte_of (read64 m a) 3 = m (a + 3)"
  "byte_of (read64 m a) 4 = m (a + 4)" "byte_of (read64 m a) 5 = m (a + 5)"
  "byte_of (read64 m a) 6 = m (a + 6)" "byte_of (read64 m a) 7 = m (a + 7)"
  by (rule bit_word_eqI; auto simp: byte_of_def read64_def bit_simps dest: bit_imp_le_length)+

lemma write64_read64: "write64 m a (read64 m a) = m"
  by (simp add: write64_def byte_of_read64)

section \<open>The interface of a store of aligned 64-bit cells\<close>

locale cell_memory =
  fixes rd :: "'m \<Rightarrow> u64 \<Rightarrow> u64"
    and wr :: "'m \<Rightarrow> u64 \<Rightarrow> u64 \<Rightarrow> 'm"
  assumes rd_wr_same: "rd (wr m a v) a = v"
    and rd_wr_other: "unat a mod 8 = 0 \<Longrightarrow> unat b mod 8 = 0 \<Longrightarrow> a \<noteq> b \<Longrightarrow> rd (wr m a v) b = rd m b"
begin

lemma rd_wr:
  assumes "unat a mod 8 = 0" "unat b mod 8 = 0"
  shows "rd (wr m a v) b = (if a = b then v else rd m b)"
  using assms by (simp add: rd_wr_same rd_wr_other)

lemma rd_wr_idem:
  assumes "unat a mod 8 = 0" "unat b mod 8 = 0"
  shows "rd (wr (wr m a v) a v') b = rd (wr m a v') b"
  using assms by (simp add: rd_wr)

end

interpretation mem64: cell_memory read64 write64
  by unfold_locales (simp_all add: read64_write64_same read64_write64_other)

section \<open>Page-table entries as cells\<close>

text \<open>
  Entry \<open>i\<close> of the page-table page at \<open>pt\<close> is the cell at \<open>pt + 8 * i\<close>. For page-aligned
  pages and indices below 512 distinct (page, index) pairs are distinct aligned cells.
\<close>

lemma unat_entry_addr:
  fixes pt i :: u64
  assumes "unat pt mod 4096 = 0" "unat i < 512"
  shows "unat (pt + 8 * i) = unat pt + 8 * unat i"
proof -
  from assms(1) obtain p where p: "unat pt = 4096 * p" by auto
  have "unat pt < 18446744073709551616" by simp
  then have "p \<le> 4503599627370495" unfolding p by simp
  with assms(2) have *: "unat pt + 8 * unat i < 18446744073709551616" unfolding p by linarith
  have "unat (8 * i) = 8 * unat i"
    using assms(2) by (simp add: unat_mult_u64)
  with * show ?thesis by (simp add: unat_add_u64)
qed

lemma entry_addr_aligned:
  fixes pt i :: u64
  assumes "unat pt mod 4096 = 0" "unat i < 512"
  shows "unat (pt + 8 * i) mod 8 = 0"
proof -
  from assms(1) obtain p where "unat pt = 4096 * p" by auto
  then have "unat (pt + 8 * i) = 8 * (512 * p + unat i)"
    using unat_entry_addr [OF assms] by simp
  then show ?thesis by simp
qed

lemma entry_addr_inj:
  fixes pt pt' i j :: u64
  assumes "unat pt mod 4096 = 0" "unat i < 512" "unat pt' mod 4096 = 0" "unat j < 512"
  shows "pt + 8 * i = pt' + 8 * j \<longleftrightarrow> pt = pt' \<and> i = j"
proof
  assume "pt + 8 * i = pt' + 8 * j"
  then have eq: "unat pt + 8 * unat i = unat pt' + 8 * unat j"
    using unat_entry_addr assms by metis
  obtain p q where pq: "unat pt = 4096 * p" "unat pt' = 4096 * q"
    using assms(1,3) by (metis mod_0_imp_dvd dvdE)
  have "p = q"
    using eq assms(2,4) unfolding pq by (cases p q rule: linorder_cases) linarith+
  with eq pq show "pt = pt' \<and> i = j" by (simp add: u64_eq_iff_unat)
qed simp

lemma read64_write64_entry [page_simps]:
  fixes pt pt' i j :: u64
  assumes "unat pt mod 4096 = 0" "unat i < 512" "unat pt' mod 4096 = 0" "unat j < 512"
  shows "read64 (write64 m (pt + 8 * i) v) (pt' + 8 * j) =
     (if pt = pt' \<and> i = j then v else read64 m (pt' + 8 * j))"
  using assms entry_addr_inj [OF assms]
  by (simp add: mem64.rd_wr entry_addr_aligned)

end
