(* ===== verification/CLib.thy ===== *)
theory CLib
  imports Prelude
begin

text \<open>
  The C library subset of WeensyOS (modules/m3/lib.c, lines 12 to 103): \<open>memcpy\<close>, \<open>memmove\<close>,
  \<open>memset\<close>, the string functions and \<open>rand\<close>/\<open>srand\<close>, over the byte memory of the prelude.

  A loop that scans for a terminator may run forever on a memory without one, so \<open>strlen\<close>,
  \<open>strcpy\<close>, \<open>strcmp\<close> and \<open>strchr\<close> are partial functions whose value \<open>None\<close> means that the C
  function does not return; \<open>cstr m s xs\<close> (the bytes at \<open>s\<close> are the string \<open>xs\<close> and a
  terminator) is what makes them return. The memory routines are related to one reference
  definition, \<open>copy_spec\<close>.
\<close>

section \<open>memcpy, memmove, memset\<close>

fun memcpy_loop :: "nat \<Rightarrow> u64 \<Rightarrow> u64 \<Rightarrow> memory \<Rightarrow> memory" where
  "memcpy_loop 0 d s m = m"
| "memcpy_loop (Suc n) d s m = memcpy_loop n (d + 1) (s + 1) (m(d := m s))"

definition memcpy :: "memory \<Rightarrow> u64 \<Rightarrow> u64 \<Rightarrow> u64 \<Rightarrow> memory \<times> u64" where
  "memcpy m dst src n = (memcpy_loop (unat n) dst src m, dst)"

fun memmove_down :: "nat \<Rightarrow> u64 \<Rightarrow> u64 \<Rightarrow> memory \<Rightarrow> memory" where
  "memmove_down 0 d s m = m"
| "memmove_down (Suc n) d s m = memmove_down n (d - 1) (s - 1) (m(d - 1 := m (s - 1)))"

fun memmove_up :: "nat \<Rightarrow> u64 \<Rightarrow> u64 \<Rightarrow> memory \<Rightarrow> memory" where
  "memmove_up 0 d s m = m"
| "memmove_up (Suc n) d s m = memmove_up n (d + 1) (s + 1) (m(d := m s))"

definition memmove :: "memory \<Rightarrow> u64 \<Rightarrow> u64 \<Rightarrow> u64 \<Rightarrow> memory \<times> u64" where
  "memmove m dst src n =
     (if src < dst \<and> src + n > dst
      then (memmove_down (unat n) (dst + n) (src + n) m, dst)
      else (memmove_up (unat n) dst src m, dst))"

fun memset_loop :: "nat \<Rightarrow> u64 \<Rightarrow> u8 \<Rightarrow> memory \<Rightarrow> memory" where
  "memset_loop 0 p c m = m"
| "memset_loop (Suc n) p c m = memset_loop n (p + 1) c (m(p := c))"

definition memset :: "memory \<Rightarrow> u64 \<Rightarrow> int \<Rightarrow> u64 \<Rightarrow> memory \<times> u64" where
  "memset m v c n = (memset_loop (unat n) v (word_of_int c) m, v)"

section \<open>Strings\<close>

partial_function (option) strlen_loop :: "memory \<Rightarrow> u64 \<Rightarrow> u64 \<Rightarrow> u64 option" where
  "strlen_loop m s n = (if m s \<noteq> 0 then strlen_loop m (s + 1) (n + 1) else Some n)"

definition strlen :: "memory \<Rightarrow> u64 \<Rightarrow> u64 option" where
  "strlen m s = strlen_loop m s 0"

fun strnlen_loop :: "memory \<Rightarrow> nat \<Rightarrow> u64 \<Rightarrow> u64 \<Rightarrow> u64" where
  "strnlen_loop m 0 s n = n"
| "strnlen_loop m (Suc left) s n =
     (if m s \<noteq> 0 then strnlen_loop m left (s + 1) (n + 1) else n)"

definition strnlen :: "memory \<Rightarrow> u64 \<Rightarrow> u64 \<Rightarrow> u64" where
  "strnlen m s maxlen = strnlen_loop m (unat maxlen) s 0"

partial_function (option) strcpy_loop :: "memory \<Rightarrow> u64 \<Rightarrow> u64 \<Rightarrow> memory option" where
  "strcpy_loop m d src =
     (let m' = m(d := m src)
      in if m' d \<noteq> 0 then strcpy_loop m' (d + 1) (src + 1) else Some m')"

definition strcpy :: "memory \<Rightarrow> u64 \<Rightarrow> u64 \<Rightarrow> (memory \<times> u64) option" where
  "strcpy m dst src = map_option (\<lambda>m'. (m', dst)) (strcpy_loop m dst src)"

partial_function (option) strcmp :: "memory \<Rightarrow> u64 \<Rightarrow> u64 \<Rightarrow> int option" where
  "strcmp m a b =
     (if m a \<noteq> 0 \<and> m b \<noteq> 0 \<and> m a = m b then strcmp m (a + 1) (b + 1)
      else Some (of_bool (m a > m b) - of_bool (m a < m b)))"

partial_function (option) strchr_scan :: "memory \<Rightarrow> u64 \<Rightarrow> u8 \<Rightarrow> u64 option" where
  "strchr_scan m s c = (if m s \<noteq> 0 \<and> m s \<noteq> c then strchr_scan m (s + 1) c else Some s)"

definition strchr :: "memory \<Rightarrow> u64 \<Rightarrow> int \<Rightarrow> u64 option" where
  "strchr m s c =
     map_option (\<lambda>t. if m t = word_of_int c then t else 0) (strchr_scan m s (word_of_int c))"

section \<open>rand, srand\<close>

record rng =
  rand_seed_set :: bool
  rand_seed :: u32

abbreviation RAND_MAX :: u32 where
  "RAND_MAX \<equiv> 0x7FFFFFFF"

definition srand :: "u32 \<Rightarrow> rng \<Rightarrow> rng" where
  "srand seed r = r\<lparr>rand_seed := seed, rand_seed_set := True\<rparr>"

definition rand_step :: "u32 \<Rightarrow> u32" where
  "rand_step seed = seed * 1664525 + 1013904223"

definition rand :: "rng \<Rightarrow> int \<times> rng" where
  "rand r =
     (let r1 = (if \<not> rand_seed_set r then srand 819234718 r else r);
          r2 = r1\<lparr>rand_seed := rand_step (rand_seed r1)\<rparr>
      in (uint (rand_seed r2 AND RAND_MAX), r2))"

section \<open>Reference definitions\<close>

definition in_range :: "u64 \<Rightarrow> nat \<Rightarrow> u64 \<Rightarrow> bool" where
  "in_range d n a \<longleftrightarrow> unat (a - d) < n"

definition copy_spec :: "memory \<Rightarrow> u64 \<Rightarrow> u64 \<Rightarrow> nat \<Rightarrow> memory" where
  "copy_spec m d s n = (\<lambda>a. if in_range d n a then m (s + (a - d)) else m a)"

fun cstr :: "memory \<Rightarrow> u64 \<Rightarrow> u8 list \<Rightarrow> bool" where
  "cstr m s [] \<longleftrightarrow> m s = 0"
| "cstr m s (x # xs) \<longleftrightarrow> x \<noteq> 0 \<and> m s = x \<and> cstr m (s + 1) xs"

section \<open>Lemmas: the memory routines\<close>

lemma unat_pred_u64: "unat (x - 1 :: u64) = (if x = 0 then 18446744073709551615 else unat x - 1)"
  by (cases "x = 0") (simp_all add: unat_minus_one)

lemma in_range_Suc:
  assumes "n < 18446744073709551616"
  shows "in_range d (Suc n) a \<longleftrightarrow> a = d \<or> in_range (d + 1) n a"
proof -
  have "a - (d + 1) = (a - d) - 1" by simp
  then have "unat (a - (d + 1)) = (if a = d then 18446744073709551615 else unat (a - d) - 1)"
    by (simp only: unat_pred_u64) auto
  moreover have "a \<noteq> d \<Longrightarrow> 0 < unat (a - d)"
    by (simp add: unat_gt_0)
  ultimately show ?thesis
    unfolding in_range_def using assms by auto
qed

lemma memmove_up_eq_memcpy_loop: "memmove_up n d s m = memcpy_loop n d s m"
  by (induction n arbitrary: d s m) auto

text \<open>Copying one byte and then the rest upwards is copying the whole range, unless the
  destination starts inside the rest of the source.\<close>

lemma copy_spec_Suc:
  assumes n: "n < 18446744073709551616" and apart: "unat (d - s) = 0 \<or> Suc n \<le> unat (d - s)"
  shows "copy_spec (m(d := m s)) (d + 1) (s + 1) n = copy_spec m d s (Suc n)"
proof
  fix a
  have keep: "s + (a - d) \<noteq> d" if "in_range (d + 1) n a" "a \<noteq> d"
  proof
    assume "s + (a - d) = d"
    then have "d - s = a - d" by (simp add: algebra_simps)
    moreover have "in_range d (Suc n) a"
      using that n by (simp add: in_range_Suc)
    ultimately have "unat (d - s) < Suc n" by (metis in_range_def)
    with apart have "unat (d - s) = 0" by simp
    with \<open>d - s = a - d\<close> show False using that by (simp add: unat_eq_0)
  qed
  have own: "\<not> in_range (d + 1) n d"
    using n by (simp add: in_range_def)
  have "s + 1 + (a - (d + 1)) = s + (a - d)" by simp
  then show "copy_spec (m(d := m s)) (d + 1) (s + 1) n a = copy_spec m d s (Suc n) a"
    unfolding copy_spec_def using keep own in_range_Suc [OF n, of d a] by auto
qed

lemma copy_spec_0 [simp]: "copy_spec m d s 0 = m"
  by (simp add: copy_spec_def in_range_def)

lemma memcpy_loop_eq_copy_spec:
  assumes "n \<le> 18446744073709551616" and "unat (d - s) = 0 \<or> n \<le> unat (d - s)"
  shows "memcpy_loop n d s m = copy_spec m d s n"
  using assms
proof (induction n arbitrary: d s m)
  case 0
  then show ?case by simp
next
  case (Suc n)
  have "memcpy_loop n (d + 1) (s + 1) (m(d := m s)) = copy_spec (m(d := m s)) (d + 1) (s + 1) n"
    using Suc.prems by (intro Suc.IH) auto
  with Suc.prems show ?case by (simp add: copy_spec_Suc)
qed

lemma memmove_down_eq_copy_spec:
  assumes "n \<le> 18446744073709551615" and "unat (s - d) = 0 \<or> n \<le> unat (s - d)"
  shows "memmove_down n (d + of_nat n) (s + of_nat n) m = copy_spec m d s n"
  using assms
proof (induction n arbitrary: m)
  case 0
  then show ?case by (simp add: copy_spec_def in_range_def)
next
  case (Suc n)
  let ?k = "of_nat n :: u64"
  let ?m = "m(d + ?k := m (s + ?k))"
  have k: "unat ?k = n"
    using Suc.prems by (intro unat_of_nat_u64) simp
  have IH: "memmove_down n (d + ?k) (s + ?k) ?m = copy_spec ?m d s n"
    using Suc.prems by (intro Suc.IH) auto
  have keep: "s + (a - d) \<noteq> d + ?k" if "in_range d n a" for a
  proof
    assume "s + (a - d) = d + ?k"
    then have eq: "s - d = ?k - (a - d)" by (simp add: algebra_simps)
    have "unat (a - d) < n" using that by (simp add: in_range_def)
    then have "a - d \<le> ?k" by (simp add: word_le_nat_alt k)
    then have "unat (s - d) = n - unat (a - d)"
      unfolding eq by (simp add: unat_sub_u64 k)
    with \<open>unat (a - d) < n\<close> Suc.prems show False by simp
  qed
  have split: "in_range d (Suc n) a \<longleftrightarrow> a = d + ?k \<or> in_range d n a" for a
  proof -
    have "unat (a - d) = n \<longleftrightarrow> a = d + ?k"
      using k by (metis add_diff_cancel_left' diff_add_cancel add.commute u64_eq_iff_unat)
    then show ?thesis by (auto simp: in_range_def)
  qed
  have own: "\<not> in_range d n (d + ?k)" using k by (simp add: in_range_def)
  have step: "memmove_down (Suc n) (d + of_nat (Suc n)) (s + of_nat (Suc n)) m = copy_spec ?m d s n"
    using IH by (simp add: algebra_simps)
  show ?case
  proof
    fix a
    show "memmove_down (Suc n) (d + of_nat (Suc n)) (s + of_nat (Suc n)) m a
        = copy_spec m d s (Suc n) a"
      unfolding step using keep [of a] own split [of a] by (auto simp: copy_spec_def)
  qed
qed

lemma memset_loop_eq:
  assumes "n \<le> 18446744073709551616"
  shows "memset_loop n p c m = (\<lambda>a. if in_range p n a then c else m a)"
  using assms
proof (induction n arbitrary: p m)
  case 0
  then show ?case by (simp add: in_range_def)
next
  case (Suc n)
  then show ?case by (auto simp: fun_eq_iff in_range_Suc)
qed

section \<open>Lemmas: strings\<close>

lemma cstr_not_0: "cstr m s xs \<Longrightarrow> 0 \<notin> set xs"
  by (induction xs arbitrary: s) auto

lemma cstr_cong:
  assumes "\<And>i. i \<le> length xs \<Longrightarrow> m (s + of_nat i) = m' (s + of_nat i)"
  shows "cstr m s xs = cstr m' s xs"
  using assms
proof (induction xs arbitrary: s)
  case Nil
  from Nil [of 0] show ?case by simp
next
  case (Cons x xs)
  have "cstr m (s + 1) xs = cstr m' (s + 1) xs"
  proof (rule Cons.IH)
    fix i
    assume "i \<le> length xs"
    with Cons.prems [of "Suc i"] show "m (s + 1 + of_nat i) = m' (s + 1 + of_nat i)"
      by (simp add: algebra_simps)
  qed
  with Cons.prems [of 0] show ?case by simp
qed

lemma strlen_loop_cstr: "cstr m s xs \<Longrightarrow> strlen_loop m s n = Some (n + of_nat (length xs))"
proof (induction xs arbitrary: s n)
  case Nil
  then show ?case by (simp add: strlen_loop.simps)
next
  case (Cons x xs)
  then show ?case by (simp add: strlen_loop.simps [of m s] algebra_simps)
qed

lemma strnlen_loop_cstr:
  "cstr m s xs \<Longrightarrow> strnlen_loop m k s n = n + of_nat (min k (length xs))"
proof (induction xs arbitrary: s n k)
  case Nil
  then show ?case by (cases k) simp_all
next
  case (Cons x xs)
  then show ?case by (cases k) (simp_all add: algebra_simps)
qed

text \<open>
  The order of two strings as \<open>strcmp\<close> reports it: the sign of the first difference of the
  unsigned bytes, a proper prefix being smaller.
\<close>

fun str_order :: "u8 list \<Rightarrow> u8 list \<Rightarrow> int" where
  "str_order [] [] = 0"
| "str_order [] (y # ys) = - 1"
| "str_order (x # xs) [] = 1"
| "str_order (x # xs) (y # ys) =
     (if x < y then - 1 else if y < x then 1 else str_order xs ys)"

lemma strcmp_cstr: "cstr m a xs \<Longrightarrow> cstr m b ys \<Longrightarrow> strcmp m a b = Some (str_order xs ys)"
proof (induction xs ys arbitrary: a b rule: str_order.induct)
  case (4 x xs y ys)
  then show ?case
    by (cases x y rule: linorder_cases) (auto simp: strcmp.simps [of m a b])
qed (simp_all add: strcmp.simps [of m] word_gt_0)

lemma str_order_lexord:
  "str_order xs ys < 0 \<longleftrightarrow> (xs, ys) \<in> lexord {(x, y). x < y}"
  "str_order xs ys = 0 \<longleftrightarrow> xs = ys"
  "0 < str_order xs ys \<longleftrightarrow> (ys, xs) \<in> lexord {(x, y). x < y}"
  by (induction xs ys rule: str_order.induct) auto

lemma strchr_scan_cstr:
  "cstr m s xs \<Longrightarrow> strchr_scan m s c = Some (s + of_nat (length (takeWhile (\<lambda>x. x \<noteq> c) xs)))"
proof (induction xs arbitrary: s)
  case Nil
  then show ?case by (simp add: strchr_scan.simps)
next
  case (Cons x xs)
  then show ?case by (auto simp: strchr_scan.simps [of m s] algebra_simps)
qed

lemma cstr_nth:
  "cstr m s xs \<Longrightarrow> i \<le> length xs \<Longrightarrow> m (s + of_nat i) = (if i < length xs then xs ! i else 0)"
proof (induction xs arbitrary: s i)
  case Nil
  then show ?case by simp
next
  case (Cons x xs)
  then show ?case by (cases i) (auto simp: add.assoc dest: Cons.IH [of "s + 1" "i - 1"])
qed

lemma cstr_iff_nth:
  "cstr m s xs \<longleftrightarrow> 0 \<notin> set xs \<and> (\<forall>i < length xs. m (s + of_nat i) = xs ! i)
     \<and> m (s + of_nat (length xs)) = 0"
proof (induction xs arbitrary: s)
  case Nil
  then show ?case by simp
next
  case (Cons x xs)
  show ?case
    unfolding cstr.simps Cons.IH by (auto simp: All_less_Suc2 add.assoc)
qed

lemma strcpy_loop_cstr:
  assumes "cstr m src xs" and "length xs < unat (dst - src)" and "length xs < unat (src - dst)"
  shows "strcpy_loop m dst src = Some (copy_spec m dst src (Suc (length xs)))"
  using assms
proof (induction xs arbitrary: m dst src)
  case Nil
  then have "strcpy_loop m dst src = Some (m(dst := m src))"
    by (simp add: strcpy_loop.simps [of m] Let_def)
  also have "m(dst := m src) = copy_spec m dst src (Suc 0)"
    using copy_spec_Suc [of 0 dst src m] Nil by simp
  finally show ?case by simp
next
  case (Cons x xs)
  let ?m = "m(dst := m src)"
  have far: "src + 1 + of_nat i \<noteq> dst" if "i \<le> length xs" for i
  proof
    assume "src + 1 + of_nat i = dst"
    then have "dst - src = of_nat (Suc i)" by (simp add: algebra_simps)
    moreover have "Suc i < 18446744073709551616"
      using that Cons.prems(2) unat_u64_less [of "dst - src"] by (simp del: unat_u64_less)
    ultimately have "unat (dst - src) = Suc i"
      by (metis unat_of_nat_u64)
    with that Cons.prems(2) show False by simp
  qed
  have "cstr ?m (src + 1) xs"
    using Cons.prems(1) cstr_cong [of xs ?m "src + 1" m] far by auto
  moreover have "length xs < unat (dst + 1 - (src + 1))" "length xs < unat (src + 1 - (dst + 1))"
    using Cons.prems by simp_all
  ultimately have "strcpy_loop ?m (dst + 1) (src + 1) =
      Some (copy_spec ?m (dst + 1) (src + 1) (Suc (length xs)))"
    by (rule Cons.IH)
  moreover have "copy_spec ?m (dst + 1) (src + 1) (Suc (length xs))
      = copy_spec m dst src (Suc (Suc (length xs)))"
    using Cons.prems(2) unat_u64_less [of "dst - src"]
    by (intro copy_spec_Suc) (simp_all del: unat_u64_less)
  moreover have "strcpy_loop m dst src = strcpy_loop ?m (dst + 1) (src + 1)"
    using Cons.prems(1) by (simp add: strcpy_loop.simps [of m] Let_def)
  ultimately show ?case by simp
qed

section \<open>Lemmas: the pseudo-random generator\<close>

lemma rand_step_inverse: "(rand_step seed - 1013904223) * 4276115653 = seed"
proof -
  have "(rand_step seed - 1013904223) * 4276115653 = seed * (1664525 * 4276115653)"
    by (simp only: rand_step_def mult.assoc) simp
  also have "(1664525 * 4276115653 :: u32) = 1" by simp
  finally show ?thesis by simp
qed

section \<open>Properties\<close>

text \<open>
  C15 (memmove is correct on overlapping ranges). For any source and destination range that
  does not run past the end of the address space, \<open>memmove\<close> leaves at the destination exactly
  the bytes that the source range held before the call, changes no other byte, and returns the
  destination pointer, however the two ranges overlap.
\<close>

theorem memmove_correct:
  assumes "unat src + unat n \<le> 18446744073709551616"
    and "unat dst + unat n \<le> 18446744073709551616"
  shows "memmove m dst src n = (copy_spec m dst src (unat n), dst)"
proof (cases "src < dst \<and> src + n > dst")
  case True
  have "unat (src - dst) = unat src + 18446744073709551616 - unat dst"
    using True by (simp add: unat_sub_if' word_less_nat_alt)
  then have "unat n \<le> unat (src - dst)"
    using assms(2) by simp
  then have "memmove_down (unat n) (dst + n) (src + n) m = copy_spec m dst src (unat n)"
    using memmove_down_eq_copy_spec [of "unat n" src dst m] unat_u64_less [of n]
    by (simp del: unat_u64_less)
  with True show ?thesis by (simp add: memmove_def)
next
  case False
  have "unat (dst - src) = 0 \<or> unat n \<le> unat (dst - src)"
  proof (cases "src < dst")
    case True
    with assms(2) have "unat (src + n) = unat src + unat n"
      by (intro unat_add_u64) (simp add: word_less_nat_alt)
    with False True have "unat src + unat n \<le> unat dst"
      by (simp add: word_less_nat_alt not_less)
    with True have "unat n \<le> unat (dst - src)"
      by (simp add: unat_sub_u64 order_less_imp_le)
    then show ?thesis ..
  next
    case False
    then show ?thesis
      using assms(1) by (cases "src = dst") (auto simp: unat_sub_if' word_less_nat_alt)
  qed
  then show ?thesis
    using False memcpy_loop_eq_copy_spec [of "unat n" dst src m] unat_u64_less [of n]
    by (auto simp: memmove_def memmove_up_eq_memcpy_loop simp del: unat_u64_less)
qed

theorem memmove_correct_witness:
  "unat (0 :: u64) + unat (4 :: u64) \<le> 18446744073709551616
   \<and> memmove (\<lambda>a. ucast a) 2 0 4 = (copy_spec (\<lambda>a. ucast a) 2 0 4, 2)
   \<and> fst (memmove (\<lambda>a. ucast a) 2 0 4) 5 = 3"
  using memmove_correct [of 0 4 2 "\<lambda>a. ucast a"]
  by (simp add: copy_spec_def in_range_def)

text \<open>
  C16 (the string functions). On memory that holds two terminated strings, \<open>strlen\<close> returns
  the length of the first, \<open>strnlen\<close> the length cut at its bound, \<open>strchr\<close> the address of the
  first occurrence of the character (NULL when there is none), and \<open>strcmp\<close> returns a number
  whose sign is the lexicographic order of the unsigned bytes, 0 exactly on equal strings; all
  of them return.
\<close>

theorem string_functions_correct:
  assumes "cstr m a xs" and "cstr m b ys"
    and "i = length (takeWhile (\<lambda>x. x \<noteq> word_of_int c) xs)"
  shows "strlen m a = Some (of_nat (length xs))
    \<and> strnlen m a k = of_nat (min (unat k) (length xs))
    \<and> strchr m a c =
        Some (if word_of_int c \<in> set xs \<or> (word_of_int c :: u8) = 0 then a + of_nat i else 0)
    \<and> (\<exists>r. strcmp m a b = Some r \<and> (r = 0 \<longleftrightarrow> xs = ys)
        \<and> (r < 0 \<longleftrightarrow> (xs, ys) \<in> lexord {(x, y). x < y}))"
proof (intro conjI)
  show "strlen m a = Some (of_nat (length xs))"
    using strlen_loop_cstr [OF assms(1), of 0] by (simp add: strlen_def)
  show "strnlen m a k = of_nat (min (unat k) (length xs))"
    using strnlen_loop_cstr [OF assms(1), of "unat k" 0] by (simp add: strnlen_def)
  have found: "m (a + of_nat i) = word_of_int c \<longleftrightarrow> word_of_int c \<in> set xs \<or> (word_of_int c :: u8) = 0"
  proof (cases "i < length xs")
    case True
    then have "xs ! i = word_of_int c"
      using nth_length_takeWhile [of "\<lambda>x. x \<noteq> word_of_int c" xs] by (simp add: assms(3))
    moreover from this True have "word_of_int c \<in> set xs"
      by (metis nth_mem)
    ultimately show ?thesis using True cstr_nth [OF assms(1), of i] by simp
  next
    case False
    then have i: "i = length xs"
      using length_takeWhile_le [of "\<lambda>x. x \<noteq> word_of_int c" xs] assms(3) by linarith
    then have "takeWhile (\<lambda>x. x \<noteq> word_of_int c) xs = xs"
      using assms(3) by (metis append_self_conv takeWhile_dropWhile_id append_eq_append_conv)
    then have "word_of_int c \<notin> set xs"
      by (metis (mono_tags, lifting) set_takeWhileD)
    with i show ?thesis using cstr_nth [OF assms(1), of i] by auto
  qed
  then show "strchr m a c =
      Some (if word_of_int c \<in> set xs \<or> (word_of_int c :: u8) = 0 then a + of_nat i else 0)"
    using strchr_scan_cstr [OF assms(1)] by (simp add: strchr_def assms(3))
  show "\<exists>r. strcmp m a b = Some r \<and> (r = 0 \<longleftrightarrow> xs = ys)
      \<and> (r < 0 \<longleftrightarrow> (xs, ys) \<in> lexord {(x, y). x < y})"
    using strcmp_cstr [OF assms(1,2)] str_order_lexord by blast
qed

theorem string_functions_correct_witness:
  "strlen (\<lambda>a. if a = 8 \<or> a = 16 then 0 else ucast a) 5 = Some 3
   \<and> strchr (\<lambda>a. if a = 8 \<or> a = 16 then 0 else ucast a) 5 7 = Some 7
   \<and> (\<exists>r. strcmp (\<lambda>a. if a = 8 \<or> a = 16 then 0 else ucast a) 5 14 = Some r \<and> r < 0)"
proof -
  let ?m = "\<lambda>a :: u64. if a = 8 \<or> a = 16 then 0 else ucast a :: u8"
  have a: "cstr ?m 5 [5, 6, 7]" and b: "cstr ?m 14 [14, 15]" by simp_all
  have i: "2 = length (takeWhile (\<lambda>x. x \<noteq> word_of_int 7) [5, 6, 7 :: u8])" by simp
  have "([5, 6, 7], [14, 15 :: u8]) \<in> lexord {(x, y). x < y}" by simp
  with string_functions_correct [OF a b i, of 0] show ?thesis by auto
qed

text \<open>
  When the source holds a terminated string and the destination is at least as
  far from it as the string is long, in both directions, \<open>strcpy\<close> returns the destination, the
  destination then holds the same terminated string, and every byte outside the copied range
  is unchanged.
\<close>

lemma strcpy_correct:
  assumes "cstr m src xs" and "length xs < unat (dst - src)" and "length xs < unat (src - dst)"
  shows "\<exists>m'. strcpy m dst src = Some (m', dst) \<and> cstr m' dst xs
    \<and> (\<forall>a. \<not> in_range dst (Suc (length xs)) a \<longrightarrow> m' a = m a)"
proof (intro exI conjI)
  let ?m = "copy_spec m dst src (Suc (length xs))"
  have len: "Suc (length xs) < 18446744073709551616"
    using assms(2) unat_u64_less [of "dst - src"] by (simp del: unat_u64_less)
  show "strcpy m dst src = Some (?m, dst)"
    using strcpy_loop_cstr [OF assms] by (simp add: strcpy_def)
  have "?m (dst + of_nat i) = m (src + of_nat i)" if "i \<le> length xs" for i
    using that len by (simp add: copy_spec_def in_range_def unat_of_nat_u64)
  then show "cstr ?m dst xs"
    using assms(1) unfolding cstr_iff_nth by simp
  show "\<forall>a. \<not> in_range dst (Suc (length xs)) a \<longrightarrow> ?m a = m a"
    by (simp add: copy_spec_def)
qed

text \<open>
  The generator. \<open>rand\<close> always returns a value between 0 and RAND\_MAX, seeds itself with
  819234718 on first use, and never collapses two generator states: from the seed after a call
  the seed before it can be computed.
\<close>

lemma rand_range_and_reversible:
  "0 \<le> fst (rand r) \<and> fst (rand r) \<le> 0x7FFFFFFF \<and> rand_seed_set (snd (rand r))
   \<and> (rand_seed (snd (rand r)) - 1013904223) * 4276115653 =
       (if rand_seed_set r then rand_seed r else 819234718)"
proof -
  have "uint (x AND RAND_MAX) \<le> 0x7FFFFFFF" for x
    using word_and_le1 [of x RAND_MAX] by (simp add: word_le_def)
  moreover have "rand_seed (snd (rand r)) =
      rand_step (if rand_seed_set r then rand_seed r else 819234718)"
    by (simp add: rand_def srand_def Let_def)
  ultimately show ?thesis
    by (simp only: rand_step_inverse) (simp add: rand_def srand_def Let_def)
qed

end
