(* ===== verification/Printf.thy ===== *)
theory Printf
  imports CLib
begin

text \<open>
  Formatted output (modules/m3/lib.c, lines 106 to 387): \<open>printer_vprintf\<close>, the console and
  string printers built on it, and \<open>console_clear\<close>.

  A format is a string without terminator, the variable arguments a list of tagged values read
  as the System V ABI lays them out (a 64-bit slot read as \<open>int\<close> gives its low half). \<open>None\<close>
  stands for undefined behaviour: a missing or mistyped argument, or an overflowing width.
  The C function \<open>printer_vprintf\<close> calls \<open>putc\<close> through the printer it is given; here \<open>putc\<close> and
  the printer's state are parameters, and the locale \<open>printer_sink\<close> is the contract between
  the two: any invariant that \<open>putc\<close> keeps is kept by a whole \<open>printer_vprintf\<close>. The console
  printer and the buffer printer of \<open>vsnprintf\<close> are its interpretations.
\<close>

section \<open>Variable arguments\<close>

datatype varg = VInt u32 | VLong u64 | VPtr u64 | VStr string

fun va_int :: "varg list \<Rightarrow> (u32 \<times> varg list) option" where
  "va_int (VInt w # vs) = Some (w, vs)"
| "va_int (VLong w # vs) = Some (ucast w, vs)"
| "va_int (VPtr w # vs) = Some (ucast w, vs)"
| "va_int _ = None"

fun va_long :: "varg list \<Rightarrow> (u64 \<times> varg list) option" where
  "va_long (VLong w # vs) = Some (w, vs)"
| "va_long (VPtr w # vs) = Some (w, vs)"
| "va_long _ = None"

fun va_str :: "varg list \<Rightarrow> (string \<times> varg list) option" where
  "va_str (VStr s # vs) = Some (s, vs)"
| "va_str _ = None"

section \<open>Numbers to digits\<close>

definition upper_digits :: string where
  "upper_digits = ''0123456789ABCDEF''"

definition lower_digits :: string where
  "lower_digits = ''0123456789abcdef''"

text \<open>
  The digits are written from the end of the buffer towards its start. A base of 0 or 1 would
  not return in C; \<open>printer_vprintf\<close> passes 10, 16 and -16 only, and the extra disjunct ends
  the recursion on the others.
\<close>

function fill_digits :: "string \<Rightarrow> u64 \<Rightarrow> u64 \<Rightarrow> string \<Rightarrow> string" where
  "fill_digits digits base val acc =
     (let acc' = digits ! unat (val mod base) # acc;
          val' = val div base
      in if val' = 0 \<or> base \<le> 1 then acc' else fill_digits digits base val' acc')"
  by pat_completeness auto
termination
proof (relation "measure (\<lambda>(digits, base, val, acc). unat val)", goal_cases)
  case (2 digits base val acc acc' val')
  then have val': "unat val' = unat val div unat base" and base: "1 < unat base"
    by (auto simp: unat_div_distrib word_le_nat_alt)
  have "0 < unat val'" using 2 by (simp add: unat_gt_0)
  then have "0 < unat val" unfolding val' by (cases "unat val") simp_all
  with val' base show ?case by simp
qed simp

declare fill_digits.simps [simp del]

definition fill_numbuf :: "u64 \<Rightarrow> int \<Rightarrow> string" where
  "fill_numbuf val base =
     (if base < 0 then fill_digits lower_digits (word_of_int (- base)) val []
      else fill_digits upper_digits (word_of_int base) val [])"

section \<open>Conversion specifications\<close>

abbreviation FLAG_ALT :: u32 where "FLAG_ALT \<equiv> 1"
abbreviation FLAG_ZERO :: u32 where "FLAG_ZERO \<equiv> 2"
abbreviation FLAG_LEFTJUSTIFY :: u32 where "FLAG_LEFTJUSTIFY \<equiv> 4"
abbreviation FLAG_SPACEPOSITIVE :: u32 where "FLAG_SPACEPOSITIVE \<equiv> 8"
abbreviation FLAG_PLUSPOSITIVE :: u32 where "FLAG_PLUSPOSITIVE \<equiv> 16"
abbreviation FLAG_NUMERIC :: u32 where "FLAG_NUMERIC \<equiv> 32"
abbreviation FLAG_SIGNED :: u32 where "FLAG_SIGNED \<equiv> 64"
abbreviation FLAG_NEGATIVE :: u32 where "FLAG_NEGATIVE \<equiv> 128"
abbreviation FLAG_ALT2 :: u32 where "FLAG_ALT2 \<equiv> 256"

definition flag_chars :: string where
  "flag_chars = ''#0- +''"

definition has :: "u32 \<Rightarrow> u32 \<Rightarrow> bool" where
  "has flags flag \<longleftrightarrow> flags AND flag \<noteq> 0"

fun char_index :: "char \<Rightarrow> string \<Rightarrow> nat option" where
  "char_index c [] = None"
| "char_index c (d # ds) = (if c = d then Some 0 else map_option Suc (char_index c ds))"

fun parse_flags :: "u32 \<Rightarrow> string \<Rightarrow> u32 \<times> string" where
  "parse_flags flags [] = (flags, [])"
| "parse_flags flags (c # cs) =
     (case char_index c flag_chars of
        Some i \<Rightarrow> parse_flags (flags OR push_bit i 1) cs
      | None \<Rightarrow> (flags, c # cs))"

definition digit_char :: "char \<Rightarrow> bool" where
  "digit_char c \<longleftrightarrow> (of_char c :: nat) \<in> {48..57}"

fun parse_digits :: "int \<Rightarrow> string \<Rightarrow> (int \<times> string) option" where
  "parse_digits w [] = Some (w, [])"
| "parse_digits w (c # cs) =
     (if digit_char c
      then (let t = 10 * w + of_char c
            in if t > 2147483647 then None else parse_digits (t - 48) cs)
      else Some (w, c # cs))"

definition parse_width :: "string \<Rightarrow> varg list \<Rightarrow> (int \<times> string \<times> varg list) option" where
  "parse_width fmt vs =
     (case fmt of
        [] \<Rightarrow> Some (- 1, [], vs)
      | c # cs \<Rightarrow>
          if digit_char c \<and> c \<noteq> CHR ''0''
          then map_option (\<lambda>(w, rest). (w, rest, vs)) (parse_digits 0 fmt)
          else if c = CHR ''*''
          then map_option (\<lambda>(w, vs'). (sint w, cs, vs')) (va_int vs)
          else Some (- 1, fmt, vs))"

definition parse_precision :: "string \<Rightarrow> varg list \<Rightarrow> (int \<times> string \<times> varg list) option" where
  "parse_precision fmt vs =
     (case fmt of
        [] \<Rightarrow> Some (- 1, [], vs)
      | c # cs \<Rightarrow>
          if c \<noteq> CHR ''.'' then Some (- 1, fmt, vs)
          else map_option (\<lambda>(p, rest, vs'). (if p < 0 then 0 else p, rest, vs'))
            (case cs of
               [] \<Rightarrow> Some (- 1, [], vs)
             | d # ds \<Rightarrow>
                 if digit_char d
                 then map_option (\<lambda>(p, rest). (p, rest, vs)) (parse_digits 0 cs)
                 else if d = CHR ''*''
                 then map_option (\<lambda>(p, vs'). (sint p, ds, vs')) (va_int vs)
                 else Some (- 1, cs, vs)))"

datatype conv =
    ConvColor int
  | ConvData u32 int u64 string

text \<open>The switch on the conversion character; \<open>longarg\<close> is the C variable \<open>length\<close>.\<close>

fun convert :: "bool \<Rightarrow> u32 \<Rightarrow> string \<Rightarrow> varg list \<Rightarrow> (conv \<times> string \<times> varg list) option" where
  "convert longarg flags [] vs = Some (ConvData flags 10 0 ''%'', [], vs)"
| "convert longarg flags (c # cs) vs =
     (if c = CHR ''l'' \<or> c = CHR ''z'' then convert True flags cs vs
      else if c = CHR ''d'' \<or> c = CHR ''i'' then
        map_option (\<lambda>(x, vs').
            (ConvData (flags OR FLAG_NUMERIC OR FLAG_SIGNED OR (if x < 0 then FLAG_NEGATIVE else 0))
               10 (word_of_int (if x < 0 then - x else x)) [], cs, vs'))
          (if longarg then map_option (\<lambda>(w, vs'). (sint w, vs')) (va_long vs)
           else map_option (\<lambda>(w, vs'). (sint w, vs')) (va_int vs))
      else if c = CHR ''u'' \<or> c = CHR ''x'' \<or> c = CHR ''X'' then
        map_option (\<lambda>(num, vs').
            (ConvData (flags OR FLAG_NUMERIC)
               (if c = CHR ''x'' then - 16 else if c = CHR ''X'' then 16 else 10) num [], cs, vs'))
          (if longarg then va_long vs else map_option (\<lambda>(w, vs'). (ucast w, vs')) (va_int vs))
      else if c = CHR ''p'' then
        map_option (\<lambda>(num, vs').
            (ConvData (flags OR FLAG_ALT OR FLAG_ALT2 OR FLAG_NUMERIC) (- 16) num [], cs, vs'))
          (va_long vs)
      else if c = CHR ''s'' then
        map_option (\<lambda>(s, vs'). (ConvData flags 10 0 s, cs, vs')) (va_str vs)
      else if c = CHR ''C'' then
        map_option (\<lambda>(w, vs'). (ConvColor (sint w), cs, vs')) (va_int vs)
      else if c = CHR ''c'' then
        map_option (\<lambda>(w, vs').
            (ConvData flags 10 0 (if (ucast w :: u8) = 0 then [] else [char_of (unat (ucast w :: u8))]), cs, vs'))
          (va_int vs)
      else Some (ConvData flags 10 0 [c], cs, vs))"

section \<open>Layout of one conversion\<close>

definition conv_data :: "u32 \<Rightarrow> int \<Rightarrow> u64 \<Rightarrow> string \<Rightarrow> string" where
  "conv_data flags base num data =
     (if has flags FLAG_NUMERIC then fill_numbuf num base else data)"

definition conv_prefix :: "u32 \<Rightarrow> int \<Rightarrow> u64 \<Rightarrow> string" where
  "conv_prefix flags base num =
     (if has flags FLAG_NUMERIC \<and> has flags FLAG_SIGNED then
        (if has flags FLAG_NEGATIVE then ''-''
         else if has flags FLAG_PLUSPOSITIVE then ''+''
         else if has flags FLAG_SPACEPOSITIVE then '' ''
         else [])
      else if has flags FLAG_NUMERIC \<and> has flags FLAG_ALT \<and> (base = 16 \<or> base = - 16)
          \<and> (num \<noteq> 0 \<or> has flags FLAG_ALT2)
        then (if base = - 16 then ''0x'' else ''0X'')
      else [])"

definition conv_len :: "u32 \<Rightarrow> int \<Rightarrow> string \<Rightarrow> int" where
  "conv_len flags precision data =
     (if precision \<ge> 0 \<and> \<not> has flags FLAG_NUMERIC
      then min (int (length data)) precision else signed_take_bit 31 (int (length data)))"

definition conv_zeros :: "u32 \<Rightarrow> int \<Rightarrow> int \<Rightarrow> int \<Rightarrow> string \<Rightarrow> int" where
  "conv_zeros flags width precision len prefix =
     (if has flags FLAG_NUMERIC \<and> precision \<ge> 0 then
        (if precision > len then precision - len else 0)
      else if has flags FLAG_NUMERIC \<and> has flags FLAG_ZERO \<and> \<not> has flags FLAG_LEFTJUSTIFY
          \<and> len + int (length prefix) < width then width - len - int (length prefix)
      else 0)"

text \<open>
  The characters that the five output loops write, in order. \<open>width\<close> is decremented in the type
  \<open>size_t\<close> of \<open>strlen\<close> and converted back to \<open>int\<close>.
\<close>

definition layout :: "u32 \<Rightarrow> int \<Rightarrow> int \<Rightarrow> int \<Rightarrow> u64 \<Rightarrow> string \<Rightarrow> string" where
  "layout flags width precision base num data0 =
     (let data = conv_data flags base num data0;
          prefix = conv_prefix flags base num;
          len = conv_len flags precision data;
          zeros = conv_zeros flags width precision len prefix;
          width' = signed_take_bit 31 (width - (len + zeros + int (length prefix)));
          left = has flags FLAG_LEFTJUSTIFY
      in (if left then [] else replicate (nat width') CHR '' '')
         @ prefix @ replicate (nat zeros) CHR ''0'' @ take (nat len) data
         @ (if left then replicate (nat width') CHR '' '' else []))"

text \<open>One conversion, from the character after the percent sign: the output, the colour that
  is current after it, and what is left of the format and of the arguments.\<close>

definition format_spec ::
  "int \<Rightarrow> string \<Rightarrow> varg list \<Rightarrow> (string \<times> int \<times> string \<times> varg list) option" where
  "format_spec color fmt vs =
     (let (flags, fmt1) = parse_flags 0 fmt
      in case parse_width fmt1 vs of
           None \<Rightarrow> None
         | Some (width, fmt2, vs2) \<Rightarrow>
             (case parse_precision fmt2 vs2 of
                None \<Rightarrow> None
              | Some (precision, fmt3, vs3) \<Rightarrow>
                  (case convert False flags fmt3 vs3 of
                     None \<Rightarrow> None
                   | Some (ConvColor color', rest, vs4) \<Rightarrow> Some ([], color', rest, vs4)
                   | Some (ConvData flags' base num data, rest, vs4) \<Rightarrow>
                       Some (layout flags' width precision base num data, color, rest, vs4))))"

fun emit :: "('p \<Rightarrow> u8 \<Rightarrow> int \<Rightarrow> 'p) \<Rightarrow> int \<Rightarrow> string \<Rightarrow> 'p \<Rightarrow> 'p" where
  "emit putc color [] p = p"
| "emit putc color (c # cs) p = emit putc color cs (putc p (of_char c) color)"

lemma parse_flags_length: "parse_flags flags fmt = (flags', rest) \<Longrightarrow> length rest \<le> length fmt"
  by (induction flags fmt rule: parse_flags.induct) (auto split: option.splits)

lemma parse_digits_length: "parse_digits w fmt = Some (w', rest) \<Longrightarrow> length rest \<le> length fmt"
  by (induction w fmt rule: parse_digits.induct) (auto simp: Let_def split: if_splits)

lemma parse_width_length: "parse_width fmt vs = Some (w, rest, vs') \<Longrightarrow> length rest \<le> length fmt"
  by (auto simp: parse_width_def simp del: parse_digits.simps
      split: list.splits if_splits dest!: parse_digits_length)

lemma parse_precision_length:
  "parse_precision fmt vs = Some (p, rest, vs') \<Longrightarrow> length rest \<le> length fmt"
  by (auto simp: parse_precision_def simp del: parse_digits.simps
      split: list.splits if_splits dest!: parse_digits_length)

lemma convert_length: "convert longarg flags fmt vs = Some (c, rest, vs') \<Longrightarrow> length rest \<le> length fmt"
  by (induction longarg flags fmt vs rule: convert.induct) (auto split: if_splits)

lemma format_spec_length:
  "format_spec color fmt vs = Some (out, color', rest, vs') \<Longrightarrow> length rest \<le> length fmt"
  by (auto simp: format_spec_def simp del: convert.simps split: prod.splits option.splits conv.splits
      dest!: parse_flags_length parse_width_length parse_precision_length convert_length)

function printer_vprintf ::
  "('p \<Rightarrow> u8 \<Rightarrow> int \<Rightarrow> 'p) \<Rightarrow> 'p \<Rightarrow> int \<Rightarrow> string \<Rightarrow> varg list \<Rightarrow> 'p option" where
  "printer_vprintf putc p color [] vs = Some p"
| "printer_vprintf putc p color (c # cs) vs =
     (if c \<noteq> CHR ''%'' then printer_vprintf putc (putc p (of_char c) color) color cs vs
      else case format_spec color cs vs of
             None \<Rightarrow> None
           | Some (out, color', rest, vs') \<Rightarrow>
               printer_vprintf putc (emit putc color out p) color' rest vs')"
  by pat_completeness auto
termination
  by (relation "measure (\<lambda>(putc, p, color, fmt, vs). length fmt)")
    (auto dest: format_spec_length)

section \<open>The console\<close>

abbreviation CONSOLE_COLUMNS :: nat where "CONSOLE_COLUMNS \<equiv> 80"
abbreviation CONSOLE_ROWS :: nat where "CONSOLE_ROWS \<equiv> 25"

definition CPOS :: "int \<Rightarrow> int \<Rightarrow> int" where
  "CPOS row col = row * 80 + col"

definition CROW :: "int \<Rightarrow> int" where
  "CROW cpos = cpos div 80"

definition CCOL :: "int \<Rightarrow> int" where
  "CCOL cpos = cpos mod 80"

text \<open>The console memory is a function of the cell number; \<open>cursor\<close> is the cell the next
  character goes to, an offset from the C array \<open>console\<close>.\<close>

record console_printer =
  console :: "nat \<Rightarrow> u16"
  cursor :: nat

definition console_cell :: "int \<Rightarrow> int \<Rightarrow> u16" where
  "console_cell c color = word_of_int c OR word_of_int color"

fun console_blanks :: "nat \<Rightarrow> int \<Rightarrow> console_printer \<Rightarrow> console_printer" where
  "console_blanks 0 color cp = cp"
| "console_blanks (Suc n) color cp =
     console_blanks n color
       (cp\<lparr>console := (console cp)(cursor cp := console_cell 32 color), cursor := cursor cp + 1\<rparr>)"

definition console_putc :: "console_printer \<Rightarrow> u8 \<Rightarrow> int \<Rightarrow> console_printer" where
  "console_putc cp0 c color =
     (let cp = (if cursor cp0 \<ge> CONSOLE_ROWS * CONSOLE_COLUMNS then cp0\<lparr>cursor := 0\<rparr> else cp0)
      in if c = 10 then console_blanks (80 - cursor cp mod 80) color cp
         else cp\<lparr>console := (console cp)(cursor cp := console_cell (uint c) color),
                 cursor := cursor cp + 1\<rparr>)"

definition console_vprintf ::
  "(nat \<Rightarrow> u16) \<Rightarrow> int \<Rightarrow> int \<Rightarrow> string \<Rightarrow> varg list \<Rightarrow> (int \<times> (nat \<Rightarrow> u16)) option" where
  "console_vprintf con cpos color fmt vs =
     (let cpos' = (if cpos < 0 \<or> cpos \<ge> int (CONSOLE_ROWS * CONSOLE_COLUMNS) then 0 else cpos)
      in map_option (\<lambda>cp. (int (cursor cp), console cp))
           (printer_vprintf console_putc \<lparr>console = con, cursor = nat cpos'\<rparr> color fmt vs))"

definition console_printf ::
  "(nat \<Rightarrow> u16) \<Rightarrow> int \<Rightarrow> int \<Rightarrow> string \<Rightarrow> varg list \<Rightarrow> (int \<times> (nat \<Rightarrow> u16)) option" where
  "console_printf con cpos color fmt vs = console_vprintf con cpos color fmt vs"

fun console_clear_loop :: "nat \<Rightarrow> (nat \<Rightarrow> u16) \<Rightarrow> (nat \<Rightarrow> u16)" where
  "console_clear_loop 0 con = con"
| "console_clear_loop (Suc i) con = (console_clear_loop i con)(i := console_cell 32 0x0700)"

definition console_clear :: "(nat \<Rightarrow> u16) \<Rightarrow> int \<times> (nat \<Rightarrow> u16)" where
  "console_clear con = (0, console_clear_loop (CONSOLE_ROWS * CONSOLE_COLUMNS) con)"

section \<open>Printing into a buffer\<close>

record string_printer =
  sp_mem :: memory
  sp_s :: u64
  sp_end :: u64

definition string_putc :: "string_printer \<Rightarrow> u8 \<Rightarrow> int \<Rightarrow> string_printer" where
  "string_putc sp c color =
     (if sp_s sp < sp_end sp
      then sp\<lparr>sp_mem := (sp_mem sp)(sp_s sp := c), sp_s := sp_s sp + 1\<rparr> else sp)"

definition vsnprintf ::
  "memory \<Rightarrow> u64 \<Rightarrow> u64 \<Rightarrow> string \<Rightarrow> varg list \<Rightarrow> (int \<times> memory) option" where
  "vsnprintf m s sz fmt vs =
     (if sz \<noteq> 0
      then map_option (\<lambda>sp. (c_int (sp_s sp - s), (sp_mem sp)(sp_s sp := 0)))
             (printer_vprintf string_putc \<lparr>sp_mem = m, sp_s = s, sp_end = s + sz - 1\<rparr> 0 fmt vs)
      else Some (0, m))"

definition snprintf ::
  "memory \<Rightarrow> u64 \<Rightarrow> u64 \<Rightarrow> string \<Rightarrow> varg list \<Rightarrow> (int \<times> memory) option" where
  "snprintf m s sz fmt vs = vsnprintf m s sz fmt vs"

lemma printer_vprintf_literal:
  "CHR ''%'' \<notin> set fmt \<Longrightarrow> printer_vprintf putc p color fmt vs = Some (emit putc color fmt p)"
  by (induction fmt arbitrary: p) auto

section \<open>The contract between printer\_vprintf and a printer\<close>

locale printer_sink =
  fixes putc :: "'p \<Rightarrow> u8 \<Rightarrow> int \<Rightarrow> 'p"
    and inv :: "'p \<Rightarrow> bool"
  assumes putc_inv: "inv p \<Longrightarrow> inv (putc p c color)"
begin

lemma emit_inv: "inv p \<Longrightarrow> inv (emit putc color out p)"
  by (induction out arbitrary: p) (simp_all add: putc_inv)

lemma vprintf_inv: "printer_vprintf putc p color fmt vs = Some p' \<Longrightarrow> inv p \<Longrightarrow> inv p'"
proof (induction fmt arbitrary: p color vs rule: length_induct)
  case (1 fmt)
  show ?case
  proof (cases fmt)
    case Nil
    with "1.prems" show ?thesis by simp
  next
    case (Cons c cs)
    show ?thesis
    proof (cases "c = CHR ''%''")
      case False
      with "1.prems"(1) Cons
      have "printer_vprintf putc (putc p (of_char c) color) color cs vs = Some p'" by simp
      moreover have "length cs < length fmt" using Cons by simp
      ultimately show ?thesis using "1.IH" "1.prems"(2) by (blast intro: putc_inv)
    next
      case True
      with "1.prems" Cons obtain out color' rest vs' where
        spec: "format_spec color cs vs = Some (out, color', rest, vs')"
        and run: "printer_vprintf putc (emit putc color out p) color' rest vs' = Some p'"
        by (auto split: option.splits)
      have "length rest < length fmt" using format_spec_length [OF spec] Cons by simp
      with run "1.IH" "1.prems"(2) show ?thesis by (blast intro: emit_inv)
    qed
  qed
qed

end

definition console_ok :: "(nat \<Rightarrow> u16) \<Rightarrow> console_printer \<Rightarrow> bool" where
  "console_ok con cp \<longleftrightarrow> cursor cp \<le> 2000 \<and> (\<forall>i \<ge> 2000. console cp i = con i)"

lemma console_blanks_ok:
  "console_ok con cp \<Longrightarrow> cursor cp + n \<le> 2000 \<Longrightarrow> console_ok con (console_blanks n color cp)"
  by (induction n color cp rule: console_blanks.induct) (auto simp: console_ok_def)

lemma row_end_le: "c < 2000 \<Longrightarrow> c + (80 - c mod 80) \<le> (2000 :: nat)"
proof -
  assume "c < 2000"
  then have "c div 80 < 25" by (simp add: less_mult_imp_div_less)
  moreover have "c = 80 * (c div 80) + c mod 80" by simp
  moreover have "c mod 80 < 80" by simp
  ultimately show ?thesis by linarith
qed

lemma console_putc_ok:
  assumes "console_ok con cp"
  shows "console_ok con (console_putc cp c color)"
proof -
  let ?cp = "if cursor cp \<ge> 2000 then cp\<lparr>cursor := 0\<rparr> else cp"
  have ok: "console_ok con ?cp" and lt: "cursor ?cp < 2000"
    using assms by (auto simp: console_ok_def)
  have "console_ok con (console_blanks (80 - cursor ?cp mod 80) color ?cp)"
    by (rule console_blanks_ok [OF ok row_end_le [OF lt]])
  moreover have "console_ok con (?cp\<lparr>console := (console ?cp)(cursor ?cp := v),
      cursor := cursor ?cp + 1\<rparr>)" for v
    using ok lt by (simp add: console_ok_def)
  ultimately show ?thesis
    by (simp add: console_putc_def Let_def)
qed

interpretation console_sink: printer_sink console_putc "console_ok con" for con
  by unfold_locales (rule console_putc_ok)

text \<open>What a buffer printer keeps: its write position stays between the start of the buffer and
  its end, and only bytes before the write position differ from the memory it started with.\<close>

definition buffer_ok :: "memory \<Rightarrow> u64 \<Rightarrow> u64 \<Rightarrow> string_printer \<Rightarrow> bool" where
  "buffer_ok m s e sp \<longleftrightarrow>
     s \<le> sp_s sp \<and> sp_s sp \<le> e \<and> sp_end sp = e
     \<and> (\<forall>a. \<not> (s \<le> a \<and> a < sp_s sp) \<longrightarrow> sp_mem sp a = m a)"

lemma word_Suc_le:
  fixes a b e :: u64
  assumes "b < e"
  shows "b < b + 1" "b + 1 \<le> e"
proof -
  have "unat (b + 1) = unat b + 1"
    using assms unat_u64_less [of e] unat_add_u64 [of b 1]
    by (simp add: word_less_nat_alt del: unat_u64_less)
  with assms show "b < b + 1" "b + 1 \<le> e"
    by (simp_all add: word_less_nat_alt word_le_nat_alt)
qed

lemma string_putc_ok:
  assumes "buffer_ok m s e sp"
  shows "buffer_ok m s e (string_putc sp c color)"
proof (cases "sp_s sp < sp_end sp")
  case True
  with assms have "sp_s sp < sp_s sp + 1" "sp_s sp + 1 \<le> e"
    using word_Suc_le [of "sp_s sp" e] by (simp_all add: buffer_ok_def)
  with True assms show ?thesis
    by (auto simp: buffer_ok_def string_putc_def dest: order.strict_trans)
next
  case False
  with assms show ?thesis by (simp add: string_putc_def)
qed

interpretation buffer_sink: printer_sink string_putc "buffer_ok m s e" for m s e
  by unfold_locales (rule string_putc_ok)

section \<open>Lemmas: the output does not depend on the printer\<close>

definition trace_putc :: "(u8 \<times> int) list \<Rightarrow> u8 \<Rightarrow> int \<Rightarrow> (u8 \<times> int) list" where
  "trace_putc tr c color = tr @ [(c, color)]"

definition replay :: "('p \<Rightarrow> u8 \<Rightarrow> int \<Rightarrow> 'p) \<Rightarrow> 'p \<Rightarrow> (u8 \<times> int) list \<Rightarrow> 'p" where
  "replay putc p tr = fold (\<lambda>(c, color) p. putc p c color) tr p"

lemma replay_trace [simp]:
  "replay putc p [] = p"
  "replay putc p (trace_putc tr c color) = putc (replay putc p tr) c color"
  by (simp_all add: replay_def trace_putc_def)

lemma replay_emit: "replay putc p (emit trace_putc color out tr) = emit putc color out (replay putc p tr)"
  by (induction out arbitrary: tr) simp_all

lemma printer_vprintf_replay:
  "printer_vprintf putc (replay putc p tr) color fmt vs =
     map_option (replay putc p) (printer_vprintf trace_putc tr color fmt vs)"
proof (induction fmt arbitrary: tr color vs rule: length_induct)
  case (1 fmt)
  show ?case
  proof (cases fmt)
    case (Cons c cs)
    have lit: "printer_vprintf putc (replay putc p (trace_putc tr (of_char c) color)) color cs vs =
        map_option (replay putc p) (printer_vprintf trace_putc (trace_putc tr (of_char c) color) color cs vs)"
      using "1.IH" Cons by (simp del: replay_trace)
    have spec: "printer_vprintf putc (replay putc p (emit trace_putc color out tr)) color' rest vs' =
        map_option (replay putc p) (printer_vprintf trace_putc (emit trace_putc color out tr) color' rest vs')"
      if "format_spec color cs vs = Some (out, color', rest, vs')" for out color' rest vs'
      using "1.IH" format_spec_length [OF that] Cons by simp
    show ?thesis
      using lit spec unfolding Cons replay_emit by (auto split: option.splits)
  qed simp
qed

section \<open>Lemmas: digits\<close>

text \<open>The reference: the digits of a number, most significant first.\<close>

fun ndigits :: "nat \<Rightarrow> nat \<Rightarrow> nat list" where
  "ndigits b n = (if n < b \<or> b \<le> 1 then [n] else ndigits b (n div b) @ [n mod b])"

declare ndigits.simps [simp del]

lemma fill_digits_ndigits:
  "1 < base \<Longrightarrow> fill_digits digits base val acc = map (nth digits) (ndigits (unat base) (unat val)) @ acc"
proof (induction digits base val acc rule: fill_digits.induct)
  case (1 digits base val acc)
  let ?d = "digits ! unat (val mod base)"
  have base: "\<not> base \<le> 1" and b: "1 < unat base"
    using "1.prems" by (simp_all add: word_less_nat_alt word_le_nat_alt)
  have dm: "unat (val div base) = unat val div unat base" "unat (val mod base) = unat val mod unat base"
    by (simp_all add: unat_div_distrib unat_mod_distrib)
  show ?case
  proof (cases "val div base = 0")
    case True
    then have "unat val < unat base"
      using dm(1) b by (simp add: div_eq_0_iff)
    with True show ?thesis
      by (simp add: fill_digits.simps [of _ _ val] ndigits.simps [of _ "unat val"] dm)
  next
    case False
    then have big: "\<not> unat val < unat base"
      using dm(1) by (metis div_less unat_eq_0)
    have "fill_digits digits base (val div base) (?d # acc)
        = map (nth digits) (ndigits (unat base) (unat (val div base))) @ ?d # acc"
      using "1.IH" [OF refl refl] False base "1.prems" by simp
    then show ?thesis
      using False base big b
      by (simp add: fill_digits.simps [of _ _ val] ndigits.simps [of _ "unat val"] dm Let_def)
  qed
qed

lemma ndigits_value: "1 < b \<Longrightarrow> foldl (\<lambda>n d. b * n + d) 0 (ndigits b n) = n"
proof (induction b n rule: ndigits.induct)
  case (1 b n)
  then show ?case
    by (cases "n < b") (simp_all add: ndigits.simps [of b n])
qed

lemma ndigits_less: "1 < b \<Longrightarrow> d \<in> set (ndigits b n) \<Longrightarrow> d < b"
proof (induction b n rule: ndigits.induct)
  case (1 b n)
  then show ?case
    by (cases "n < b") (auto simp: ndigits.simps [of b n])
qed

lemma ndigits_length: "1 < b \<Longrightarrow> 0 < k \<Longrightarrow> n < b ^ k \<Longrightarrow> length (ndigits b n) \<le> k"
proof (induction k arbitrary: n)
  case (Suc k)
  show ?case
  proof (cases "n < b")
    case True
    then show ?thesis by (simp add: ndigits.simps [of b n])
  next
    case False
    then have "k \<noteq> 0" using Suc.prems by (cases k) auto
    moreover have "n div b < b ^ k"
      using Suc.prems by (simp add: less_mult_imp_div_less mult.commute)
    ultimately have "length (ndigits b (n div b)) \<le> k" using Suc by simp
    with False Suc.prems show ?thesis by (simp add: ndigits.simps [of b n])
  qed
qed simp

lemma ndigits_no_leading_zero: "1 < b \<Longrightarrow> n \<noteq> 0 \<Longrightarrow> hd (ndigits b n) \<noteq> 0 \<and> ndigits b n \<noteq> []"
proof (induction b n rule: ndigits.induct)
  case (1 b n)
  then show ?case
    by (cases "n < b") (auto simp: ndigits.simps [of b n] div_eq_0_iff)
qed

definition numeral_value :: "nat \<Rightarrow> string \<Rightarrow> string \<Rightarrow> nat" where
  "numeral_value b digits s = foldl (\<lambda>n c. b * n + the (char_index c digits)) 0 s"

lemma char_index_nth: "distinct digits \<Longrightarrow> d < length digits \<Longrightarrow> char_index (digits ! d) digits = Some d"
proof (induction digits arbitrary: d)
  case (Cons c digits)
  then show ?case by (cases d) auto
qed simp

lemma numeral_value_map_nth:
  assumes "distinct digits" "\<And>d. d \<in> set ds \<Longrightarrow> d < length digits"
  shows "numeral_value b digits (map (nth digits) ds) = foldl (\<lambda>n d. b * n + d) 0 ds"
proof -
  have "foldl (\<lambda>n c. b * n + the (char_index c digits)) k (map (nth digits) ds)
      = foldl (\<lambda>n d. b * n + d) k ds" for k
    using assms(2) by (induction ds arbitrary: k) (auto simp: char_index_nth [OF assms(1)])
  then show ?thesis by (simp add: numeral_value_def)
qed

lemma digits_distinct:
  "distinct upper_digits" "length upper_digits = 16" "distinct lower_digits" "length lower_digits = 16"
  by (simp_all add: upper_digits_def lower_digits_def)

lemma fill_digits_roundtrip:
  assumes "1 < base" "unat base \<le> 16" "distinct digits" "length digits = 16"
    and "0 < k" "18446744073709551616 \<le> unat base ^ k"
  shows "numeral_value (unat base) digits (fill_digits digits base val []) = unat val"
    and "length (fill_digits digits base val []) \<le> k"
    and "val \<noteq> 0 \<Longrightarrow> fill_digits digits base val [] \<noteq> [] \<and> hd (fill_digits digits base val []) \<noteq> digits ! 0"
proof -
  have b: "1 < unat base" using assms(1) by (simp add: word_less_nat_alt)
  have eq: "fill_digits digits base val [] = map (nth digits) (ndigits (unat base) (unat val))"
    using fill_digits_ndigits [OF assms(1)] by simp
  have small: "d < length digits" if "d \<in> set (ndigits (unat base) (unat val))" for d
    using ndigits_less [OF b that] assms(2,4) by simp
  show "numeral_value (unat base) digits (fill_digits digits base val []) = unat val"
    unfolding eq using numeral_value_map_nth [OF assms(3) small] ndigits_value [OF b] by simp
  have "unat val < unat base ^ k"
    using assms(6) unat_u64_less [of val] by linarith
  then show "length (fill_digits digits base val []) \<le> k"
    unfolding eq using ndigits_length [OF b assms(5)] by simp
  assume "val \<noteq> 0"
  then have nz: "hd (ndigits (unat base) (unat val)) \<noteq> 0 \<and> ndigits (unat base) (unat val) \<noteq> []"
    using ndigits_no_leading_zero [OF b, of "unat val"] by (simp add: unat_eq_0)
  then have "digits ! hd (ndigits (unat base) (unat val)) \<noteq> digits ! 0"
    using small [of "hd (ndigits (unat base) (unat val))"] assms(3,4)
    by (auto simp: nth_eq_iff_index_eq)
  with nz show "fill_digits digits base val [] \<noteq> []
      \<and> hd (fill_digits digits base val []) \<noteq> digits ! 0"
    unfolding eq by (simp add: hd_map)
qed

section \<open>Lemmas: the buffer printer writes a prefix of the output\<close>

lemma replay_string_putc:
  assumes "unat s \<le> unat e" and "k = min (length tr) (unat e - unat s)"
  shows "replay string_putc \<lparr>sp_mem = m, sp_s = s, sp_end = e\<rparr> tr =
    \<lparr>sp_mem = (\<lambda>a. if in_range s k a then fst (tr ! unat (a - s)) else m a),
     sp_s = s + of_nat k, sp_end = e\<rparr>"
  using assms
proof (induction tr arbitrary: m s k)
  case Nil
  then show ?case by (simp add: replay_def in_range_def)
next
  case (Cons x tr)
  obtain c color where x: "x = (c, color)" by fastforce
  show ?case
  proof (cases "s < e")
    case True
    then have u: "unat (s + 1) = unat s + 1"
      using unat_add_u64 [of s 1] unat_u64_less [of e]
      by (simp add: word_less_nat_alt del: unat_u64_less)
    define k' where "k' = min (length tr) (unat e - unat (s + 1))"
    have k: "k = Suc k'"
      using True Cons.prems u by (simp add: k'_def word_less_nat_alt)
    have k'_less: "k' < 18446744073709551616"
      using unat_u64_less [of e] by (simp add: k'_def del: unat_u64_less)
    have step: "replay string_putc \<lparr>sp_mem = m, sp_s = s, sp_end = e\<rparr> (x # tr)
        = replay string_putc \<lparr>sp_mem = m(s := c), sp_s = s + 1, sp_end = e\<rparr> tr"
      using True x by (simp add: replay_def string_putc_def)
    have IH: "replay string_putc \<lparr>sp_mem = m(s := c), sp_s = s + 1, sp_end = e\<rparr> tr =
        \<lparr>sp_mem = (\<lambda>a. if in_range (s + 1) k' a then fst (tr ! unat (a - (s + 1))) else (m(s := c)) a),
         sp_s = s + 1 + of_nat k', sp_end = e\<rparr>"
      using True u by (intro Cons.IH) (simp_all add: k'_def word_less_nat_alt)
    have "(if in_range (s + 1) k' a then fst (tr ! unat (a - (s + 1))) else (m(s := c)) a)
        = (if in_range s k a then fst ((x # tr) ! unat (a - s)) else m a)" for a
    proof (cases "a = s")
      case True
      then show ?thesis using k'_less by (simp add: in_range_def k x)
    next
      case False
      then have "unat (a - (s + 1)) = unat (a - s) - 1" "0 < unat (a - s)"
        using unat_pred_u64 [of "a - s"] by (simp_all add: algebra_simps unat_gt_0)
      then show ?thesis
        using False in_range_Suc [OF k'_less, of s a] by (simp add: k)
    qed
    then show ?thesis unfolding step IH by (simp add: k algebra_simps)
  next
    case False
    then have "unat e = unat s" using Cons.prems by (simp add: word_less_nat_alt)
    moreover have "replay string_putc \<lparr>sp_mem = m, sp_s = s, sp_end = e\<rparr> (x # tr)
        = replay string_putc \<lparr>sp_mem = m, sp_s = s, sp_end = e\<rparr> tr"
      using False x by (simp add: replay_def string_putc_def)
    ultimately show ?thesis
      using Cons.IH [of s 0 m] Cons.prems by (simp add: in_range_def)
  qed
qed

section \<open>Lemmas: one conversion\<close>

text \<open>The reference: a prefix and digits, padded to a width.\<close>

definition pad :: "bool \<Rightarrow> bool \<Rightarrow> nat \<Rightarrow> string \<Rightarrow> string \<Rightarrow> string" where
  "pad left zero n prefix body =
     (let k = n - (length prefix + length body)
      in if left then prefix @ body @ replicate k CHR '' ''
         else if zero then prefix @ replicate k CHR ''0'' @ body
         else replicate k CHR '' '' @ prefix @ body)"

definition numeral_string :: "nat \<Rightarrow> string \<Rightarrow> nat \<Rightarrow> string" where
  "numeral_string b digits n = map (nth digits) (ndigits b n)"

definition width_string :: "nat \<Rightarrow> string" where
  "width_string n = (if n = 0 then [] else numeral_string 10 upper_digits n)"

text \<open>What a numeric conversion of an \<open>int\<close> with a set of flags and a width should print.\<close>

definition number_prefix :: "char set \<Rightarrow> char \<Rightarrow> u32 \<Rightarrow> string" where
  "number_prefix flags c w =
     (if c \<in> {CHR ''d'', CHR ''i''} then
        (if sint w < 0 then ''-'' else if CHR ''+'' \<in> flags then ''+'' else if CHR '' '' \<in> flags then '' '' else [])
      else if c \<in> {CHR ''x'', CHR ''X''} \<and> CHR ''#'' \<in> flags \<and> w \<noteq> 0 then [CHR ''0'', c]
      else [])"

definition number_digits :: "char \<Rightarrow> u32 \<Rightarrow> string" where
  "number_digits c w =
     (if c \<in> {CHR ''d'', CHR ''i''} then numeral_string 10 upper_digits (nat \<bar>sint w\<bar>)
      else if c = CHR ''x'' then numeral_string 16 lower_digits (unat w)
      else if c = CHR ''X'' then numeral_string 16 upper_digits (unat w)
      else numeral_string 10 upper_digits (unat w))"

lemma has_or [simp]: "has (a OR b) f \<longleftrightarrow> has a f \<or> has b f"
  by (auto simp: has_def bit_eq_iff bit_simps)

lemma has_zero [simp]: "\<not> has 0 f"
  by (simp add: has_def)

lemma has_numeral [simp]: "has (numeral a) (numeral b) \<longleftrightarrow> (numeral a AND numeral b :: u32) \<noteq> 0"
  "has (numeral a) 1 \<longleftrightarrow> (numeral a AND 1 :: u32) \<noteq> 0" "has 1 (numeral b) \<longleftrightarrow> (1 AND numeral b :: u32) \<noteq> 0" "has 1 1"
  by (simp_all add: has_def)

text \<open>The bits that a list of flag characters sets.\<close>

definition flags_read :: "u32 \<Rightarrow> string \<Rightarrow> u32 \<Rightarrow> bool" where
  "flags_read f fs flags \<longleftrightarrow>
     (has flags FLAG_ALT \<longleftrightarrow> has f FLAG_ALT \<or> CHR ''#'' \<in> set fs) \<and>
     (has flags FLAG_ZERO \<longleftrightarrow> has f FLAG_ZERO \<or> CHR ''0'' \<in> set fs) \<and>
     (has flags FLAG_LEFTJUSTIFY \<longleftrightarrow> has f FLAG_LEFTJUSTIFY \<or> CHR ''-'' \<in> set fs) \<and>
     (has flags FLAG_SPACEPOSITIVE \<longleftrightarrow> has f FLAG_SPACEPOSITIVE \<or> CHR '' '' \<in> set fs) \<and>
     (has flags FLAG_PLUSPOSITIVE \<longleftrightarrow> has f FLAG_PLUSPOSITIVE \<or> CHR ''+'' \<in> set fs) \<and>
     (has flags FLAG_NUMERIC \<longleftrightarrow> has f FLAG_NUMERIC) \<and> (has flags FLAG_SIGNED \<longleftrightarrow> has f FLAG_SIGNED) \<and>
     (has flags FLAG_NEGATIVE \<longleftrightarrow> has f FLAG_NEGATIVE) \<and> (has flags FLAG_ALT2 \<longleftrightarrow> has f FLAG_ALT2)"

lemma parse_flags_result:
  assumes "set fs \<subseteq> set flag_chars" "c \<notin> set flag_chars"
  shows "\<exists>flags. parse_flags f (fs @ c # cs) = (flags, c # cs) \<and> flags_read f fs flags"
  using assms
proof (induction fs arbitrary: f)
  case Nil
  then show ?case by (simp add: flag_chars_def flags_read_def)
next
  case (Cons d fs)
  then have "d \<in> {CHR ''#'', CHR ''0'', CHR ''-'', CHR '' '', CHR ''+''}" by (simp add: flag_chars_def)
  then obtain i b where i: "char_index d flag_chars = Some i" "push_bit i (1 :: u32) = b"
    and b: "(d, b) \<in> {(CHR ''#'', 1), (CHR ''0'', 2), (CHR ''-'', 4), (CHR '' '', 8), (CHR ''+'', 16)}"
    by (auto simp: flag_chars_def)
  have step: "parse_flags f ((d # fs) @ c # cs) = parse_flags (f OR b) (fs @ c # cs)" using i by simp
  obtain flags where flags: "parse_flags (f OR b) (fs @ c # cs) = (flags, c # cs)" "flags_read (f OR b) fs flags"
    using Cons.IH [of "f OR b"] Cons.prems by auto
  from b consider "d = CHR ''#''" "b = 1" | "d = CHR ''0''" "b = 2" | "d = CHR ''-''" "b = 4" | "d = CHR '' ''" "b = 8"
    | "d = CHR ''+''" "b = 16" by auto
  then have "flags_read f (d # fs) flags" by cases (use flags(2) in \<open>simp_all add: flags_read_def\<close>)
  with flags(1) show ?case unfolding step by blast
qed

lemma upper_digit: "d < 10 \<Longrightarrow> of_char (upper_digits ! d) = (48 + int d)"
proof -
  assume "d < 10"
  moreover have "\<forall>d\<in>set [0..<10]. of_char (upper_digits ! d) = (48 + int d)" by code_simp
  ultimately show ?thesis by simp
qed

lemma digit_char_upper: "d < 10 \<Longrightarrow> digit_char (upper_digits ! d)"
proof -
  assume "d < 10"
  moreover have "\<forall>d\<in>set [0..<10]. digit_char (upper_digits ! d)" by code_simp
  ultimately show ?thesis by simp
qed

lemma foldl_digits_ge: "k \<le> foldl (\<lambda>n d. 10 * n + d) k ds" for k :: nat
proof (induction ds arbitrary: k)
  case (Cons d ds)
  have "k \<le> 10 * k + d" by simp
  also have "\<dots> \<le> foldl (\<lambda>n d. 10 * n + d) (10 * k + d) ds" by (rule Cons.IH)
  finally show ?case by simp
qed simp

lemma parse_digits_result:
  assumes "\<forall>d\<in>set ds. d < 10" "\<not> digit_char c" "foldl (\<lambda>n d. 10 * n + d) k ds \<le> 2147483599"
  shows "parse_digits (int k) (map (nth upper_digits) ds @ c # cs) = Some (int (foldl (\<lambda>n d. 10 * n + d) k ds), c # cs)"
  using assms
proof (induction ds arbitrary: k)
  case (Cons d ds)
  have "10 * k + d \<le> 2147483599" using foldl_digits_ge [of "10 * k + d" ds] Cons.prems(3) by simp
  then show ?case
    using Cons.IH [of "10 * k + d"] Cons.prems digit_char_upper [of d] upper_digit [of d] by (simp add: Let_def)
qed simp

lemma parse_width_result:
  assumes "n \<le> 2147483599" "\<not> digit_char c" "c \<noteq> CHR ''*''"
  shows "parse_width (width_string n @ c # cs) vs = Some (if n = 0 then - 1 else int n, c # cs, vs)"
proof (cases "n = 0")
  case False
  note d = ndigits_no_leading_zero [of 10 n] ndigits_less [of 10 _ n] ndigits_value [of 10 n]
  obtain x xs where x: "ndigits 10 n = x # xs" using d(1) False by (cases "ndigits 10 n") auto
  then have "x < 10" "x \<noteq> 0" using d(1,2) False by auto
  moreover have "\<forall>x\<in>set [1..<10]. upper_digits ! x \<noteq> CHR ''0''" by code_simp
  ultimately have "digit_char (upper_digits ! x)" "upper_digits ! x \<noteq> CHR ''0''" using digit_char_upper by auto
  moreover have "parse_digits (int 0) (map (nth upper_digits) (x # xs) @ c # cs) = Some (int n, c # cs)"
    using d(2,3) assms(1,2) unfolding x by (subst parse_digits_result) auto
  ultimately show ?thesis
    using False x by (simp add: width_string_def numeral_string_def parse_width_def del: parse_digits.simps)
qed (use assms in \<open>simp add: width_string_def parse_width_def\<close>)

lemma width_string_flag: "width_string n @ c # cs = d # ds \<Longrightarrow> c \<notin> set flag_chars \<Longrightarrow> d \<notin> set flag_chars"
proof (cases "n = 0")
  case False
  assume eq: "width_string n @ c # cs = d # ds"
  note dg = ndigits_no_leading_zero [of 10 n] ndigits_less [of 10 _ n]
  obtain x xs where x: "ndigits 10 n = x # xs" using dg(1) False by (cases "ndigits 10 n") auto
  then have "x < 10" "x \<noteq> 0" using dg False by auto
  moreover have "\<forall>x\<in>set [1..<10]. upper_digits ! x \<notin> set flag_chars" by code_simp
  moreover have "d = upper_digits ! x" using eq False x by (simp add: width_string_def numeral_string_def)
  ultimately show ?thesis by simp
qed (simp add: width_string_def)

lemma layout_pad:
  assumes "- 1 \<le> width" "width \<le> 2147483647" "conv_data flags base num data0 = data"
    and "length data + length (conv_prefix flags base num) \<le> 2147483647"
    and "\<not> has flags FLAG_NUMERIC \<Longrightarrow> conv_prefix flags base num = []"
  shows "layout flags width (- 1) base num data0 =
    pad (has flags FLAG_LEFTJUSTIFY) (has flags FLAG_NUMERIC \<and> has flags FLAG_ZERO) (nat width) (conv_prefix flags base num) data"
proof -
  let ?p = "conv_prefix flags base num"
  have len: "conv_len flags (- 1) data = int (length data)"
    using assms(4) by (simp add: conv_len_def signed_take_bit_int_eq_self)
  have wrap: "signed_take_bit 31 (width - (int (length data) + z + int (length ?p))) =
      width - (int (length data) + z + int (length ?p))"
    if "0 \<le> z" "z = 0 \<or> int (length data) + z + int (length ?p) \<le> width" for z
    using assms(1,2,4) that by (intro signed_take_bit_int_eq_self) auto
  show ?thesis
  proof (cases "has flags FLAG_NUMERIC \<and> has flags FLAG_ZERO \<and> \<not> has flags FLAG_LEFTJUSTIFY
      \<and> int (length data) + int (length ?p) < width")
    case True
    then have "nat (width - int (length data) - int (length ?p)) = nat width - (length ?p + length data)" by linarith
    with True wrap [of "width - int (length data) - int (length ?p)"] show ?thesis
      by (simp add: layout_def pad_def assms(3) len conv_zeros_def Let_def)
  next
    case False
    have "nat (width - (int (length data) + int (length ?p))) = nat width - (length ?p + length data)" by linarith
    with False wrap [of 0] show ?thesis
      by (auto simp: layout_def pad_def assms(3) len conv_zeros_def Let_def)
  qed
qed

lemma fill_numbuf_numeral:
  "fill_numbuf num 10 = numeral_string 10 upper_digits (unat num)"
  "fill_numbuf num 16 = numeral_string 16 upper_digits (unat num)"
  "fill_numbuf num (- 16) = numeral_string 16 lower_digits (unat num)"
  by (simp_all add: fill_numbuf_def fill_digits_ndigits numeral_string_def)

lemma numeral_string_length: "b = 10 \<or> b = 16 \<Longrightarrow> length (numeral_string b digits (unat (num :: u64))) \<le> 20"
  using ndigits_length [of 10 20 "unat num"] ndigits_length [of 16 20 "unat num"] unat_u64_less [of num]
  by (auto simp: numeral_string_def simp del: unat_u64_less)

text \<open>What the parsers find in a specification with flags, a width and a conversion character.\<close>

lemma format_spec_parse:
  assumes "set fs \<subseteq> set flag_chars" "n \<le> 2147483599" "c \<in> set ''diuxXs''"
  obtains flags where
    "format_spec color (fs @ width_string n @ c # rest) vs =
      (case convert False flags (c # rest) vs of
         None \<Rightarrow> None
       | Some (ConvColor color', rest, vs4) \<Rightarrow> Some ([], color', rest, vs4)
       | Some (ConvData flags' base num data, rest, vs4) \<Rightarrow>
           Some (layout flags' (if n = 0 then - 1 else int n) (- 1) base num data, color, rest, vs4))"
    "flags_read 0 fs flags"
proof -
  have c: "c \<notin> set flag_chars" "\<not> digit_char c" "c \<noteq> CHR ''*''" "c \<noteq> CHR ''.''"
    using assms(3) by (auto simp: flag_chars_def digit_char_def)
  obtain d ds where d: "width_string n @ c # rest = d # ds" by (cases "width_string n") auto
  from parse_flags_result [OF assms(1) width_string_flag [OF d c(1)], of 0 ds]
  obtain flags where fl: "parse_flags 0 (fs @ d # ds) = (flags, d # ds)" and bits: "flags_read 0 fs flags" by blast
  have "parse_width (d # ds) vs = Some (if n = 0 then - 1 else int n, c # rest, vs)"
    using parse_width_result [OF assms(2) c(2,3), of rest vs] d by simp
  moreover have "parse_precision (c # rest) vs = Some (- 1, c # rest, vs)"
    using c(4) by (simp add: parse_precision_def)
  ultimately show ?thesis
    using fl by (intro that [OF _ bits]) (simp add: format_spec_def d del: convert.simps)
qed

lemma format_number:
  assumes "set fs \<subseteq> set flag_chars" "n \<le> 2147483599" "c \<in> set ''diuxX''"
  shows "format_spec color (fs @ width_string n @ c # rest) (VInt w # vs) =
    Some (pad (CHR ''-'' \<in> set fs) (CHR ''0'' \<in> set fs) n (number_prefix (set fs) c w) (number_digits c w), color, rest, vs)"
proof -
  have "c \<in> set ''diuxXs''" using assms(3) by auto
  from format_spec_parse [OF assms(1,2) this, of color rest "VInt w # vs"]
  obtain flags where spec: "format_spec color (fs @ width_string n @ c # rest) (VInt w # vs) =
      (case convert False flags (c # rest) (VInt w # vs) of
         None \<Rightarrow> None
       | Some (ConvColor color', rest, vs4) \<Rightarrow> Some ([], color', rest, vs4)
       | Some (ConvData flags' base num data, rest, vs4) \<Rightarrow>
           Some (layout flags' (if n = 0 then - 1 else int n) (- 1) base num data, color, rest, vs4))"
    and bits: "flags_read 0 fs flags"
    by blast
  define signed where "signed \<longleftrightarrow> c = CHR ''d'' \<or> c = CHR ''i''"
  define flags' where "flags' = (if signed then flags OR FLAG_NUMERIC OR FLAG_SIGNED OR (if sint w < 0 then FLAG_NEGATIVE else 0)
    else flags OR FLAG_NUMERIC)"
  define base :: int where "base = (if c = CHR ''x'' then - 16 else if c = CHR ''X'' then 16 else 10)"
  define num :: u64 where "num = (if signed then word_of_int \<bar>sint w\<bar> else ucast w)"
  have conv: "convert False flags (c # rest) (VInt w # vs) = Some (ConvData flags' base num [], rest, vs)"
    using assms(3) by (auto simp: flags'_def base_def num_def signed_def)
  have "\<bar>sint w\<bar> \<le> 2147483648" using sint_greater_eq [of w] sint_less [of w] by simp
  then have "unat (of_nat (nat \<bar>sint w\<bar>) :: u64) = nat \<bar>sint w\<bar>" by (intro unat_of_nat_u64) linarith
  moreover have "(of_nat (nat \<bar>sint w\<bar>) :: u64) = word_of_int \<bar>sint w\<bar>" by simp
  ultimately have unat_num: "unat num = (if signed then nat \<bar>sint w\<bar> else unat w)"
    using less_le_trans [OF unsigned_less [of w], of "2 ^ 64 :: nat"]
    by (simp only: num_def) (simp add: unsigned_ucast_eq take_bit_nat_eq_self)
  then have zero: "num = 0 \<longleftrightarrow> w = 0" if "\<not> signed" using that by (metis unat_eq_0)
  have data: "conv_data flags' base num [] = number_digits c w"
    using assms(3) unat_num by (auto simp: conv_data_def flags'_def number_digits_def base_def fill_numbuf_numeral signed_def)
  have prefix: "conv_prefix flags' base num = number_prefix (set fs) c w"
  proof (cases signed)
    case True
    then show ?thesis using bits by (simp add: conv_prefix_def flags'_def flags_read_def number_prefix_def signed_def)
  next
    case False
    then show ?thesis
      using assms(3) bits zero [OF False]
      by (simp add: conv_prefix_def flags'_def flags_read_def number_prefix_def signed_def base_def)
  qed
  have "length (number_digits c w) \<le> 20"
    using numeral_string_length [of 10 upper_digits num] numeral_string_length [of 16 upper_digits num]
      numeral_string_length [of 16 lower_digits num] unat_num
    by (cases signed) (auto simp: number_digits_def signed_def)
  moreover have "length (number_prefix (set fs) c w) \<le> 2" by (simp add: number_prefix_def)
  moreover have numeric: "has flags' FLAG_NUMERIC" by (simp add: flags'_def)
  ultimately have "layout flags' (if n = 0 then - 1 else int n) (- 1) base num [] =
      pad (has flags' FLAG_LEFTJUSTIFY) (has flags' FLAG_NUMERIC \<and> has flags' FLAG_ZERO)
        (nat (if n = 0 then - 1 else int n)) (conv_prefix flags' base num) (number_digits c w)"
    using assms(2) data prefix numeric by (intro layout_pad) simp_all
  moreover have "has flags' FLAG_LEFTJUSTIFY \<longleftrightarrow> CHR ''-'' \<in> set fs"
    "has flags' FLAG_NUMERIC \<and> has flags' FLAG_ZERO \<longleftrightarrow> CHR ''0'' \<in> set fs"
    using bits by (auto simp: flags'_def flags_read_def)
  ultimately show ?thesis unfolding spec conv using prefix by simp
qed

lemma format_string:
  assumes "set fs \<subseteq> set flag_chars" "n \<le> 2147483599" "length s \<le> 2147483647"
  shows "format_spec color (fs @ width_string n @ CHR ''s'' # rest) (VStr s # vs) =
    Some (pad (CHR ''-'' \<in> set fs) False n [] s, color, rest, vs)"
proof -
  have "CHR ''s'' \<in> set ''diuxXs''" by simp
  from format_spec_parse [OF assms(1,2) this, of color rest "VStr s # vs"]
  obtain flags where spec: "format_spec color (fs @ width_string n @ CHR ''s'' # rest) (VStr s # vs) =
      (case convert False flags (CHR ''s'' # rest) (VStr s # vs) of
         None \<Rightarrow> None
       | Some (ConvColor color', rest, vs4) \<Rightarrow> Some ([], color', rest, vs4)
       | Some (ConvData flags' base num data, rest, vs4) \<Rightarrow>
           Some (layout flags' (if n = 0 then - 1 else int n) (- 1) base num data, color, rest, vs4))"
    and bits: "flags_read 0 fs flags"
    by blast
  then have left: "has flags FLAG_LEFTJUSTIFY \<longleftrightarrow> CHR ''-'' \<in> set fs" and num: "\<not> has flags FLAG_NUMERIC"
    by (simp_all add: flags_read_def)
  have "conv_prefix flags 10 0 = []" using num by (simp add: conv_prefix_def)
  then have "layout flags (if n = 0 then - 1 else int n) (- 1) 10 0 s =
      pad (CHR ''-'' \<in> set fs) False (nat (if n = 0 then - 1 else int n)) [] s"
    using layout_pad [of "if n = 0 then - 1 else int n" flags 10 0 s s] assms(2,3) left num
    by (simp add: conv_data_def)
  then show ?thesis unfolding spec by simp
qed

section \<open>Properties\<close>

text \<open>
  C17 (numbers round trip and fit). For the three bases that the formatter uses, the digits that
  \<open>fill_numbuf\<close> writes denote the number it was given, start with a non-zero digit unless the
  number is 0, and fit with their terminator into the 24 bytes of \<open>numbuf\<close>.
\<close>

theorem fill_numbuf_roundtrip:
  assumes "base = 10 \<or> base = 16 \<or> base = - 16"
    and "digits = (if base < 0 then lower_digits else upper_digits)"
  shows "numeral_value (nat \<bar>base\<bar>) digits (fill_numbuf val base) = unat val
    \<and> length (fill_numbuf val base) + 1 \<le> 24
    \<and> (val \<noteq> 0 \<longrightarrow> fill_numbuf val base \<noteq> [] \<and> hd (fill_numbuf val base) \<noteq> CHR ''0'')"
proof -
  have ten: "numeral_value 10 upper_digits (fill_digits upper_digits 10 val []) = unat val"
    "length (fill_digits upper_digits 10 val []) \<le> 20"
    "val \<noteq> 0 \<Longrightarrow> fill_digits upper_digits 10 val [] \<noteq> []
      \<and> hd (fill_digits upper_digits 10 val []) \<noteq> upper_digits ! 0"
    using fill_digits_roundtrip [of 10 upper_digits 20 val] digits_distinct by simp_all
  have upper: "numeral_value 16 upper_digits (fill_digits upper_digits 16 val []) = unat val"
    "length (fill_digits upper_digits 16 val []) \<le> 16"
    "val \<noteq> 0 \<Longrightarrow> fill_digits upper_digits 16 val [] \<noteq> []
      \<and> hd (fill_digits upper_digits 16 val []) \<noteq> upper_digits ! 0"
    using fill_digits_roundtrip [of 16 upper_digits 16 val] digits_distinct by simp_all
  have lower: "numeral_value 16 lower_digits (fill_digits lower_digits 16 val []) = unat val"
    "length (fill_digits lower_digits 16 val []) \<le> 16"
    "val \<noteq> 0 \<Longrightarrow> fill_digits lower_digits 16 val [] \<noteq> []
      \<and> hd (fill_digits lower_digits 16 val []) \<noteq> lower_digits ! 0"
    using fill_digits_roundtrip [of 16 lower_digits 16 val] digits_distinct by simp_all
  have zero: "upper_digits ! 0 = CHR ''0''" "lower_digits ! 0 = CHR ''0''"
    by (simp_all add: upper_digits_def lower_digits_def)
  from assms(1) show ?thesis
    using ten upper lower unfolding zero fill_numbuf_def assms(2) by auto
qed

theorem fill_numbuf_roundtrip_witness:
  "numeral_value 16 lower_digits (fill_numbuf 0xB8000 (- 16)) = 0xB8000
   \<and> fill_numbuf 0xB8000 (- 16) = ''b8000''"
proof -
  have "fill_numbuf 0xB8000 (- 16) = ''b8000''" by code_simp
  with fill_numbuf_roundtrip [of "- 16" lower_digits "0xB8000"] show ?thesis by simp
qed

text \<open>
  C18 (what one conversion prints). A specification of any of the five flags in any order, an
  optional decimal width and one of the conversions \<open>d\<close>, \<open>i\<close>, \<open>u\<close>, \<open>x\<close> and \<open>X\<close> of an \<open>int\<close> prints the
  digits of the number without leading zeros, preceded by a minus, a plus or a space (signed
  conversions) or by 0x or 0X (hexadecimal ones with the flag #), and padded to the width: with
  spaces on the right if there is a minus among the flags, else with zeros after the prefix if there
  is a 0, else with spaces on the left. A string is padded with spaces on the side the flags say.
  The printer gets exactly these characters, and the rest of the format is processed after them.
\<close>

theorem printer_vprintf_conversion:
  assumes "set fs \<subseteq> set flag_chars" and "n \<le> 2147483599"
  shows "(c \<in> set ''diuxX'' \<longrightarrow>
      printer_vprintf putc p color (CHR ''%'' # fs @ width_string n @ c # rest) (VInt w # vs) =
        printer_vprintf putc
          (emit putc color
            (pad (CHR ''-'' \<in> set fs) (CHR ''0'' \<in> set fs) n (number_prefix (set fs) c w) (number_digits c w)) p)
          color rest vs)
    \<and> (length s \<le> 2147483647 \<longrightarrow>
      printer_vprintf putc p color (CHR ''%'' # fs @ width_string n @ CHR ''s'' # rest) (VStr s # vs) =
        printer_vprintf putc (emit putc color (pad (CHR ''-'' \<in> set fs) False n [] s) p) color rest vs)"
  using format_number [OF assms, of c color rest w vs] format_string [OF assms, of s color rest vs] by simp

theorem printer_vprintf_conversion_witness:
  "printer_vprintf trace_putc [] 7 ''%+08dx%-6s|'' [VInt (- 42), VStr ''ab''] =
     Some (map (\<lambda>c. (of_char c, 7)) ''-0000042xab    |'')"
proof -
  have d: "''%+08dx%-6s|'' = CHR ''%'' # ''+0'' @ width_string 8 @ CHR ''d'' # ''x%-6s|''" by code_simp
  have s: "''%-6s|'' = CHR ''%'' # ''-'' @ width_string 6 @ CHR ''s'' # ''|''" by code_simp
  have flags: "set ''+0'' \<subseteq> set flag_chars" "set ''-'' \<subseteq> set flag_chars" by (simp_all add: flag_chars_def)
  have pads: "pad (CHR ''-'' \<in> set ''+0'') (CHR ''0'' \<in> set ''+0'') 8 (number_prefix (set ''+0'') CHR ''d'' (- 42))
      (number_digits CHR ''d'' (- 42)) = ''-0000042''" "pad (CHR ''-'' \<in> set ''-'') False 6 [] ''ab'' = ''ab    ''"
    by code_simp+
  have "printer_vprintf trace_putc [] 7 ''%+08dx%-6s|'' [VInt (- 42), VStr ''ab''] =
      printer_vprintf trace_putc (emit trace_putc 7 ''-0000042'' []) 7 ''x%-6s|'' [VStr ''ab'']"
    unfolding d pads(1) [symmetric] by (rule printer_vprintf_conversion [OF flags(1), THEN conjunct1, THEN mp]) simp_all
  also have "\<dots> = printer_vprintf trace_putc (trace_putc (emit trace_putc 7 ''-0000042'' []) 120 7) 7 ''%-6s|'' [VStr ''ab'']"
    by simp
  also have "\<dots> = printer_vprintf trace_putc
      (emit trace_putc 7 ''ab    '' (trace_putc (emit trace_putc 7 ''-0000042'' []) 120 7)) 7 ''|'' []"
    unfolding s pads(2) [symmetric] by (rule printer_vprintf_conversion [OF flags(2), THEN conjunct2, THEN mp]) simp_all
  finally show ?thesis by (simp add: trace_putc_def)
qed

text \<open>
  C19 (the console is never overrun). Printing to the console, from any cursor position, valid
  or not, with any format, changes only the 2000 cells of the screen and returns a cursor
  position between 0 and 2000.
\<close>

theorem console_vprintf_in_bounds:
  assumes "console_vprintf con cpos color fmt vs = Some (pos, con')"
  shows "0 \<le> pos \<and> pos \<le> 2000 \<and> (\<forall>i. 2000 \<le> i \<longrightarrow> con' i = con i)"
proof -
  define start where "start = (if cpos < 0 \<or> cpos \<ge> 2000 then 0 else cpos)"
  obtain cp where run: "printer_vprintf console_putc \<lparr>console = con, cursor = nat start\<rparr> color fmt vs = Some cp"
    and out: "pos = int (cursor cp)" "con' = console cp"
    using assms by (auto simp: console_vprintf_def Let_def start_def)
  have "console_ok con \<lparr>console = con, cursor = nat start\<rparr>"
    by (auto simp: console_ok_def start_def)
  with run have "console_ok con cp"
    by (rule console_sink.vprintf_inv)
  with out show ?thesis by (simp add: console_ok_def)
qed

theorem console_vprintf_in_bounds_witness:
  "\<exists>pos con'. console_vprintf (\<lambda>i. 7) 1999 0x0C00 ''a%d'' [VInt 5] = Some (pos, con')
     \<and> 0 \<le> pos \<and> pos \<le> 2000 \<and> con' 2000 = 7"
proof -
  have "\<exists>r. console_vprintf (\<lambda>i. 7) 1999 0x0C00 ''a%d'' [VInt 5] = Some r"
    by (simp add: console_vprintf_def format_spec_def parse_width_def parse_precision_def
        digit_char_def flag_chars_def)
  then obtain pos con' where run: "console_vprintf (\<lambda>i. 7) 1999 0x0C00 ''a%d'' [VInt 5] = Some (pos, con')"
    by auto
  with console_vprintf_in_bounds [OF run] show ?thesis by auto
qed

lemma vsnprintf_prefix:
  assumes "0 < sz" and "unat s + unat sz \<le> 18446744073709551616"
    and "printer_vprintf trace_putc [] 0 fmt vs = Some out"
    and "k = min (length out) (unat sz - 1)"
  shows "\<exists>m'. vsnprintf m s sz fmt vs = Some (c_int (of_nat k), m')
    \<and> (\<forall>i < k. m' (s + of_nat i) = fst (out ! i)) \<and> m' (s + of_nat k) = 0
    \<and> (\<forall>a. \<not> in_range s (unat sz) a \<longrightarrow> m' a = m a)"
proof -
  define e where "e = s + sz - 1"
  have sz: "0 < unat sz" using assms(1) by (simp add: word_less_nat_alt)
  have kless: "k < unat sz" using assms(4) sz by simp
  then have kword: "k < 18446744073709551616"
    using unat_u64_less [of sz] by (simp del: unat_u64_less)
  have "unat (sz - 1) = unat sz - 1" using assms(1) by (simp add: unat_minus_one)
  then have e: "unat e = unat s + (unat sz - 1)"
    using assms(2) sz unat_add_u64 [of s "sz - 1"] by (simp add: e_def algebra_simps)
  define mem where "mem = (\<lambda>a. if in_range s k a then fst (out ! unat (a - s)) else m a)"
  have "printer_vprintf string_putc \<lparr>sp_mem = m, sp_s = s, sp_end = e\<rparr> 0 fmt vs
      = Some \<lparr>sp_mem = mem, sp_s = s + of_nat k, sp_end = e\<rparr>"
    using printer_vprintf_replay [of string_putc "\<lparr>sp_mem = m, sp_s = s, sp_end = e\<rparr>" "[]" 0 fmt vs]
      replay_string_putc [of s e k out m] assms(3,4) e by (simp add: mem_def)
  then have "vsnprintf m s sz fmt vs = Some (c_int (of_nat k), mem(s + of_nat k := 0))"
    using assms(1) by (simp add: vsnprintf_def e_def word_gt_0)
  moreover have small: "unat (of_nat i :: u64) = i" if "i \<le> k" for i
    using that kword by (intro unat_of_nat_u64) simp
  have "of_nat i \<noteq> (of_nat k :: u64)" if "i < k" for i
    using that small [of i] small [of k] by (metis less_imp_le less_irrefl order_refl)
  then have "(mem(s + of_nat k := 0)) (s + of_nat i) = fst (out ! i)" if "i < k" for i
    using that small [of i] by (simp add: mem_def in_range_def)
  moreover have "(mem(s + of_nat k := 0)) a = m a" if "\<not> in_range s (unat sz) a" for a
    using that kless small [of k] by (auto simp: mem_def in_range_def)
  ultimately show ?thesis by auto
qed

text \<open>
  C20 (vsnprintf). With a buffer that does not run past the end of the address space, \<open>vsnprintf\<close>
  stores the longest prefix of the formatted output that leaves room for a terminator, adds
  the terminator, returns the number of bytes before it as an \<open>int\<close>, and writes nothing outside the buffer.
\<close>

theorem vsnprintf_writes_prefix:
  assumes "0 < sz" and "unat s + unat sz \<le> 18446744073709551616"
    and "printer_vprintf trace_putc [] 0 fmt vs = Some out"
    and "k = min (length out) (unat sz - 1)"
  shows "\<exists>m'. vsnprintf m s sz fmt vs = Some (c_int (of_nat k), m')
    \<and> (\<forall>i < k. m' (s + of_nat i) = fst (out ! i)) \<and> m' (s + of_nat k) = 0
    \<and> (\<forall>a. \<not> in_range s (unat sz) a \<longrightarrow> m' a = m a)"
  by (rule vsnprintf_prefix [OF assms])

theorem vsnprintf_writes_prefix_witness:
  "\<exists>m'. vsnprintf (\<lambda>_. 1) 0x1000 4 ''ab%dcd'' [VInt 7] = Some (3, m')
     \<and> m' 0x1000 = 97 \<and> m' 0x1002 = 55 \<and> m' 0x1003 = 0 \<and> m' 0x1004 = 1"
proof -
  have out: "printer_vprintf trace_putc [] 0 ''ab%dcd'' [VInt 7]
      = Some [(97, 0), (98, 0), (55, 0), (99, 0), (100, 0)]"
    by code_simp
  have far: "\<not> in_range 0x1000 (unat (4 :: u64)) 0x1004"
    by (simp add: in_range_def)
  have len: "(3 :: nat) = min (length [(97 :: u8, 0 :: int), (98, 0), (55, 0), (99, 0), (100, 0)])
      (unat (4 :: u64) - 1)"
    by simp
  have "(0 :: u64) < 4" "unat (0x1000 :: u64) + unat (4 :: u64) \<le> 18446744073709551616"
    by simp_all
  moreover have "c_int (of_nat 3) = 3" by (simp add: c_int_def)
  ultimately show ?thesis
    using vsnprintf_writes_prefix [OF _ _ out len, of "0x1000" "\<lambda>_. 1"] far
    by (auto simp: numeral_3_eq_3 All_less_Suc)
qed

end
