(* ===== verification/PageTable.thy ===== *)
theory PageTable
  imports CLib
begin

text \<open>
  Four-level x86-64 page tables: the macros of \<open>x86-64.h\<close> that take addresses and entries apart,
  and from \<open>k-hardware.c\<close> the functions \<open>lookup_l4pagetable\<close>, \<open>virtual_memory_map\<close>,
  \<open>virtual_memory_lookup\<close>, \<open>virtual_memory_init\<close>, \<open>set_pagetable\<close> and
  \<open>physical_memory_isreserved\<close>.

  Page tables live in the physical memory of the prelude: entry \<open>i\<close> of the table at \<open>pt\<close> is the
  64-bit cell at \<open>pt + 8 * i\<close>. The page-table allocator is an argument, \<open>None\<close> standing for the
  null pointer; it may change memory and a further state of its own. Every \<open>assert\<close> is a check
  whose failure is the value \<open>Inl (Assertion file line expression)\<close>.

  The proofs see a table as the tree of its nodes: \<open>node m pt is\<close> is the table page reached by
  the index path \<open>is\<close>, and \<open>tree_ok\<close> says that different paths reach different pages.
\<close>

section \<open>Addresses, entries and flags\<close>

abbreviation PAGEOFFBITS :: nat where "PAGEOFFBITS \<equiv> 12"
abbreviation PAGEINDEXBITS :: nat where "PAGEINDEXBITS \<equiv> 9"
abbreviation PAGESIZE :: u64 where "PAGESIZE \<equiv> 4096"
abbreviation NPAGETABLEENTRIES :: nat where "NPAGETABLEENTRIES \<equiv> 512"
abbreviation MEMSIZE_PHYSICAL :: u64 where "MEMSIZE_PHYSICAL \<equiv> 0x200000"

abbreviation PTE_P :: u64 where "PTE_P \<equiv> 1"
abbreviation PTE_W :: u64 where "PTE_W \<equiv> 2"
abbreviation PTE_U :: u64 where "PTE_U \<equiv> 4"

definition PAGENUMBER :: "u64 \<Rightarrow> int" where
  "PAGENUMBER a = c_int (drop_bit PAGEOFFBITS a)"

definition PAGEADDRESS :: "int \<Rightarrow> u64" where
  "PAGEADDRESS pn = push_bit PAGEOFFBITS (of_int pn)"

definition pageindex :: "u64 \<Rightarrow> nat \<Rightarrow> u64" where
  "pageindex addr level = drop_bit (PAGEOFFBITS + (3 - level) * PAGEINDEXBITS) addr AND 0x1FF"

definition PAGEOFFSET :: "u64 \<Rightarrow> u64" where
  "PAGEOFFSET a = a AND 0xFFF"

definition PTE_ADDR :: "u64 \<Rightarrow> u64" where
  "PTE_ADDR pe = pe AND NOT 0xFFF"

definition PTE_FLAGS :: "u64 \<Rightarrow> u64" where
  "PTE_FLAGS pe = pe AND 0xFFF"

definition pt_entry :: "memory \<Rightarrow> u64 \<Rightarrow> u64 \<Rightarrow> u64" where
  "pt_entry m pt i = read64 m (pt + 8 * i)"

definition set_pt_entry :: "memory \<Rightarrow> u64 \<Rightarrow> u64 \<Rightarrow> u64 \<Rightarrow> memory" where
  "set_pt_entry m pt i pe = write64 m (pt + 8 * i) pe"

section \<open>Walking and mapping\<close>

type_synonym 's allocator = "(memory \<times> 's \<Rightarrow> u64 \<times> memory \<times> 's) option"

text \<open>
  The loop of \<open>lookup_l4pagetable\<close> over the levels still to walk. \<open>None\<close> inside the result is a
  null table pointer; a last-level table at physical address 0 is one too, and the caller cannot tell
  it from a missing table.
\<close>

fun lookup_levels ::
  "u64 \<Rightarrow> u64 \<Rightarrow> 's allocator \<Rightarrow> nat list \<Rightarrow> u64 \<Rightarrow> memory \<times> 's \<Rightarrow> (u64 option \<times> memory \<times> 's) chk" where
  "lookup_levels va perm allocator [] pt (m, s) = Inr (if pt = 0 then None else Some pt, m, s)"
| "lookup_levels va perm allocator (i # is) pt (m, s) =
     (let pe = pt_entry m pt (pageindex va i);
          sanity = (\<lambda>pe (m, s).
            bindR (check ''k-hardware.c'' 366 ''PTE_ADDR(pe) < MEMSIZE_PHYSICAL'' (PTE_ADDR pe < MEMSIZE_PHYSICAL))
              (\<lambda>_. bindR (check ''k-hardware.c'' 368 ''pe & PTE_W'' (perm AND PTE_W \<noteq> 0 \<longrightarrow> pe AND PTE_W \<noteq> 0))
              (\<lambda>_. bindR (check ''k-hardware.c'' 371 ''pe & PTE_U'' (perm AND PTE_U \<noteq> 0 \<longrightarrow> pe AND PTE_U \<noteq> 0))
              (\<lambda>_. lookup_levels va perm allocator is (PTE_ADDR pe) (m, s)))))
      in if pe AND PTE_P = 0
         then (case allocator of
                 None \<Rightarrow> Inr (None, m, s)
               | Some alloc \<Rightarrow>
                   if perm AND PTE_P = 0 then Inr (None, m, s)
                   else let (new_pt, m1, s1) = alloc (m, s)
                        in if new_pt = 0 then Inr (None, m1, s1)
                           else bindR (check ''k-hardware.c'' 359 ''(uintptr_t) new_pt % PAGESIZE == 0'' (new_pt mod PAGESIZE = 0))
                             (\<lambda>_. let pe' = PTE_ADDR new_pt OR PTE_P OR PTE_W OR PTE_U;
                                      m2 = set_pt_entry m1 pt (pageindex va i) pe'
                                  in sanity pe' (fst (memset m2 new_pt 0 PAGESIZE), s1)))
         else sanity pe (m, s))"

definition lookup_l4pagetable ::
  "u64 \<Rightarrow> u64 \<Rightarrow> u64 \<Rightarrow> 's allocator \<Rightarrow> memory \<times> 's \<Rightarrow> (u64 option \<times> memory \<times> 's) chk" where
  "lookup_l4pagetable pagetable va perm allocator = lookup_levels va perm allocator [0, 1, 2] pagetable"

text \<open>
  The loop of \<open>virtual_memory_map\<close>; its first argument counts the pages left, \<open>last123\<close> and \<open>l4\<close> are
  \<open>last_index123\<close> and \<open>l4pagetable\<close>, and \<open>perm\<close> is the converted permission word.
\<close>

fun map_pages ::
  "nat \<Rightarrow> u64 \<Rightarrow> u64 \<Rightarrow> 's allocator \<Rightarrow> int \<Rightarrow> u64 option \<Rightarrow> u64 \<Rightarrow> u64 \<Rightarrow> memory \<times> 's
     \<Rightarrow> (int \<times> memory \<times> 's) chk" where
  "map_pages 0 pagetable perm allocator last123 l4 va pa (m, s) = Inr (0, m, s)"
| "map_pages (Suc n) pagetable perm allocator last123 l4 va pa (m, s) =
     (let cur = c_int (drop_bit (PAGEOFFBITS + PAGEINDEXBITS) va)
      in bindR (if cur \<noteq> last123 then lookup_l4pagetable pagetable va perm allocator (m, s)
                else Inr (l4, m, s))
         (\<lambda>(l4, m, s).
            case l4 of
              Some t \<Rightarrow>
                map_pages n pagetable perm allocator cur l4 (va + PAGESIZE) (pa + PAGESIZE)
                  (set_pt_entry m t (pageindex va 3) (if perm AND PTE_P \<noteq> 0 then pa OR perm else perm), s)
            | None \<Rightarrow>
                if perm AND PTE_P \<noteq> 0 then Inr (- 1, m, s)
                else map_pages n pagetable perm allocator cur l4 (va + PAGESIZE) (pa + PAGESIZE) (m, s)))"

definition virtual_memory_map ::
  "u64 \<Rightarrow> u64 \<Rightarrow> u64 \<Rightarrow> u64 \<Rightarrow> int \<Rightarrow> 's allocator \<Rightarrow> memory \<times> 's \<Rightarrow> (int \<times> memory \<times> 's) chk" where
  "virtual_memory_map pagetable va pa sz perm allocator \<sigma> =
     (let p = (of_int perm :: u64) in
      bindR (check ''k-hardware.c'' 315 ''va % PAGESIZE == 0'' (va mod PAGESIZE = 0)) (\<lambda>_.
      bindR (check ''k-hardware.c'' 316 ''sz % PAGESIZE == 0'' (sz mod PAGESIZE = 0)) (\<lambda>_.
      bindR (check ''k-hardware.c'' 317 ''va + sz >= va || va + sz == 0'' (va \<le> va + sz \<or> va + sz = 0)) (\<lambda>_.
      bindR (if p AND PTE_P \<noteq> 0 then
        bindR (check ''k-hardware.c'' 319 ''pa % PAGESIZE == 0'' (pa mod PAGESIZE = 0)) (\<lambda>_.
        bindR (check ''k-hardware.c'' 320 ''pa + sz >= pa'' (pa \<le> pa + sz)) (\<lambda>_.
        check ''k-hardware.c'' 321 ''pa + sz <= MEMSIZE_PHYSICAL'' (pa + sz \<le> MEMSIZE_PHYSICAL)))
        else Inr ()) (\<lambda>_.
      bindR (check ''k-hardware.c'' 323 ''perm >= 0 && perm < 0x1000'' (0 \<le> perm \<and> perm < 0x1000)) (\<lambda>_.
      bindR (check ''k-hardware.c'' 324 ''(uintptr_t) pagetable % PAGESIZE == 0'' (pagetable mod PAGESIZE = 0)) (\<lambda>_.
      map_pages (unat (sz div PAGESIZE)) pagetable p allocator (- 1) None va pa \<sigma>)))))))"

record vamapping =
  vam_pn :: int
  vam_pa :: u64
  vam_perm :: int

fun vml_loop :: "memory \<Rightarrow> u64 \<Rightarrow> nat list \<Rightarrow> u64 \<Rightarrow> u64 \<Rightarrow> u8 \<Rightarrow> u64 \<times> u8" where
  "vml_loop m va [] pt pe perms = (pe, perms)"
| "vml_loop m va (i # is) pt pe perms =
     (if perms AND 1 = 0 then (pe, perms)
      else let pe' = pt_entry m pt (pageindex va i)
           in vml_loop m va is (PTE_ADDR pe') pe' (perms AND ucast (PTE_FLAGS pe')))"

definition virtual_memory_lookup :: "memory \<Rightarrow> u64 \<Rightarrow> u64 \<Rightarrow> vamapping" where
  "virtual_memory_lookup m pagetable va =
     (let (pe, perms) = vml_loop m va [0, 1, 2, 3] pagetable 0 7
      in if perms AND 1 \<noteq> 0
         then \<lparr>vam_pn = PAGENUMBER pe, vam_pa = PTE_ADDR pe + PAGEOFFSET va, vam_perm = uint perms\<rparr>
         else \<lparr>vam_pn = - 1, vam_pa = - 1, vam_perm = 0\<rparr>)"

text \<open>
  The addresses that the linker gives to the kernel's code and data. Only the ones that the
  modelled functions use as numbers appear.
\<close>

record ksyms =
  sym_default_int_handler :: u64
  sym_virtual_memory_map :: u64
  sym_kernel_pagetables :: u64

text \<open>\<open>set_pagetable\<close> returns the new value of the register \<open>cr3\<close>.\<close>

definition set_pagetable :: "'a ksyms_scheme \<Rightarrow> memory \<Rightarrow> u64 \<Rightarrow> u64 \<Rightarrow> u64 chk" where
  "set_pagetable syms m kernel_pagetable pagetable =
     (let maps = (\<lambda>pt a. vam_pa (virtual_memory_lookup m pt a) = a) in
      bindR (check ''k-hardware.c'' 410 ''PAGEOFFSET(pagetable) == 0'' (PAGEOFFSET pagetable = 0)) (\<lambda>_.
      bindR (check ''k-hardware.c'' 411
          ''virtual_memory_lookup(pagetable, (uintptr_t) default_int_handler).pa == (uintptr_t) default_int_handler''
          (maps pagetable (sym_default_int_handler syms))) (\<lambda>_.
      bindR (check ''k-hardware.c'' 413
          ''virtual_memory_lookup(kernel_pagetable, (uintptr_t) pagetable).pa == (uintptr_t) pagetable''
          (maps kernel_pagetable pagetable)) (\<lambda>_.
      bindR (check ''k-hardware.c'' 415
          ''virtual_memory_lookup(pagetable, (uintptr_t) kernel_pagetable).pa == (uintptr_t) kernel_pagetable''
          (maps pagetable kernel_pagetable)) (\<lambda>_.
      bindR (check ''k-hardware.c'' 417
          ''virtual_memory_lookup(pagetable, (uintptr_t) virtual_memory_map).pa == (uintptr_t) virtual_memory_map''
          (maps pagetable (sym_virtual_memory_map syms))) (\<lambda>_.
      Inr pagetable))))))"

definition physical_memory_isreserved :: "u64 \<Rightarrow> bool" where
  "physical_memory_isreserved a \<longleftrightarrow> a = 0 \<or> (0x000A0000 \<le> a \<and> a < 0x00100000)"

text \<open>
  \<open>virtual_memory_init\<close> for the array \<open>kernel_pagetables\<close> at address \<open>kp\<close>: memory with the initial
  tables. The return code of \<open>virtual_memory_map\<close> is ignored by the code; \<open>kernel_pagetable\<close> and
  \<open>cr3\<close> both become \<open>kp\<close>.
\<close>

definition link_kernel_pagetables :: "u64 \<Rightarrow> memory \<Rightarrow> memory" where
  "link_kernel_pagetables kp m =
     (let table = (\<lambda>k. kp + PAGESIZE * k);
          ent = (\<lambda>k. table k OR PTE_P OR PTE_W OR PTE_U);
          m0 = fst (memset m kp 0 (5 * PAGESIZE));
          m1 = set_pt_entry m0 (table 0) 0 (ent 1);
          m2 = set_pt_entry m1 (table 1) 0 (ent 2);
          m3 = set_pt_entry m2 (table 2) 0 (ent 3)
      in set_pt_entry m3 (table 2) 1 (ent 4))"

definition virtual_memory_init :: "'a ksyms_scheme \<Rightarrow> memory \<Rightarrow> (u64 \<times> memory) chk" where
  "virtual_memory_init syms m =
     (let kp = sym_kernel_pagetables syms in
      bindR (virtual_memory_map kp 0 0 MEMSIZE_PHYSICAL 7 (None :: unit allocator)
               (link_kernel_pagetables kp m, ()))
        (\<lambda>(r, m', _). Inr (kp, m')))"

section \<open>Trails: what a walk reads\<close>

definition present :: "u64 \<Rightarrow> bool" where
  "present pe \<longleftrightarrow> pe AND PTE_P \<noteq> 0"

text \<open>The entries that a walk along an index path reads, ending at the first one not present.\<close>

fun trail :: "memory \<Rightarrow> u64 \<Rightarrow> u64 list \<Rightarrow> u64 list" where
  "trail m pt [] = []"
| "trail m pt (i # is) =
     (let pe = pt_entry m pt i in pe # (if present pe then trail m (PTE_ADDR pe) is else []))"

fun node :: "memory \<Rightarrow> u64 \<Rightarrow> u64 list \<Rightarrow> u64 option" where
  "node m pt [] = Some pt"
| "node m pt (i # is) =
     (let pe = pt_entry m pt i in if present pe then node m (PTE_ADDR pe) is else None)"

definition path3 :: "u64 \<Rightarrow> u64 list" where
  "path3 va = map (pageindex va) [0, 1, 2]"

definition path4 :: "u64 \<Rightarrow> u64 list" where
  "path4 va = map (pageindex va) [0, 1, 2, 3]"

definition index_path :: "u64 list \<Rightarrow> bool" where
  "index_path is \<longleftrightarrow> (\<forall>i \<in> set is. unat i < 512)"

definition tree_ok :: "memory \<Rightarrow> u64 \<Rightarrow> bool" where
  "tree_ok m pt \<longleftrightarrow> unat pt mod 4096 = 0 \<and>
     (\<forall>p q t. index_path p \<and> index_path q \<and> length p \<le> 3 \<and> length q \<le> 3
        \<and> node m pt p = Some t \<and> node m pt q = Some t \<longrightarrow> p = q)"

text \<open>
  The checks of \<open>lookup_l4pagetable\<close> on one upper-level entry, and on all of a walk, which must not end
  at a table whose pointer is null.
\<close>

definition entry_ok :: "u64 \<Rightarrow> u64 \<Rightarrow> bool" where
  "entry_ok perm pe \<longleftrightarrow> present pe \<and> PTE_ADDR pe < MEMSIZE_PHYSICAL
     \<and> (perm AND PTE_W \<noteq> 0 \<longrightarrow> pe AND PTE_W \<noteq> 0) \<and> (perm AND PTE_U \<noteq> 0 \<longrightarrow> pe AND PTE_U \<noteq> 0)"

definition walk_ok :: "memory \<Rightarrow> u64 \<Rightarrow> u64 \<Rightarrow> u64 \<Rightarrow> bool" where
  "walk_ok m perm pt va \<longleftrightarrow>
     list_all (entry_ok perm) (trail m pt (path3 va)) \<and> node m pt (path3 va) \<noteq> Some 0"

subsection \<open>Address arithmetic\<close>

lemma unat_PTE_ADDR: "unat (PTE_ADDR pe) = unat pe - unat pe mod 4096"
  using unat_clear_low_bits [of pe 12] by (simp add: PTE_ADDR_def mask_numeral)

lemma PTE_ADDR_aligned [simp]: "unat (PTE_ADDR pe) mod 4096 = 0"
  unfolding unat_PTE_ADDR by (simp add: minus_mod_eq_mult_div)

lemma unat_pageindex: "unat (pageindex va k) = unat va div 2 ^ (12 + (3 - k) * 9) mod 512"
  by (simp add: pageindex_def and_1FF_take_bit unat_take_bit_u64 unat_drop_bit_u64)

lemma pageindex_less [simp]: "unat (pageindex va k) < 512"
  by (simp add: unat_pageindex)

lemma index_path_simps [simp]:
  "index_path []" "index_path (i # is) \<longleftrightarrow> unat i < 512 \<and> index_path is"
  "index_path (path3 va)" "index_path (path4 va)"
  by (auto simp: index_path_def path3_def path4_def)

lemma length_paths [simp]: "length (path3 va) = 3" "length (path4 va) = 4"
  by (simp_all add: path3_def path4_def)

lemma path4_path3: "path4 va = path3 va @ [pageindex va 3]"
  by (simp add: path3_def path4_def)

subsection \<open>Walks read trails\<close>

lemma present_iff_bit: "present pe \<longleftrightarrow> bit pe 0"
  using and_exp_eq_0_iff_not_bit [of pe 0] by (simp add: present_def)

lemma and_2_iff_bit: "pe AND 2 \<noteq> 0 \<longleftrightarrow> bit pe 1" for pe :: u64
  using and_exp_eq_0_iff_not_bit [of pe 1] by simp

lemma and_4_iff_bit: "pe AND 4 \<noteq> 0 \<longleftrightarrow> bit pe 2" for pe :: u64
  using and_exp_eq_0_iff_not_bit [of pe 2] by simp

lemma node_trail:
  "node m pt p = (if list_all present (trail m pt p) then Some (last (pt # map PTE_ADDR (trail m pt p))) else None)"
  by (induction m pt p rule: trail.induct) (auto simp: Let_def)

lemma node_cong: "trail m pt p = trail m' pt p \<Longrightarrow> node m pt p = node m' pt p"
  by (simp add: node_trail)

lemma node_aligned: "node m pt p = Some t \<Longrightarrow> unat pt mod 4096 = 0 \<Longrightarrow> unat t mod 4096 = 0"
  by (induction m pt p rule: node.induct) (auto simp: Let_def split: if_splits)

lemma node_append: "node m pt (p @ q) = Option.bind (node m pt p) (\<lambda>t. node m t q)"
  by (induction m pt p rule: node.induct) (auto simp: Let_def)

lemma length_trail: "node m pt p = Some t \<Longrightarrow> length (trail m pt p) = length p"
  by (induction m pt p rule: node.induct) (auto simp: Let_def split: if_splits)

lemma trail_append:
  "trail m pt (p @ q) = trail m pt p @ (case node m pt p of None \<Rightarrow> [] | Some t \<Rightarrow> trail m t q)"
  by (induction m pt p rule: node.induct) (auto simp: Let_def split: option.splits)

lemma pt_entry_set [page_simps]:
  assumes "unat t mod 4096 = 0" "unat i < 512" "unat t' mod 4096 = 0" "unat j < 512"
  shows "pt_entry (set_pt_entry m t i pe) t' j = (if t = t' \<and> i = j then pe else pt_entry m t' j)"
  using read64_write64_entry [OF assms] by (simp add: pt_entry_def set_pt_entry_def)

lemma tree_ok_inj:
  assumes "tree_ok m pt" "node m pt p = Some t" "node m pt q = Some t"
    and "index_path p" "index_path q" "length p \<le> 3" "length q \<le> 3"
  shows "p = q"
  using assms unfolding tree_ok_def by blast

lemma tree_ok_node_aligned:
  assumes "tree_ok m pt" "node m pt p = Some t"
  shows "unat t mod 4096 = 0"
  using assms(1) node_aligned [OF assms(2)] by (simp add: tree_ok_def)

text \<open>Writing an entry of a last-level table leaves every upper level of the tree alone.\<close>

lemma trail_set_upper_from:
  assumes "tree_ok m pt" "node m pt q = Some t" "length q = 3" "index_path q" "unat i < 512"
  shows "node m pt pre = Some a \<Longrightarrow> index_path (pre @ p) \<Longrightarrow> length (pre @ p) \<le> 3 \<Longrightarrow>
     trail (set_pt_entry m t i pe) a p = trail m a p"
proof (induction p arbitrary: pre a)
  case (Cons j js)
  have "a \<noteq> t"
    using tree_ok_inj [OF assms(1) Cons.prems(1), of q] assms Cons.prems
    by (auto simp: index_path_def)
  moreover have al: "unat a mod 4096 = 0" "unat t mod 4096 = 0"
    using assms(1,2) Cons.prems(1) by (auto intro: tree_ok_node_aligned)
  moreover have j: "unat j < 512" using Cons.prems(2) by (simp add: index_path_def)
  ultimately have e: "pt_entry (set_pt_entry m t i pe) a j = pt_entry m a j"
    using assms(5) by (auto simp: pt_entry_set)
  show ?case
  proof (cases "present (pt_entry m a j)")
    case True
    then have "node m pt (pre @ [j]) = Some (PTE_ADDR (pt_entry m a j))"
      using Cons.prems(1) by (simp add: node_append)
    with Cons.IH [of "pre @ [j]"] Cons.prems e show ?thesis by (simp add: Let_def)
  qed (simp add: e Let_def)
qed simp

lemma trail_set_upper:
  assumes "tree_ok m pt" "node m pt q = Some t" "length q = 3" "index_path q" "unat i < 512"
    and "index_path p" "length p \<le> 3"
  shows "trail (set_pt_entry m t i pe) pt p = trail m pt p"
  using trail_set_upper_from [OF assms(1-5), of "[]"] assms(6,7) by simp

lemma node_set_upper:
  assumes "tree_ok m pt" "node m pt q = Some t" "length q = 3" "index_path q" "unat i < 512"
    and "index_path p" "length p \<le> 3"
  shows "node (set_pt_entry m t i pe) pt p = node m pt p"
  by (rule node_cong) (rule trail_set_upper [OF assms])

lemma tree_ok_set:
  assumes "tree_ok m pt" "node m pt q = Some t" "length q = 3" "index_path q" "unat i < 512"
  shows "tree_ok (set_pt_entry m t i pe) pt"
  using assms(1) node_set_upper [OF assms] unfolding tree_ok_def by metis

text \<open>Writing one last-level entry changes the trail of exactly one four-index path.\<close>

lemma trail_set_leaf:
  assumes "tree_ok m pt" "node m pt q = Some t" "length q = 3" "index_path q" "unat i < 512"
    and "index_path p" "length p = 3" "unat j < 512"
  shows "trail (set_pt_entry m t i pe) pt (p @ [j]) =
     (if p = q \<and> j = i then trail m pt q @ [pe] else trail m pt (p @ [j]))"
proof (cases "node m pt p")
  case None
  then have "node (set_pt_entry m t i pe) pt p = None"
    using node_set_upper [OF assms(1-5)] assms(6,7) by simp
  with None assms trail_set_upper [OF assms(1-5), of p pe] show ?thesis
    by (auto simp: trail_append)
next
  case (Some a)
  then have "node (set_pt_entry m t i pe) pt p = Some a"
    using node_set_upper [OF assms(1-5)] assms(6,7) by simp
  moreover have "a = t \<longleftrightarrow> p = q"
    using Some assms tree_ok_inj [OF assms(1) Some, of q] by auto
  moreover have "unat a mod 4096 = 0" "unat t mod 4096 = 0"
    using assms(1,2) Some by (auto intro: tree_ok_node_aligned)
  ultimately show ?thesis
    using Some assms trail_set_upper [OF assms(1-5), of p pe]
    by (auto simp: trail_append pt_entry_set Let_def)
qed

subsection \<open>Pages of the lower 48 bits\<close>

lemma unat_pageindexes:
  "unat (pageindex va 3) = unat va div 4096 mod 512"
  "unat (pageindex va 2) = unat va div 4096 div 512 mod 512"
  "unat (pageindex va (Suc 0)) = unat va div 4096 div 512 div 512 mod 512"
  "unat (pageindex va 0) = unat va div 4096 div 512 div 512 div 512 mod 512"
  by (simp_all add: unat_pageindex flip: div_mult2_eq)

lemma digits_512_eq:
  fixes a b :: nat
  assumes "a < 512 ^ 4" "b < 512 ^ 4" "a mod 512 = b mod 512"
    and "a div 512 mod 512 = b div 512 mod 512"
    and "a div 512 div 512 mod 512 = b div 512 div 512 mod 512"
    and "a div 512 div 512 div 512 mod 512 = b div 512 div 512 div 512 mod 512"
  shows "a = b"
proof -
  have "a div 512 div 512 div 512 < 512" "b div 512 div 512 div 512 < 512"
    using assms(1,2) by (simp_all flip: div_mult2_eq add: less_mult_imp_div_less)
  then have "a div 512 div 512 div 512 = b div 512 div 512 div 512"
    using assms(6) by simp
  then have "a div 512 div 512 = b div 512 div 512"
    using assms(5) by (metis div_mult_mod_eq)
  then have "a div 512 = b div 512"
    using assms(4) by (metis div_mult_mod_eq)
  then show ?thesis
    using assms(3) by (metis div_mult_mod_eq)
qed

lemma path4_eq_iff:
  assumes "unat va < 2 ^ 48" "unat va' < 2 ^ 48"
  shows "path4 va = path4 va' \<longleftrightarrow> unat va div 4096 = unat va' div 4096"
proof
  assume eq: "path4 va = path4 va'"
  have "unat va div 4096 < 512 ^ 4" "unat va' div 4096 < 512 ^ 4"
    using assms by (simp_all add: less_mult_imp_div_less)
  then show "unat va div 4096 = unat va' div 4096"
    by (rule digits_512_eq) (use eq in \<open>simp_all add: path4_def u64_eq_iff_unat unat_pageindexes\<close>)
qed (simp add: path4_def u64_eq_iff_unat unat_pageindexes)

lemma unat_index123: "unat (drop_bit 21 va) = unat va div 4096 div 512" for va :: u64
  by (simp add: unat_drop_bit_u64 flip: div_mult2_eq)

lemma c_int_index123:
  assumes "unat va < 2 ^ 48"
  shows "c_int (drop_bit 21 va) = int (unat va div 4096 div 512)"
proof -
  have "unat va div 4096 div 512 < 2147483648"
    using assms by (simp flip: div_mult2_eq add: less_mult_imp_div_less)
  then show ?thesis
    using c_int_small [of "drop_bit 21 va"] unfolding unat_index123 by blast
qed

lemma path3_of_index123:
  assumes "unat va < 2 ^ 48" "unat va' < 2 ^ 48"
    and "c_int (drop_bit 21 va) = c_int (drop_bit 21 va')"
  shows "path3 va = path3 va'"
proof -
  have "unat va div 4096 div 512 = unat va' div 4096 div 512"
    using assms(3) unfolding c_int_index123 [OF assms(1)] c_int_index123 [OF assms(2)] by linarith
  then show ?thesis
    by (simp add: path3_def u64_eq_iff_unat unat_pageindexes)
qed

lemma same_page_iff:
  fixes a x :: nat
  assumes "a mod 4096 = 0"
  shows "x div 4096 = a div 4096 \<longleftrightarrow> a \<le> x \<and> x < a + 4096"
proof -
  from assms obtain p where "a = 4096 * p" by auto
  then show ?thesis by (auto simp: div_nat_eqI less_mult_imp_div_less div_eq_0_iff intro: div_nat_eqI dest: sym) 
qed

subsection \<open>Mapping without an allocator\<close>

lemma lookup_levels_ok:
  "list_all (entry_ok perm) (trail m pt (map (pageindex va) is)) \<Longrightarrow> node m pt (map (pageindex va) is) \<noteq> Some 0 \<Longrightarrow>
   lookup_levels va perm allocator is pt (m, s) = Inr (node m pt (map (pageindex va) is), m, s)"
  by (induction "is" arbitrary: pt) (auto simp: Let_def entry_ok_def present_def)

lemma lookup_l4pagetable_ok:
  assumes "walk_ok m perm pt va"
  shows "lookup_l4pagetable pt va perm allocator (m, s) = Inr (node m pt (path3 va), m, s)"
  using assms unfolding lookup_l4pagetable_def walk_ok_def path3_def by (intro lookup_levels_ok) simp_all

text \<open>A last-level table at address 0 is taken for a missing one: the first page of it fails.\<close>

lemma lookup_levels_zero:
  "list_all (entry_ok perm) (trail m pt (map (pageindex va) is)) \<Longrightarrow> node m pt (map (pageindex va) is) = Some 0 \<Longrightarrow>
   lookup_levels va perm allocator is pt (m, s) = Inr (None, m, s)"
  by (induction "is" arbitrary: pt) (auto simp: Let_def entry_ok_def present_def)

lemma map_table_at_zero:
  assumes "list_all (entry_ok perm) (trail m pt (path3 va))" "node m pt (path3 va) = Some 0" "perm AND PTE_P \<noteq> 0"
    and "c_int (drop_bit 21 va) \<noteq> - 1"
  shows "map_pages (Suc n) pt perm allocator (- 1) None va pa (m, s) = Inr (- 1, m, s)"
  using lookup_levels_zero [of perm m pt va "[0, 1, 2]" allocator s] assms
  by (simp add: Let_def lookup_l4pagetable_def path3_def)

lemma walk_ok_node:
  assumes "walk_ok m perm pt va"
  obtains t where "node m pt (path3 va) = Some t"
  using assms by (auto simp: walk_ok_def node_trail entry_ok_def list_all_iff)

definition mapped_entry :: "u64 \<Rightarrow> u64 \<Rightarrow> u64 \<Rightarrow> u64 \<Rightarrow> u64" where
  "mapped_entry perm va pa va' =
     (if perm AND PTE_P \<noteq> 0 then (pa + PTE_ADDR (va' - va)) OR perm else perm)"

lemma PTE_ADDR_small: "unat a < 4096 \<Longrightarrow> PTE_ADDR a = 0"
  by (simp add: u64_eq_iff_unat unat_PTE_ADDR)

lemma PTE_ADDR_sub_page:
  assumes "4096 \<le> unat a"
  shows "PTE_ADDR (a - 4096) = PTE_ADDR a - 4096"
proof -
  have le: "4096 \<le> a" using assms by (simp add: word_le_nat_alt)
  then have s: "unat (a - 4096) = unat a - 4096" by (simp add: unat_sub_u64)
  have "unat (PTE_ADDR a) = 4096 * (unat a div 4096)"
    by (simp add: unat_PTE_ADDR minus_mod_eq_mult_div)
  then have "4096 \<le> PTE_ADDR a" using assms by (simp add: word_le_nat_alt)
  then show ?thesis
    using assms by (simp add: u64_eq_iff_unat unat_PTE_ADDR unat_sub_u64 s le_mod_geq)
qed

lemma mapped_entry_step:
  assumes "unat va + 4096 \<le> unat x"
  shows "mapped_entry perm (va + 4096) (pa + 4096) x = mapped_entry perm va pa x"
proof -
  have "va \<le> x" using assms by (simp add: word_le_nat_alt)
  then have "4096 \<le> unat (x - va)" using assms by (simp add: unat_sub_u64)
  from PTE_ADDR_sub_page [OF this] show ?thesis
    by (simp add: mapped_entry_def algebra_simps)
qed

lemma mapped_entry_first:
  assumes "unat va \<le> unat x" "unat x < unat va + 4096"
  shows "mapped_entry perm va pa x = (if perm AND PTE_P \<noteq> 0 then pa OR perm else perm)"
proof -
  have "va \<le> x" using assms(1) by (simp add: word_le_nat_alt)
  then have "unat (x - va) < 4096" using assms by (simp add: unat_sub_u64)
  then show ?thesis by (simp add: mapped_entry_def PTE_ADDR_small)
qed

text \<open>One iteration of the loop, seen through trails.\<close>

lemma map_one_page:
  fixes pa :: u64
  assumes "tree_ok m pt" "walk_ok m perm pt va" "unat va mod 4096 = 0" "unat va < 2 ^ 48"
    and "node m pt (path3 va) = Some t"
  defines "m1 \<equiv> set_pt_entry m t (pageindex va 3) (if perm AND PTE_P \<noteq> 0 then pa OR perm else perm)"
  shows "tree_ok m1 pt"
    and "\<And>p. index_path p \<Longrightarrow> length p \<le> 3 \<Longrightarrow> trail m1 pt p = trail m pt p"
    and "\<And>x. unat x < 2 ^ 48 \<Longrightarrow> trail m1 pt (path4 x) =
         (if unat va \<le> unat x \<and> unat x < unat va + 4096
          then trail m pt (path3 x) @ [mapped_entry perm va pa x] else trail m pt (path4 x))"
proof -
  show "tree_ok m1 pt"
    unfolding m1_def by (rule tree_ok_set [OF assms(1,5)]) simp_all
  show "trail m1 pt p = trail m pt p" if "index_path p" "length p \<le> 3" for p
    unfolding m1_def by (rule trail_set_upper [OF assms(1,5)]) (simp_all add: that)
  show "trail m1 pt (path4 x) =
         (if unat va \<le> unat x \<and> unat x < unat va + 4096
          then trail m pt (path3 x) @ [mapped_entry perm va pa x] else trail m pt (path4 x))"
    if x: "unat x < 2 ^ 48" for x
  proof -
    have same: "path3 x = path3 va \<and> pageindex x 3 = pageindex va 3
        \<longleftrightarrow> unat va \<le> unat x \<and> unat x < unat va + 4096"
      using path4_eq_iff [OF x assms(4)] same_page_iff [OF assms(3), of "unat x"]
      by (simp add: path4_path3)
    have "trail m1 pt (path3 x @ [pageindex x 3]) =
        (if path3 x = path3 va \<and> pageindex x 3 = pageindex va 3
         then trail m pt (path3 va) @ [if perm AND PTE_P \<noteq> 0 then pa OR perm else perm]
         else trail m pt (path3 x @ [pageindex x 3]))"
      unfolding m1_def by (rule trail_set_leaf [OF assms(1,5)]) simp_all
    then show ?thesis
      using same mapped_entry_first [of va x perm pa] by (auto simp: path4_path3)
  qed
qed

lemma map_pages_ok:
  assumes "tree_ok m pt" "unat va mod 4096 = 0" "unat va + 4096 * n \<le> 2 ^ 48"
    and "\<And>x. unat va \<le> unat x \<Longrightarrow> unat x < unat va + 4096 * n \<Longrightarrow> walk_ok m perm pt x"
    and "c = - 1 \<or> (\<exists>x. unat x < 2 ^ 48 \<and> c = c_int (drop_bit 21 x) \<and> l4 = node m pt (path3 x))"
  shows "\<exists>m'. map_pages n pt perm allocator c l4 va pa (m, s) = Inr (0, m', s) \<and> tree_ok m' pt
    \<and> (\<forall>p. index_path p \<and> length p \<le> 3 \<longrightarrow> trail m' pt p = trail m pt p)
    \<and> (\<forall>x. unat x < 2 ^ 48 \<longrightarrow> trail m' pt (path4 x) =
         (if unat va \<le> unat x \<and> unat x < unat va + 4096 * n
          then trail m pt (path3 x) @ [mapped_entry perm va pa x] else trail m pt (path4 x)))"
  using assms
proof (induction n arbitrary: m va pa c l4)
  case 0
  then show ?case by auto
next
  case (Suc n)
  have va48: "unat va < 2 ^ 48" using Suc.prems(3) by simp
  have ok: "walk_ok m perm pt va" using Suc.prems(4) by simp
  then obtain t where t: "node m pt (path3 va) = Some t" by (rule walk_ok_node)
  define m1 where
    "m1 = set_pt_entry m t (pageindex va 3) (if perm AND PTE_P \<noteq> 0 then pa OR perm else perm)"
  define cur where "cur = c_int (drop_bit 21 va)"
  note one = map_one_page [OF Suc.prems(1) ok Suc.prems(2) va48 t, where pa = pa, folded m1_def]
  have "l4 = Some t" if "cur = c"
    using Suc.prems(5) that c_int_index123 [OF va48] path3_of_index123 [OF va48] t
    by (auto simp: cur_def)
  then have run: "map_pages (Suc n) pt perm allocator c l4 va pa (m, s) =
      map_pages n pt perm allocator cur (Some t) (va + 4096) (pa + 4096) (m1, s)"
    using lookup_l4pagetable_ok [OF ok, of allocator s] t
    by (simp add: Let_def cur_def m1_def)
  have next_page: "unat (va + 4096) = unat va + 4096" if "0 < n"
    using Suc.prems(3) that by (simp add: unat_add_u64)
  show ?case
  proof (cases "n = 0")
    case True
    then show ?thesis using run one by simp
  next
    case False
    then have nx: "unat (va + 4096) = unat va + 4096" using next_page by simp
    have "\<exists>m'. map_pages n pt perm allocator cur (Some t) (va + 4096) (pa + 4096) (m1, s) = Inr (0, m', s)
      \<and> tree_ok m' pt
      \<and> (\<forall>p. index_path p \<and> length p \<le> 3 \<longrightarrow> trail m' pt p = trail m1 pt p)
      \<and> (\<forall>x. unat x < 2 ^ 48 \<longrightarrow> trail m' pt (path4 x) =
           (if unat (va + 4096) \<le> unat x \<and> unat x < unat (va + 4096) + 4096 * n
            then trail m1 pt (path3 x) @ [mapped_entry perm (va + 4096) (pa + 4096) x]
            else trail m1 pt (path4 x)))"
    proof (rule Suc.IH [OF one(1)])
      show "unat (va + 4096) mod 4096 = 0" using Suc.prems(2) by (simp add: nx)
      show "unat (va + 4096) + 4096 * n \<le> 2 ^ 48" using Suc.prems(3) by (simp add: nx)
      show "walk_ok m1 perm pt x" if "unat (va + 4096) \<le> unat x" "unat x < unat (va + 4096) + 4096 * n" for x
        using Suc.prems(4) [of x] that one(2) [of "path3 x"] node_cong [OF one(2) [of "path3 x"]]
        by (simp add: walk_ok_def nx)
      show "cur = - 1 \<or> (\<exists>x. unat x < 2 ^ 48 \<and> cur = c_int (drop_bit 21 x) \<and> Some t = node m1 pt (path3 x))"
        using va48 t one(2) [of "path3 va"] node_cong [of m1 pt "path3 va" m]
        by (intro disjI2 exI [of _ va]) (simp add: cur_def)
    qed
    then obtain m' where m': "map_pages n pt perm allocator cur (Some t) (va + 4096) (pa + 4096) (m1, s) = Inr (0, m', s)"
      "tree_ok m' pt" "\<And>p. index_path p \<Longrightarrow> length p \<le> 3 \<Longrightarrow> trail m' pt p = trail m1 pt p"
      "\<And>x. unat x < 2 ^ 48 \<Longrightarrow> trail m' pt (path4 x) =
           (if unat va + 4096 \<le> unat x \<and> unat x < unat va + 4096 + 4096 * n
            then trail m1 pt (path3 x) @ [mapped_entry perm (va + 4096) (pa + 4096) x]
            else trail m1 pt (path4 x))"
      unfolding nx by blast
    have "trail m' pt (path4 x) =
         (if unat va \<le> unat x \<and> unat x < unat va + 4096 * Suc n
          then trail m pt (path3 x) @ [mapped_entry perm va pa x] else trail m pt (path4 x))"
      if x: "unat x < 2 ^ 48" for x
      using m'(4) [OF x] one(3) [OF x] one(2) [of "path3 x"] mapped_entry_step [of va x perm pa]
      by (auto simp del: unat_u64_less)
    then show ?thesis using run m' one(2) by (intro exI [of _ m']) simp
  qed
qed

subsection \<open>Lookup reads the same trail\<close>

definition perms_of :: "u8 \<Rightarrow> u64 list \<Rightarrow> u8" where
  "perms_of = foldl (\<lambda>perms pe. perms AND ucast (PTE_FLAGS pe))"

lemma bit_PTE_FLAGS: "bit (PTE_FLAGS pe) k \<longleftrightarrow> k < 12 \<and> bit pe k"
  unfolding PTE_FLAGS_def and_FFF_take_bit by (simp add: bit_take_bit_iff)

lemma bit_perms_of: "bit (perms_of perms es) k \<longleftrightarrow> bit perms k \<and> (\<forall>pe \<in> set es. bit pe k)"
proof (induction es arbitrary: perms)
  case (Cons e es)
  have "k < 8" if "bit perms k" using that by (auto dest: bit_imp_le_length)
  then show ?case
    using Cons.IH [of "perms AND ucast (PTE_FLAGS e)"]
    by (auto simp: perms_of_def bit_and_iff bit_unsigned_iff bit_PTE_FLAGS)
qed (simp add: perms_of_def)

lemma and_1_iff_bit_u8: "perms AND 1 = 0 \<longleftrightarrow> \<not> bit perms 0" for perms :: u8
  using and_exp_eq_0_iff_not_bit [of perms 0] by simp

lemma vml_loop_trail:
  "bit perms 0 \<Longrightarrow> vml_loop m va is pt pe perms =
     (let es = trail m pt (map (pageindex va) is) in (last (pe # es), perms_of perms es))"
proof (induction "is" arbitrary: pt pe perms)
  case (Cons i "is")
  define e where "e = pt_entry m pt (pageindex va i)"
  have step: "bit (perms AND ucast (PTE_FLAGS e)) 0 \<longleftrightarrow> present e"
    using Cons.prems by (simp add: bit_and_iff bit_unsigned_iff bit_PTE_FLAGS present_iff_bit)
  show ?case
  proof (cases "present e")
    case True
    with Cons.IH [of "perms AND ucast (PTE_FLAGS e)"] Cons.prems step show ?thesis
      by (simp add: Let_def and_1_iff_bit_u8 perms_of_def flip: e_def)
  next
    case False
    with step have "\<not> bit (perms AND ucast (PTE_FLAGS e)) 0" by simp
    with Cons.prems False show ?thesis
      by (cases "is") (simp_all add: Let_def and_1_iff_bit_u8 perms_of_def flip: e_def)
  qed
qed (simp add: perms_of_def)

lemma virtual_memory_lookup_trail:
  "virtual_memory_lookup m pt va =
     (let es = trail m pt (path4 va); perms = perms_of 7 es
      in if bit perms 0
         then \<lparr>vam_pn = PAGENUMBER (last (0 # es)), vam_pa = PTE_ADDR (last (0 # es)) + PAGEOFFSET va,
               vam_perm = uint perms\<rparr>
         else \<lparr>vam_pn = - 1, vam_pa = - 1, vam_perm = 0\<rparr>)"
proof -
  have "bit (7 :: u8) 0" by simp
  from vml_loop_trail [OF this, of m va "[0, 1, 2, 3]" pt 0]
  have "vml_loop m va [0, 1, 2, 3] pt 0 7 = (last (0 # trail m pt (path4 va)), perms_of 7 (trail m pt (path4 va)))"
    by (simp only: Let_def path4_def)
  then show ?thesis
    unfolding virtual_memory_lookup_def by (simp only: Let_def split and_1_iff_bit_u8 not_not)
qed

lemma virtual_memory_lookup_cong:
  "trail m pt (path4 va) = trail m' pt (path4 va) \<Longrightarrow>
   virtual_memory_lookup m pt va = virtual_memory_lookup m' pt va"
  by (simp add: virtual_memory_lookup_trail)

text \<open>A leaf entry made of a page-aligned address and twelve bits of flags comes apart again.\<close>

lemma aligned_not_bit: "unat (q :: u64) mod 4096 = 0 \<Longrightarrow> k < 12 \<Longrightarrow> \<not> bit q k"
proof -
  assume "unat q mod 4096 = 0" "k < 12"
  then have "take_bit 12 q = 0" by (simp add: u64_eq_iff_unat unat_take_bit_u64)
  with \<open>k < 12\<close> show ?thesis by (metis bit_take_bit_iff bit_0_eq bot_apply bot_bool_def)
qed

lemma small_not_bit: "unat (p :: u64) < 4096 \<Longrightarrow> 12 \<le> k \<Longrightarrow> \<not> bit p k"
proof -
  assume "unat p < 4096" "12 \<le> k"
  then have "take_bit 12 p = p" by (simp add: u64_eq_iff_unat unat_take_bit_u64)
  with \<open>12 \<le> k\<close> show ?thesis by (metis bit_take_bit_iff not_le)
qed

lemma PTE_ADDR_bits: "bit (PTE_ADDR pe) k \<longleftrightarrow> 12 \<le> k \<and> bit pe k"
proof -
  have "PTE_ADDR pe = pe AND NOT (mask 12)" by (simp add: PTE_ADDR_def mask_numeral)
  then show ?thesis by (auto simp: bit_simps dest: bit_imp_le_length)
qed

lemma leaf_entry:
  assumes "unat q mod 4096 = 0" "unat p < 4096"
  shows "PTE_ADDR (q OR p) = q" and "PAGENUMBER (q OR p) = PAGENUMBER q"
proof -
  show "PTE_ADDR (q OR p) = q"
    using small_not_bit [OF assms(2)] aligned_not_bit [OF assms(1)]
    by (intro bit_word_eqI) (auto simp: PTE_ADDR_bits bit_or_iff not_le [symmetric])
  have "drop_bit 12 (q OR p) = drop_bit 12 q"
    using assms(2) by (auto intro!: bit_word_eqI simp: bit_drop_bit_eq bit_or_iff small_not_bit)
  then show "PAGENUMBER (q OR p) = PAGENUMBER q" by (simp add: PAGENUMBER_def)
qed

lemma page_and_offset: "PTE_ADDR x + PAGEOFFSET x = x"
proof -
  have "PTE_ADDR x + take_bit 12 x = PTE_ADDR x OR take_bit 12 x"
    by (rule disjunctive_add) (simp add: PTE_ADDR_bits bit_take_bit_iff)
  also have "\<dots> = x" by (rule bit_word_eqI) (auto simp: PTE_ADDR_bits bit_simps)
  finally show ?thesis by (simp add: PAGEOFFSET_def and_FFF_take_bit)
qed

section \<open>Mapping and looking up\<close>

lemma mapped_perms:
  assumes "list_all (entry_ok p) es" "bit p 0" "unat q mod 4096 = 0"
  shows "perms_of 7 (es @ [q OR p]) = ucast (p AND 7)"
proof (rule bit_word_eqI)
  fix k assume "k < LENGTH(8)"
  have es: "bit e 0" "bit p 1 \<longrightarrow> bit e 1" "bit p 2 \<longrightarrow> bit e 2" if "e \<in> set es" for e
    using assms(1) that by (auto simp: list_all_iff entry_ok_def present_iff_bit and_2_iff_bit and_4_iff_bit)
  have seven: "bit (7 :: u8) k \<longleftrightarrow> k = 0 \<or> k = 1 \<or> k = 2" "bit (7 :: u64) k \<longleftrightarrow> k = 0 \<or> k = 1 \<or> k = 2"
    using bit_mask_iff [where ?'a = u8, of 3 k] bit_mask_iff [where ?'a = u64, of 3 k]
    by (auto simp: mask_numeral possible_bit_def)
  have "\<not> bit q k" if "k < 12" using aligned_not_bit [OF assms(3) that] .
  then have "bit (perms_of 7 (es @ [q OR p])) k \<longleftrightarrow> bit (7 :: u8) k \<and> bit p k"
    using es assms(2) \<open>k < LENGTH(8)\<close> unfolding bit_perms_of seven(1) by (auto simp: bit_or_iff)
  then show "bit (perms_of 7 (es @ [q OR p])) k = bit (ucast (p AND 7) :: u8) k"
    using \<open>k < LENGTH(8)\<close> unfolding bit_unsigned_iff bit_and_iff seven by auto
qed

lemma unat_of_int_perm:
  assumes "0 \<le> perm" "perm < 4096"
  shows "unat (of_int perm :: u64) = nat perm"
  using assms by (simp add: unsigned_of_int take_bit_int_eq_self)

lemma uint_perm_bits:
  assumes "0 \<le> perm" "perm < 4096"
  shows "uint (ucast (of_int perm AND 7 :: u64) :: u8) = perm mod 8"
proof -
  have "(of_int perm AND 7 :: u64) = take_bit 3 (of_int perm)" by (rule and_7_take_bit)
  also have "\<dots> = of_int (take_bit 3 perm)" by (rule take_bit_of_int)
  finally show ?thesis
    by (simp add: unsigned_ucast_eq unsigned_of_int take_bit_eq_mod mod_mod_cancel)
qed

lemma bit_of_int_perm_0: "bit (of_int perm :: u64) 0 \<longleftrightarrow> odd perm"
  by (simp add: bit_word_of_int_iff flip: bit_0)

lemma lookup_mapped:
  assumes "list_all (entry_ok (of_int perm)) es" "trail m pt (path4 x) = es @ [q OR of_int perm]"
    and "0 \<le> perm" "perm < 4096" "odd perm" "unat q mod 4096 = 0"
  shows "virtual_memory_lookup m pt x =
    \<lparr>vam_pn = PAGENUMBER q, vam_pa = q + PAGEOFFSET x, vam_perm = perm mod 8\<rparr>"
proof -
  have p: "bit (of_int perm :: u64) 0" using assms(5) by (simp add: bit_of_int_perm_0)
  have "unat (of_int perm :: u64) < 4096" using assms(3,4) by (simp add: unat_of_int_perm)
  note leaf = leaf_entry [OF assms(6) this]
  have "perms_of 7 (es @ [q OR of_int perm]) = ucast (of_int perm AND 7 :: u64)"
    by (rule mapped_perms [OF assms(1) p assms(6)])
  moreover have "bit (perms_of 7 (es @ [q OR of_int perm])) 0"
    using assms(1) p by (auto simp: bit_perms_of bit_or_iff list_all_iff entry_ok_def present_iff_bit)
  ultimately show ?thesis
    using leaf uint_perm_bits [OF assms(3,4)]
    by (simp add: virtual_memory_lookup_trail assms(2) Let_def)
qed

lemma word_mod_page [page_simps]: "(a :: u64) mod 4096 = 0 \<longleftrightarrow> unat a mod 4096 = 0"
  by (simp add: u64_eq_iff_unat unat_mod)

lemma aligned_add:
  assumes "unat (a :: u64) mod 4096 = 0" "unat b mod 4096 = 0"
  shows "unat (a + b) mod 4096 = 0"
proof -
  have "(unat a + unat b) mod 4096 = 0" using assms by (simp add: mod_add_eq [symmetric])
  then show ?thesis by (simp add: unat_word_ariths mod_mod_cancel)
qed

lemma page_offset_cong:
  assumes "unat va mod 4096 = 0" "va \<le> x"
  shows "PAGEOFFSET (x - va) = PAGEOFFSET x"
proof -
  have "unat va \<le> unat x" using assms(2) by (simp add: word_le_nat_alt)
  from assms(1) obtain v where "unat va = 4096 * v" by auto
  then have "(unat x - unat va) mod 4096 = unat x mod 4096"
    using \<open>unat va \<le> unat x\<close> by (metis add_diff_inverse_nat mod_mult_self2 not_less add.commute)
  then show ?thesis
    by (simp add: PAGEOFFSET_def and_FFF_take_bit u64_eq_iff_unat unat_take_bit_u64 unat_sub_u64 assms(2))
qed

lemma map_asserts_ok:
  assumes "unat va mod 4096 = 0" "unat sz mod 4096 = 0" "unat va + unat sz \<le> 2 ^ 48"
    and "odd perm \<Longrightarrow> unat pa mod 4096 = 0" "odd perm \<Longrightarrow> unat pa + unat sz \<le> unat MEMSIZE_PHYSICAL"
    and "0 \<le> perm" "perm < 4096" "unat pt mod 4096 = 0"
  shows "virtual_memory_map pt va pa sz perm allocator \<sigma> =
    map_pages (unat sz div 4096) pt (of_int perm) allocator (- 1) None va pa \<sigma>"
proof -
  have "va \<le> va + sz" using assms(3) by (simp add: word_le_nat_alt unat_add_u64)
  moreover have "pa \<le> pa + sz" "pa + sz \<le> MEMSIZE_PHYSICAL" if "odd perm"
    using assms(5) [OF that] by (simp_all add: word_le_nat_alt unat_add_u64)
  moreover have "(of_int perm :: u64) AND 1 \<noteq> 0 \<longleftrightarrow> odd perm"
    using present_iff_bit [of "of_int perm"] by (simp add: present_def bit_of_int_perm_0)
  ultimately show ?thesis
    using assms by (simp add: virtual_memory_map_def word_mod_page unat_div)
qed

lemma lookup_translates:
  assumes "list_all (entry_ok (of_int perm)) es"
    and "trail m pt (path4 x) = es @ [(pa + PTE_ADDR (x - va)) OR of_int perm]"
    and "0 \<le> perm" "perm < 4096" "odd perm" "unat pa mod 4096 = 0" "unat va mod 4096 = 0"
    and "unat va \<le> unat x"
  shows "virtual_memory_lookup m pt x =
    \<lparr>vam_pn = PAGENUMBER (pa + (x - va)), vam_pa = pa + (x - va), vam_perm = perm mod 8\<rparr>"
proof -
  define q where "q = pa + PTE_ADDR (x - va)"
  define off where "off = PAGEOFFSET (x - va)"
  have q: "unat q mod 4096 = 0" unfolding q_def by (rule aligned_add [OF assms(6)]) simp
  have off: "unat off < 4096" by (simp add: off_def PAGEOFFSET_def and_FFF_take_bit unat_take_bit_u64)
  have "off = PAGEOFFSET x"
    unfolding off_def using assms(7,8) by (intro page_offset_cong) (simp_all add: word_le_nat_alt)
  moreover have "q + off = pa + (x - va)"
    using page_and_offset [of "x - va"] by (simp add: q_def off_def add.assoc)
  moreover have "q OR off = q + off"
    by (rule disjunctive_add [symmetric]) (metis aligned_not_bit [OF q] small_not_bit [OF off] not_le)
  then have "PAGENUMBER (q + off) = PAGENUMBER q"
    using leaf_entry(2) [OF q off] by simp
  moreover have "virtual_memory_lookup m pt x =
      \<lparr>vam_pn = PAGENUMBER q, vam_pa = q + PAGEOFFSET x, vam_perm = perm mod 8\<rparr>"
    using assms(2) by (intro lookup_mapped [OF assms(1)]) (simp_all add: assms q flip: q_def)
  ultimately show ?thesis by simp
qed

lemma map_then_trail:
  assumes "tree_ok m pt" and "unat va mod 4096 = 0" and "unat sz mod 4096 = 0"
    and "unat pa mod 4096 = 0" and "unat va + unat sz \<le> 2 ^ 48"
    and "unat pa + unat sz \<le> unat MEMSIZE_PHYSICAL"
    and "0 \<le> perm" and "perm < 4096"
    and walk: "\<forall>x. unat va \<le> unat x \<and> unat x < unat va + unat sz \<longrightarrow> walk_ok m (of_int perm) pt x"
  shows "\<exists>m'. virtual_memory_map pt va pa sz perm allocator (m, s) = Inr (0, m', s) \<and> tree_ok m' pt
    \<and> (\<forall>p. index_path p \<and> length p \<le> 3 \<longrightarrow> trail m' pt p = trail m pt p)
    \<and> (\<forall>x. unat x < 2 ^ 48 \<longrightarrow> trail m' pt (path4 x) =
         (if unat va \<le> unat x \<and> unat x < unat va + unat sz
          then trail m pt (path3 x) @ [mapped_entry (of_int perm) va pa x] else trail m pt (path4 x)))"
proof -
  define n where "n = unat sz div 4096"
  have n: "unat va + unat sz = unat va + 4096 * n" using assms(3) by (auto simp: n_def)
  have al: "unat pt mod 4096 = 0" using assms(1) by (simp add: tree_ok_def)
  have run: "virtual_memory_map pt va pa sz perm allocator (m, s) =
      map_pages n pt (of_int perm) allocator (- 1) None va pa (m, s)"
    unfolding n_def by (rule map_asserts_ok) (use assms(2-8) al in simp_all)
  have "\<exists>m'. map_pages n pt (of_int perm) allocator (- 1) None va pa (m, s) = Inr (0, m', s) \<and> tree_ok m' pt
    \<and> (\<forall>p. index_path p \<and> length p \<le> 3 \<longrightarrow> trail m' pt p = trail m pt p)
    \<and> (\<forall>x. unat x < 2 ^ 48 \<longrightarrow> trail m' pt (path4 x) =
         (if unat va \<le> unat x \<and> unat x < unat va + 4096 * n
          then trail m pt (path3 x) @ [mapped_entry (of_int perm) va pa x] else trail m pt (path4 x)))"
    by (rule map_pages_ok [OF assms(1,2)]) (use assms(5) walk n in auto)
  then show ?thesis unfolding run n .
qed

lemma map_then_lookup:
  assumes "tree_ok m pt" and "unat va mod 4096 = 0" and "unat sz mod 4096 = 0"
    and "unat pa mod 4096 = 0" and "unat va + unat sz \<le> 2 ^ 48"
    and "unat pa + unat sz \<le> unat MEMSIZE_PHYSICAL"
    and "0 \<le> perm" and "perm < 4096" and "odd perm"
    and walk: "\<forall>x. unat va \<le> unat x \<and> unat x < unat va + unat sz \<longrightarrow> walk_ok m (of_int perm) pt x"
  shows "\<exists>m'. virtual_memory_map pt va pa sz perm allocator (m, s) = Inr (0, m', s)
    \<and> tree_ok m' pt
    \<and> (\<forall>x. unat x < 2 ^ 48 \<longrightarrow> virtual_memory_lookup m' pt x =
         (if unat va \<le> unat x \<and> unat x < unat va + unat sz
          then \<lparr>vam_pn = PAGENUMBER (pa + (x - va)), vam_pa = pa + (x - va), vam_perm = perm mod 8\<rparr>
          else virtual_memory_lookup m pt x))"
proof -
  obtain m' where m': "virtual_memory_map pt va pa sz perm allocator (m, s) = Inr (0, m', s)"
    "tree_ok m' pt"
    "\<And>x. unat x < 2 ^ 48 \<Longrightarrow> trail m' pt (path4 x) =
         (if unat va \<le> unat x \<and> unat x < unat va + unat sz
          then trail m pt (path3 x) @ [mapped_entry (of_int perm) va pa x] else trail m pt (path4 x))"
    using map_then_trail [OF assms(1-8) walk, of allocator s] by metis
  have "virtual_memory_lookup m' pt x =
      \<lparr>vam_pn = PAGENUMBER (pa + (x - va)), vam_pa = pa + (x - va), vam_perm = perm mod 8\<rparr>"
    if x: "unat x < 2 ^ 48" and r: "unat va \<le> unat x" "unat x < unat va + unat sz" for x
  proof (rule lookup_translates)
    have "bit (of_int perm :: u64) 0" using assms(9) by (simp add: bit_of_int_perm_0)
    then show "trail m' pt (path4 x) = trail m pt (path3 x) @ [(pa + PTE_ADDR (x - va)) OR of_int perm]"
      using m'(3) [OF x] r present_iff_bit [of "of_int perm"]
      by (simp add: mapped_entry_def present_def)
    show "list_all (entry_ok (of_int perm)) (trail m pt (path3 x))"
      using walk r by (simp add: walk_ok_def)
  qed (simp_all add: assms r)
  moreover have "virtual_memory_lookup m' pt x = virtual_memory_lookup m pt x"
    if "unat x < 2 ^ 48" "\<not> (unat va \<le> unat x \<and> unat x < unat va + unat sz)" for x
    using m'(3) [OF that(1)] that(2) by (intro virtual_memory_lookup_cong) auto
  ultimately show ?thesis using m'(1,2) by (intro exI [of _ m']) auto
qed

end
