(* ===== verification/AddressSpace.thy ===== *)
theory AddressSpace
  imports PageTable
begin

text \<open>
  The initial kernel address space and the contracts of the page-table operations: what
  \<open>virtual_memory_map\<close> promises to \<open>virtual_memory_lookup\<close>, the identity mapping that
  \<open>virtual_memory_init\<close> builds, its acceptance by \<open>set_pagetable\<close>, and the failure cases.
\<close>

section \<open>The linked but empty kernel tables\<close>

definition table :: "u64 \<Rightarrow> nat \<Rightarrow> u64" where
  "table kp k = kp + 4096 * of_nat k"

definition tables_fit :: "u64 \<Rightarrow> bool" where
  "tables_fit kp \<longleftrightarrow> unat kp mod 4096 = 0 \<and> unat kp + 20480 \<le> unat MEMSIZE_PHYSICAL"

lemma unat_table:
  assumes "tables_fit kp" "k < 5"
  shows "unat (table kp k) = unat kp + 4096 * k"
proof -
  have "unat (of_nat k :: u64) = k" using assms(2) by (intro unat_of_nat_u64) simp
  then have "unat (4096 * of_nat k :: u64) = 4096 * k"
    using assms(2) by (simp add: unat_mult_u64)
  then show ?thesis
    using assms unfolding table_def tables_fit_def by (simp add: unat_add_u64)
qed

lemma table_aligned:
  assumes "tables_fit kp" "k < 5"
  shows "unat (table kp k) mod 4096 = 0"
  using assms unat_table [OF assms] by (simp add: tables_fit_def)

lemma table_inj:
  assumes "tables_fit kp" "j < 5" "k < 5"
  shows "table kp j = table kp k \<longleftrightarrow> j = k"
  using assms unat_table by (metis add_left_cancel mult_cancel1 zero_neq_numeral)

lemma zeroed_entry:
  assumes "tables_fit kp" "k < 5" "unat i < 512"
  shows "pt_entry (fst (memset m kp 0 20480)) (table kp k) i = 0"
proof -
  have "fst (memset m kp 0 20480) (table kp k + 8 * i + b) = 0" if b: "unat b < 8" for b
  proof -
    have "unat (table kp k + 8 * i) = unat kp + 4096 * k + 8 * unat i"
      using unat_entry_addr [OF table_aligned [OF assms(1,2)] assms(3)] unat_table [OF assms(1,2)] by simp
    moreover have "unat kp + 4096 * k + 8 * unat i + unat b < unat kp + 20480"
      using assms(2,3) b by linarith
    ultimately have u: "unat (table kp k + 8 * i + b) = unat kp + (4096 * k + 8 * unat i + unat b)"
      using assms(1) by (simp add: unat_add_u64 tables_fit_def)
    then have "kp \<le> table kp k + 8 * i + b" by (simp add: word_le_nat_alt)
    then have "unat (table kp k + 8 * i + b - kp) < 20480"
      using u assms(2,3) b by (simp add: unat_sub_u64)
    then show ?thesis by (simp add: memset_def memset_loop_eq in_range_def)
  qed
  then have "pt_entry (fst (memset m kp 0 20480)) (table kp k) i = read64 (\<lambda>_. 0) (table kp k + 8 * i)"
    unfolding pt_entry_def by (intro read64_cong)
  then show ?thesis by (simp add: read64_def)
qed

definition link_entry :: "u64 \<Rightarrow> nat \<Rightarrow> u64" where
  "link_entry kp k = table kp k OR 7"

lemma linked_entry:
  assumes "tables_fit kp" "k < 5" "unat i < 512"
  shows "pt_entry (link_kernel_pagetables kp m) (table kp k) i =
    (if k < 3 \<and> i = 0 then link_entry kp (Suc k) else if k = 2 \<and> i = 1 then link_entry kp 4 else 0)"
proof -
  have lk: "link_kernel_pagetables kp m =
      set_pt_entry (set_pt_entry (set_pt_entry (set_pt_entry (fst (memset m kp 0 20480))
        (table kp 0) 0 (link_entry kp 1)) (table kp 1) 0 (link_entry kp 2))
        (table kp 2) 0 (link_entry kp 3)) (table kp 2) 1 (link_entry kp 4)"
    by (simp add: link_kernel_pagetables_def Let_def link_entry_def table_def or.assoc)
  have idx: "unat (0 :: u64) < 512" "unat (1 :: u64) < 512" by simp_all
  have k: "k = 0 \<or> k = 1 \<or> k = 2 \<or> k = 3 \<or> k = 4" using assms(2) by linarith
  note al = table_aligned [OF assms(1)] and inj = table_inj [OF assms(1) _ assms(2)]
  have "pt_entry (link_kernel_pagetables kp m) (table kp k) i =
    (if k = 2 \<and> i = 1 then link_entry kp 4 else if k = 2 \<and> i = 0 then link_entry kp 3
     else if k = 1 \<and> i = 0 then link_entry kp 2 else if k = 0 \<and> i = 0 then link_entry kp 1 else 0)"
    unfolding lk
    by (subst pt_entry_set, simp_all only: al idx assms inj zeroed_entry)+
      (auto simp: inj)
  then show ?thesis
    using k by (elim disjE) (simp_all flip: numeral_2_eq_2 numeral_3_eq_3)
qed

lemma link_entry_parts:
  assumes "tables_fit kp" "k < 5"
  shows "PTE_ADDR (link_entry kp k) = table kp k" "present (link_entry kp k)"
    "entry_ok 7 (link_entry kp k)"
proof -
  show addr: "PTE_ADDR (link_entry kp k) = table kp k"
    unfolding link_entry_def by (rule leaf_entry(1) [OF table_aligned [OF assms]]) simp
  have bits: "bit (link_entry kp k) 0" "bit (link_entry kp k) 1" "bit (link_entry kp k) 2"
    by (simp_all add: link_entry_def bit_or_iff)
  then show "present (link_entry kp k)" by (simp add: present_iff_bit)
  moreover have "table kp k < MEMSIZE_PHYSICAL"
    using unat_table [OF assms] assms by (simp add: word_less_nat_alt tables_fit_def)
  ultimately show "entry_ok 7 (link_entry kp k)"
    using bits by (simp add: entry_ok_def addr and_2_iff_bit and_4_iff_bit)
qed

text \<open>
  The links of the three upper levels, and what they imply for any memory that has them: the five
  nodes of the tree and nothing else.
\<close>

definition kernel_links :: "memory \<Rightarrow> u64 \<Rightarrow> bool" where
  "kernel_links m kp \<longleftrightarrow> tables_fit kp \<and> (\<forall>k < 3. \<forall>i. unat i < 512 \<longrightarrow> pt_entry m (table kp k) i =
     (if i = 0 then link_entry kp (Suc k) else if k = 2 \<and> i = 1 then link_entry kp 4 else 0))"

lemma kernel_links_fit: "kernel_links m kp \<Longrightarrow> tables_fit kp"
  by (simp add: kernel_links_def)

lemma kernel_links_linked: "tables_fit kp \<Longrightarrow> kernel_links (link_kernel_pagetables kp m) kp"
  by (simp add: kernel_links_def linked_entry)

lemma links_node_step:
  assumes "kernel_links m kp" "k < 3" "unat i < 512"
  shows "node m (table kp k) (i # is) =
    (if i = 0 then node m (table kp (Suc k)) is else if k = 2 \<and> i = 1 then node m (table kp 4) is else None)"
  using assms link_entry_parts [OF kernel_links_fit [OF assms(1)]]
  by (auto simp: kernel_links_def Let_def present_iff_bit [of 0])

lemma links_nodes:
  assumes "kernel_links m kp" "index_path p" "length p \<le> 3"
  shows "node m (table kp 0) p =
    (if p = [] then Some (table kp 0) else if p = [0] then Some (table kp 1)
     else if p = [0, 0] then Some (table kp 2) else if p = [0, 0, 0] then Some (table kp 3)
     else if p = [0, 0, 1] then Some (table kp 4) else None)"
proof -
  consider "p = []" | i where "p = [i]" | i j where "p = [i, j]" | i j k where "p = [i, j, k]"
    using assms(3) by (auto simp: le_Suc_eq length_Suc_conv numeral_3_eq_3)
  then show ?thesis
    using assms(1,2) by cases (simp_all add: links_node_step numeral_2_eq_2 numeral_3_eq_3 del: node.simps(2))
qed

lemma table_0 [simp]: "table kp 0 = kp"
  by (simp add: table_def)

lemma links_node_numbered:
  assumes "kernel_links m kp" "index_path p" "length p \<le> 3" and "node m kp p = Some t"
  shows "\<exists>k < 5. t = table kp k \<and> p = [[], [0], [0, 0], [0, 0, 0], [0, 0, 1]] ! k"
proof -
  have "(p = [] \<and> t = table kp 0) \<or> (p = [0] \<and> t = table kp 1) \<or> (p = [0, 0] \<and> t = table kp 2)
      \<or> (p = [0, 0, 0] \<and> t = table kp 3) \<or> (p = [0, 0, 1] \<and> t = table kp 4)"
    using assms(4) links_nodes [OF assms(1-3)]
    by (simp del: node.simps(2) split: if_splits)
  then show ?thesis
    by (elim disjE) (rule exI [of _ 0] exI [of _ 1] exI [of _ 2] exI [of _ 3] exI [of _ 4], fastforce)+
qed

lemma tree_ok_links:
  assumes "kernel_links m kp"
  shows "tree_ok m kp"
proof -
  note fit = kernel_links_fit [OF assms]
  have "p = q" if "index_path p \<and> index_path q \<and> length p \<le> 3 \<and> length q \<le> 3
    \<and> node m kp p = Some t \<and> node m kp q = Some t" for p q t
    using that links_node_numbered [OF assms, of p t] links_node_numbered [OF assms, of q t]
      table_inj [OF fit] by metis
  then show ?thesis
    using table_aligned [OF fit, of 0] unfolding tree_ok_def by simp
qed

lemma low_path3:
  assumes "unat x < 0x200000"
  shows "path3 x = [0, 0, 0]"
proof -
  have "unat x div 4096 div 512 = 0" using assms by (simp flip: div_mult2_eq)
  then show ?thesis by (simp add: path3_def u64_eq_iff_unat unat_pageindexes)
qed

lemma high_path3:
  assumes "unat x < 2 ^ 48" "path3 x = [0, 0, 0]"
  shows "unat x < 0x200000"
proof -
  define n where "n = unat x div 4096 div 512"
  have n: "n < 134217728" using assms(1) by (simp add: n_def less_mult_imp_div_less flip: div_mult2_eq)
  then have "n div 512 div 512 div 512 = 0" by (simp flip: div_mult2_eq)
  then have "n = 0"
    using assms(2) n digits_512_eq [of n 0]
    by (simp add: n_def path3_def u64_eq_iff_unat unat_pageindexes)
  then show ?thesis by (simp add: n_def div_eq_0_iff flip: div_mult2_eq)
qed

lemma links_trail:
  assumes "kernel_links m kp"
  shows "trail m kp [0, 0, 0] = [link_entry kp 1, link_entry kp 2, link_entry kp 3]"
    "list_all (entry_ok 7) [link_entry kp 1, link_entry kp 2, link_entry kp 3]"
proof -
  have e: "pt_entry m (table kp k) 0 = link_entry kp (Suc k)" if "k < 3" for k
    using assms that by (simp add: kernel_links_def)
  note parts = link_entry_parts [OF kernel_links_fit [OF assms]]
  have "trail m (table kp 0) [0, 0, 0] = [link_entry kp 1, link_entry kp 2, link_entry kp 3]"
    using e [of 0] e [of 1] e [of 2] parts [of 1] parts [of 2] parts [of 3]
    by (simp add: Let_def numeral_2_eq_2 numeral_3_eq_3 del: table_0)
  then show "trail m kp [0, 0, 0] = [link_entry kp 1, link_entry kp 2, link_entry kp 3]" by simp
  show "list_all (entry_ok 7) [link_entry kp 1, link_entry kp 2, link_entry kp 3]"
    using parts [of 1] parts [of 2] parts [of 3] by simp
qed

lemma walk_ok_links:
  assumes "kernel_links m kp" "unat x < 0x200000"
  shows "walk_ok m 7 kp x"
proof -
  have "unat (table kp 3) \<noteq> 0" using unat_table [OF kernel_links_fit [OF assms(1)], of 3] by simp
  then have "node m kp [0, 0, 0] \<noteq> Some 0"
    using links_nodes [OF assms(1), of "[0, 0, 0]"] by (auto simp del: node.simps(2))
  then show ?thesis
    using links_trail(2) [OF assms(1)]
    unfolding walk_ok_def low_path3 [OF assms(2)] links_trail(1) [OF assms(1)] by simp
qed

definition unmapped :: vamapping where
  "unmapped = \<lparr>vam_pn = - 1, vam_pa = - 1, vam_perm = 0\<rparr>"

lemma lookup_unmapped:
  assumes "node m pt (path4 x) = None"
  shows "virtual_memory_lookup m pt x = unmapped"
proof -
  have "\<not> bit (perms_of 7 (trail m pt (path4 x))) 0"
    using assms by (auto simp: bit_perms_of node_trail list_all_iff present_iff_bit split: if_splits)
  then show ?thesis by (simp add: virtual_memory_lookup_trail unmapped_def)
qed

lemma links_unmapped:
  assumes "kernel_links m kp"
    and "path3 x = [0, 0, 0] \<Longrightarrow> pt_entry m (table kp 3) (pageindex x 3) = 0"
    and "path3 x = [0, 0, 1] \<Longrightarrow> pt_entry m (table kp 4) (pageindex x 3) = 0"
  shows "virtual_memory_lookup m kp x = unmapped"
proof (rule lookup_unmapped)
  have "path3 x \<noteq> []" "path3 x \<noteq> [a]" "path3 x \<noteq> [a, b]" for a b
    by (simp_all add: path3_def)
  then show "node m kp (path4 x) = None"
    using links_nodes [OF assms(1), of "path3 x"] assms(2,3) present_iff_bit [of 0]
    by (auto simp: path4_path3 node_append Let_def split: bind_splits if_splits)
qed

lemma linked_unmapped:
  assumes "tables_fit kp"
  shows "virtual_memory_lookup (link_kernel_pagetables kp m) kp x = unmapped"
  using assms by (intro links_unmapped kernel_links_linked) (simp_all add: linked_entry)

section \<open>The identity-mapped kernel address space\<close>

definition kernel_tables :: "memory \<Rightarrow> u64 \<Rightarrow> bool" where
  "kernel_tables m kp \<longleftrightarrow> kernel_links m kp \<and> (\<forall>i. unat i < 512 \<longrightarrow>
     pt_entry m (table kp 3) i = 4096 * i OR 7 \<and> pt_entry m (table kp 4) i = 0)"

lemma kernel_tables_cong:
  assumes "kernel_tables m kp"
    and "\<And>a. unat kp \<le> unat a \<Longrightarrow> unat a < unat kp + 20480 \<Longrightarrow> m' a = m a"
  shows "kernel_tables m' kp"
proof -
  have fit: "tables_fit kp" using assms(1) by (simp add: kernel_tables_def kernel_links_def)
  have "pt_entry m' (table kp k) i = pt_entry m (table kp k) i" if k: "k < 5" and i: "unat i < 512" for k i
    unfolding pt_entry_def
  proof (rule read64_cong)
    fix b :: u64 assume b: "unat b < 8"
    have "unat (table kp k + 8 * i) = unat kp + 4096 * k + 8 * unat i"
      using unat_entry_addr [OF table_aligned [OF fit k] i] unat_table [OF fit k] by simp
    then have "unat (table kp k + 8 * i + b) = unat kp + (4096 * k + 8 * unat i + unat b)"
      using fit k i b by (simp add: unat_add_u64 tables_fit_def)
    then show "m' (table kp k + 8 * i + b) = m (table kp k + 8 * i + b)"
      using k i b by (intro assms(2)) linarith+
  qed
  then show ?thesis
    using assms(1) unfolding kernel_tables_def kernel_links_def by simp
qed

lemma page_base:
  assumes "unat x < 0x200000"
  shows "4096 * pageindex x 3 = PTE_ADDR x"
proof -
  have d: "unat x div 4096 < 512" using assms by (simp add: less_mult_imp_div_less)
  have "unat (4096 * pageindex x 3) = 4096 * (unat x div 4096)"
    using d by (simp add: unat_mult_u64 unat_pageindexes)
  then show ?thesis
    by (simp add: u64_eq_iff_unat unat_PTE_ADDR minus_mod_eq_mult_div)
qed

lemma identity_leaf:
  assumes "kernel_tables m kp" "unat x < 0x200000"
  shows "trail m kp (path4 x) = [link_entry kp 1, link_entry kp 2, link_entry kp 3] @ [(0 + PTE_ADDR (x - 0)) OR of_int 7]"
proof -
  have links: "kernel_links m kp" using assms(1) by (simp add: kernel_tables_def)
  have "node m kp [0, 0, 0] = Some (table kp 3)"
    using links_nodes [OF links, of "[0, 0, 0]"] by (simp del: node.simps(2))
  moreover have "pt_entry m (table kp 3) (pageindex x 3) = PTE_ADDR x OR 7"
    using assms(1) page_base [OF assms(2)] by (simp add: kernel_tables_def)
  ultimately show ?thesis
    unfolding path4_path3 low_path3 [OF assms(2)] trail_append links_trail(1) [OF links]
    by (simp add: Let_def)
qed

lemma identity_lookup:
  assumes "kernel_tables m kp" "unat x < 2 ^ 48"
  shows "virtual_memory_lookup m kp x =
    (if x < MEMSIZE_PHYSICAL then \<lparr>vam_pn = PAGENUMBER x, vam_pa = x, vam_perm = 7\<rparr> else unmapped)"
proof (cases "x < MEMSIZE_PHYSICAL")
  case True
  then have x: "unat x < 0x200000" by (simp add: word_less_nat_alt)
  have ok: "list_all (entry_ok (of_int 7)) [link_entry kp 1, link_entry kp 2, link_entry kp 3]"
    using links_trail(2) [of m kp] assms(1) by (simp add: kernel_tables_def)
  have "virtual_memory_lookup m kp x = \<lparr>vam_pn = PAGENUMBER (0 + (x - 0)), vam_pa = 0 + (x - 0), vam_perm = 7 mod 8\<rparr>"
    by (rule lookup_translates [OF ok identity_leaf [OF assms(1) x]]) simp_all
  with True show ?thesis by simp
next
  case False
  then have "\<not> unat x < 0x200000" by (simp add: word_less_nat_alt)
  then have "path3 x \<noteq> [0, 0, 0]"
    using high_path3 [OF assms(2)] by blast
  with assms(1) False show ?thesis
    by (auto simp: kernel_tables_def intro!: links_unmapped)
qed

lemma identity_map:
  assumes "kernel_tables m kp" "unat a mod 4096 = 0" "a < MEMSIZE_PHYSICAL"
  shows "virtual_memory_map kp a a PAGESIZE 7 allocator (m, s) = Inr (0, m, s)"
proof -
  have links: "kernel_links m kp" using assms(1) by (simp add: kernel_tables_def)
  have a: "unat a < 0x200000" using assms(3) by (simp add: word_less_nat_alt)
  obtain p where "unat a = 4096 * p" using assms(2) by auto
  then have fits: "unat a + 4096 \<le> 0x200000" using a by simp
  have "virtual_memory_map kp a a PAGESIZE 7 allocator (m, s) =
      map_pages (unat PAGESIZE div 4096) kp (of_int 7) allocator (- 1) None a a (m, s)"
    by (rule map_asserts_ok) (use assms(2) fits kernel_links_fit [OF links] in \<open>simp_all add: tables_fit_def\<close>)
  moreover have "c_int (drop_bit 21 a) \<noteq> - 1"
    using c_int_index123 [of a] a by simp
  moreover have "lookup_l4pagetable kp a 7 allocator (m, s) = Inr (Some (table kp 3), m, s)"
    using lookup_l4pagetable_ok [OF walk_ok_links [OF links a], of allocator s]
      links_nodes [OF links, of "[0, 0, 0]"] by (simp add: low_path3 [OF a] del: node.simps(2))
  moreover have "set_pt_entry m (table kp 3) (pageindex a 3) (a OR 7) = m"
  proof -
    have "PTE_ADDR a = a" using assms(2) by (simp add: u64_eq_iff_unat unat_PTE_ADDR)
    then have "pt_entry m (table kp 3) (pageindex a 3) = a OR 7"
      using assms(1) page_base [OF a] by (simp add: kernel_tables_def)
    then show ?thesis
      using write64_read64 [of m "table kp 3 + 8 * pageindex a 3"]
      by (simp add: set_pt_entry_def pt_entry_def)
  qed
  ultimately show ?thesis
    by (simp add: numeral_eq_Suc [of "num.One"] Let_def)
qed

lemma set_pagetable_identity:
  assumes "kernel_tables m kp" "sym_default_int_handler syms < MEMSIZE_PHYSICAL"
    and "sym_virtual_memory_map syms < MEMSIZE_PHYSICAL"
  shows "set_pagetable syms m kp kp = Inr kp"
proof -
  have fit: "tables_fit kp" using assms(1) by (simp add: kernel_tables_def kernel_links_def)
  have self: "vam_pa (virtual_memory_lookup m kp x) = x" if "x < MEMSIZE_PHYSICAL" for x
    using that identity_lookup [OF assms(1), of x] by (simp add: word_less_nat_alt)
  have "kp < MEMSIZE_PHYSICAL" using fit by (simp add: tables_fit_def word_less_nat_alt)
  moreover have "PAGEOFFSET kp = 0"
    using fit by (simp add: tables_fit_def PAGEOFFSET_def and_FFF_eq_0_iff)
  ultimately show ?thesis
    using self assms(2,3) by (simp add: set_pagetable_def)
qed

text \<open>Trails of three indices determine the upper tables, trails of four the leaves.\<close>

lemma links_of_trails:
  assumes "kernel_links m kp" "\<And>p. index_path p \<Longrightarrow> length p \<le> 3 \<Longrightarrow> trail m' kp p = trail m kp p"
  shows "kernel_links m' kp"
proof -
  have "pt_entry m' (table kp k) i = pt_entry m (table kp k) i" if k: "k < 3" and i: "unat i < 512" for k i
  proof -
    define p where "p = replicate k (0 :: u64)"
    have p: "index_path p" "length p \<le> 3" "index_path (p @ [i])" "length (p @ [i]) \<le> 3"
      using k i by (auto simp: p_def index_path_def)
    have "node m kp p = Some (table kp k)"
      using k links_nodes [OF assms(1) p(1,2)]
      by (auto simp: p_def less_Suc_eq numeral_3_eq_3 numeral_2_eq_2 simp del: node.simps(2))
    moreover from this have "node m' kp p = Some (table kp k)"
      using node_cong [OF assms(2) [OF p(1,2)]] by simp
    ultimately show ?thesis
      using assms(2) [OF p(1,2)] assms(2) [OF p(3,4)] by (simp add: trail_append Let_def)
  qed
  with assms(1) show ?thesis by (simp add: kernel_links_def)
qed

lemma trail_snoc: "node m pt p = Some t \<Longrightarrow> trail m pt (p @ [i]) = trail m pt p @ [pt_entry m t i]"
  by (simp add: trail_append Let_def)

lemma leaf_of_trail:
  assumes "kernel_links m kp" "path3 x = p" "node m kp p = Some t" "trail m kp (path4 x) = trail m kp p @ [e]"
  shows "pt_entry m t (pageindex x 3) = e"
  using assms(2-4) by (simp add: path4_path3 trail_append Let_def)

lemma address_of_index:
  assumes "unat i < 512"
  defines "x \<equiv> 4096 * i" and "y \<equiv> 0x200000 + 4096 * i"
  shows "unat x < 0x200000" "PTE_ADDR x = x" "pageindex x 3 = i"
    "unat y < 2 ^ 48" "\<not> unat y < 0x200000" "path3 y = [0, 0, 1]" "pageindex y 3 = i"
proof -
  have x: "unat x = 4096 * unat i" using assms(1) by (simp add: x_def unat_mult_u64)
  moreover have "unat (0x200000 + x) = 0x200000 + unat x"
    using assms(1) x by (subst unat_add_u64) simp_all
  then have y: "unat y = 4096 * (512 + unat i)" using x by (simp add: x_def y_def)
  ultimately show "unat x < 0x200000" "PTE_ADDR x = x" "pageindex x 3 = i" "unat y < 2 ^ 48"
    "\<not> unat y < 0x200000" "path3 y = [0, 0, 1]" "pageindex y 3 = i"
    using assms(1) by (simp_all add: u64_eq_iff_unat unat_PTE_ADDR unat_pageindexes path3_def)
qed

lemma init_kernel_tables:
  assumes "tables_fit (sym_kernel_pagetables syms)"
  shows "\<exists>m'. virtual_memory_init syms m = Inr (sym_kernel_pagetables syms, m')
    \<and> kernel_tables m' (sym_kernel_pagetables syms)"
proof -
  define kp where "kp = sym_kernel_pagetables syms"
  define lk where "lk = link_kernel_pagetables kp m"
  have links: "kernel_links lk kp"
    unfolding lk_def using assms by (intro kernel_links_linked) (simp add: kp_def)
  have "\<forall>x. unat (0 :: u64) \<le> unat x \<and> unat x < unat (0 :: u64) + unat MEMSIZE_PHYSICAL \<longrightarrow> walk_ok lk (of_int 7) kp x"
    using walk_ok_links [OF links] by simp
  with map_then_trail [OF tree_ok_links [OF links], of 0 MEMSIZE_PHYSICAL 0 7 "None :: unit allocator" "()"]
  obtain m' where run: "virtual_memory_map kp 0 0 MEMSIZE_PHYSICAL 7 (None :: unit allocator) (lk, ()) = Inr (0, m', ())"
    and upper: "\<And>p. index_path p \<Longrightarrow> length p \<le> 3 \<Longrightarrow> trail m' kp p = trail lk kp p"
    and leaf: "\<And>x. unat x < 2 ^ 48 \<Longrightarrow> trail m' kp (path4 x) =
         (if unat x < 0x200000 then trail lk kp (path3 x) @ [mapped_entry 7 0 0 x] else trail lk kp (path4 x))"
    by auto
  have links': "kernel_links m' kp" using links_of_trails [OF links upper] .
  have nodes: "node m' kp [0, 0, 0] = Some (table kp 3)" "node m' kp [0, 0, 1] = Some (table kp 4)"
    "node lk kp [0, 0, 1] = Some (table kp 4)"
    using links_nodes [OF links', of "[0, 0, 0]"] links_nodes [OF links', of "[0, 0, 1]"]
      links_nodes [OF links, of "[0, 0, 1]"] by (simp_all del: node.simps(2))
  have "pt_entry m' (table kp 3) i = 4096 * i OR 7" if i: "unat i < 512" for i
    using leaf_of_trail [OF links' low_path3 nodes(1), of "4096 * i"] leaf [of "4096 * i"]
      upper [of "[0, 0, 0]"] low_path3 [of "4096 * i"] address_of_index [OF i]
    by (simp add: mapped_entry_def)
  moreover have "pt_entry m' (table kp 4) i = 0" if i: "unat i < 512" for i
  proof -
    have "trail lk kp (path4 (0x200000 + 4096 * i)) = trail lk kp [0, 0, 1] @ [0]"
      unfolding path4_path3 address_of_index(6,7) [OF i] trail_snoc [OF nodes(3)]
      using linked_entry [of kp 4 i m] assms i by (simp add: lk_def kp_def)
    then show ?thesis
      using leaf_of_trail [OF links' address_of_index(6) [OF i] nodes(2), of 0]
        leaf [OF address_of_index(4) [OF i]] upper [of "[0, 0, 1]"] address_of_index(5,7) [OF i] by simp
  qed
  ultimately have "kernel_tables m' kp" using links' by (simp add: kernel_tables_def)
  then show ?thesis
    using run by (simp add: virtual_memory_init_def Let_def lk_def flip: kp_def)
qed

section \<open>Properties\<close>

text \<open>
  C7 (mapping then looking up). In a well-formed table, when the upper levels of the range are
  present and allow the requested permissions and no last-level table of the range lies at physical
  address 0 (the code takes it for a missing one), \<open>virtual_memory_map\<close> succeeds; afterwards
  \<open>virtual_memory_lookup\<close> translates every address of the range to the corresponding physical
  address with the requested permissions, every other address is translated as before, and the
  table is still well formed. No page-table page is allocated.
\<close>

theorem virtual_memory_map_lookup:
  assumes "tree_ok m pt" and "unat va mod 4096 = 0" and "unat sz mod 4096 = 0"
    and "unat pa mod 4096 = 0" and "unat va + unat sz \<le> 2 ^ 48"
    and "unat pa + unat sz \<le> unat MEMSIZE_PHYSICAL"
    and "0 \<le> perm" and "perm < 4096" and "odd perm"
    and walk: "\<forall>x. unat va \<le> unat x \<and> unat x < unat va + unat sz \<longrightarrow> walk_ok m (of_int perm) pt x"
  shows "\<exists>m'. virtual_memory_map pt va pa sz perm allocator (m, s) = Inr (0, m', s)
    \<and> tree_ok m' pt
    \<and> (\<forall>x. unat x < 2 ^ 48 \<longrightarrow> virtual_memory_lookup m' pt x =
         (if unat va \<le> unat x \<and> unat x < unat va + unat sz
          then \<lparr>vam_pn = PAGENUMBER (pa + (x - va)), vam_pa = pa + (x - va), vam_perm = perm mod 8\<rparr>
          else virtual_memory_lookup m pt x))"
  by (rule map_then_lookup [OF assms])

theorem virtual_memory_map_lookup_witness:
  "\<exists>m'. virtual_memory_map 0x10000 0x3000 0x5000 0x2000 7 (None :: unit allocator)
       (link_kernel_pagetables 0x10000 (\<lambda>_. 0), ()) = Inr (0, m', ())
     \<and> virtual_memory_lookup m' 0x10000 0x4123 = \<lparr>vam_pn = PAGENUMBER 0x6123, vam_pa = 0x6123, vam_perm = 7\<rparr>
     \<and> virtual_memory_lookup m' 0x10000 0x5000 = unmapped"
proof -
  have fit: "tables_fit 0x10000" by (simp add: tables_fit_def)
  have "\<forall>x. unat (0x3000 :: u64) \<le> unat x \<and> unat x < unat (0x3000 :: u64) + unat (0x2000 :: u64)
      \<longrightarrow> walk_ok (link_kernel_pagetables 0x10000 (\<lambda>_. 0)) (of_int 7) 0x10000 x"
    using walk_ok_links [OF kernel_links_linked [OF fit]] by simp
  with virtual_memory_map_lookup [OF tree_ok_links [OF kernel_links_linked [OF fit]], of "0x3000" "0x2000" "0x5000" 7 "\<lambda>_. 0" "None :: unit allocator" "()"]
  obtain m' where run: "virtual_memory_map 0x10000 0x3000 0x5000 0x2000 7 (None :: unit allocator)
       (link_kernel_pagetables 0x10000 (\<lambda>_. 0), ()) = Inr (0, m', ())"
    and look: "\<And>x. unat x < 2 ^ 48 \<Longrightarrow> virtual_memory_lookup m' 0x10000 x =
       (if unat (0x3000 :: u64) \<le> unat x \<and> unat x < unat (0x3000 :: u64) + unat (0x2000 :: u64)
        then \<lparr>vam_pn = PAGENUMBER (0x5000 + (x - 0x3000)), vam_pa = 0x5000 + (x - 0x3000), vam_perm = 7 mod 8\<rparr>
        else virtual_memory_lookup (link_kernel_pagetables 0x10000 (\<lambda>_. 0)) 0x10000 x)"
    by auto
  show ?thesis
    using run look [of "0x4123"] look [of "0x5000"] linked_unmapped [OF fit] by auto
qed

text \<open>
  C8 (the initial kernel address space). When the five page-table pages are page aligned and lie
  in physical memory, \<open>virtual_memory_init\<close> builds a well-formed table that maps every physical
  address to itself with permissions P, W and U and maps nothing else, and \<open>set_pagetable\<close>
  accepts that table for a kernel whose code lies in physical memory.
\<close>

theorem virtual_memory_init_identity:
  assumes "unat (sym_kernel_pagetables syms) mod 4096 = 0"
    and "unat (sym_kernel_pagetables syms) + 20480 \<le> unat MEMSIZE_PHYSICAL"
    and "sym_default_int_handler syms < MEMSIZE_PHYSICAL" and "sym_virtual_memory_map syms < MEMSIZE_PHYSICAL"
  shows "\<exists>m'. virtual_memory_init syms m = Inr (sym_kernel_pagetables syms, m')
    \<and> tree_ok m' (sym_kernel_pagetables syms)
    \<and> (\<forall>x. unat x < 2 ^ 48 \<longrightarrow> virtual_memory_lookup m' (sym_kernel_pagetables syms) x =
          (if x < MEMSIZE_PHYSICAL then \<lparr>vam_pn = PAGENUMBER x, vam_pa = x, vam_perm = 7\<rparr> else unmapped))
    \<and> set_pagetable syms m' (sym_kernel_pagetables syms) (sym_kernel_pagetables syms)
        = Inr (sym_kernel_pagetables syms)"
proof -
  obtain m' where m': "virtual_memory_init syms m = Inr (sym_kernel_pagetables syms, m')"
    "kernel_tables m' (sym_kernel_pagetables syms)"
    using init_kernel_tables [of syms m] assms(1,2) by (auto simp: tables_fit_def)
  moreover have "tree_ok m' (sym_kernel_pagetables syms)"
    using m'(2) by (simp add: kernel_tables_def tree_ok_links)
  ultimately show ?thesis
    using identity_lookup [OF m'(2)] set_pagetable_identity [OF m'(2) assms(3,4)] by blast
qed

theorem virtual_memory_init_identity_witness:
  "\<exists>m'. virtual_memory_init \<lparr>sym_default_int_handler = 0x40000, sym_virtual_memory_map = 0x41000,
        sym_kernel_pagetables = 0x50000\<rparr> (\<lambda>_. 0) = Inr (0x50000, m')
     \<and> vam_pa (virtual_memory_lookup m' 0x50000 0x123456) = 0x123456
     \<and> virtual_memory_lookup m' 0x50000 0x200000 = unmapped"
proof -
  let ?syms = "\<lparr>sym_default_int_handler = 0x40000, sym_virtual_memory_map = 0x41000,
        sym_kernel_pagetables = 0x50000\<rparr>"
  obtain m' where "virtual_memory_init ?syms (\<lambda>_. 0) = Inr (0x50000, m')"
    and look: "\<forall>x. unat x < 2 ^ 48 \<longrightarrow> virtual_memory_lookup m' 0x50000 x =
          (if x < MEMSIZE_PHYSICAL then \<lparr>vam_pn = PAGENUMBER x, vam_pa = x, vam_perm = 7\<rparr> else unmapped)"
    using virtual_memory_init_identity [of ?syms "\<lambda>_. 0"] by auto
  then show ?thesis
    using look [rule_format, of "0x123456"] look [rule_format, of "0x200000"] by auto
qed

text \<open>
  C9 (a range that starts in the last table fails). The sentinel \<open>last_index123 = -1\<close> is also the
  truncated index of the addresses whose bits 21 to 52 are all ones. For a range that starts at such
  an address \<open>virtual_memory_map\<close> does not look for a table: a mapping with \<open>PTE_P\<close> that passes the
  assertions returns -1 and leaves memory unchanged, whatever the table holds and whatever the
  allocator would provide. (A range that starts below these addresses and reaches into them is
  mapped: its index changes to -1 on the way. The witness has the table in place, fails for a range
  that starts in it, and maps the same page as the second page of a longer range.)
\<close>

theorem map_top_region_fails:
  assumes "c_int (drop_bit 21 va) = - 1" and "sz \<noteq> 0" and "odd perm"
    and "virtual_memory_map pt va pa sz perm allocator (m, s) = Inr r"
  shows "r = (- 1, m, s)"
proof -
  have one: "(of_int perm :: u64) AND 1 \<noteq> 0"
    using assms(3) present_iff_bit [of "of_int perm"] by (simp add: present_def bit_of_int_perm_0)
  have "unat sz mod 4096 = 0"
    using assms(4) by (auto simp: virtual_memory_map_def Let_def bindR_eq_Inr word_mod_page)
  then obtain k where "unat sz = 4096 * k" by auto
  moreover have "unat sz \<noteq> 0" using assms(2) by (simp add: unat_eq_0)
  ultimately obtain n where "unat (sz div 4096) = Suc n" by (cases k) (auto simp: unat_div)
  with assms(1,4) one show ?thesis
    by (auto simp: virtual_memory_map_def Let_def bindR_eq_Inr)
qed

text \<open>Tables for the two last regions of the address space, at 0x4000 and 0x5000.\<close>

definition top_tables :: memory where
  "top_tables =
     set_pt_entry (set_pt_entry (set_pt_entry (set_pt_entry (\<lambda>_. 0) 0x1000 511 0x2007) 0x2000 511 0x3007)
       0x3000 511 0x4007) 0x3000 510 0x5007"

definition top_links :: "memory \<Rightarrow> bool" where
  "top_links m \<longleftrightarrow> pt_entry m 0x1000 511 = 0x2007 \<and> pt_entry m 0x2000 511 = 0x3007 \<and>
     pt_entry m 0x3000 511 = 0x4007 \<and> pt_entry m 0x3000 510 = 0x5007"

lemma top_links: "top_links top_tables" "top_links (set_pt_entry top_tables 0x5000 511 pe)"
  by (simp_all add: top_links_def top_tables_def pt_entry_set)

lemma top_indexes:
  "pageindex 0xFFFFFFFFFFE00000 i = (if i < 3 then 511 else 0)" if "i < 4" for i
proof -
  have "\<forall>i\<in>set [0, 1, 2, 3]. pageindex 0xFFFFFFFFFFE00000 i = (if i < 3 then 511 else 0)" by code_simp
  moreover have "i \<in> set [0, 1, 2, 3]" using that by auto
  ultimately show ?thesis by blast
qed

lemma below_top_indexes:
  "pageindex 0xFFFFFFFFFFDFF000 i = (if i < 2 then 511 else if i = 2 then 510 else 511)" if "i < 4" for i
proof -
  have "\<forall>i\<in>set [0, 1, 2, 3]. pageindex 0xFFFFFFFFFFDFF000 i = (if i < 2 then 511 else if i = 2 then 510 else 511)"
    by code_simp
  moreover have "i \<in> set [0, 1, 2, 3]" using that by auto
  ultimately show ?thesis by blast
qed

lemma top_constants:
  "PTE_ADDR 0x2007 = 0x2000" "PTE_ADDR 0x3007 = 0x3000" "PTE_ADDR 0x4007 = 0x4000" "PTE_ADDR 0x5007 = 0x5000"
  "c_int (drop_bit 21 (0xFFFFFFFFFFE00000 :: u64)) = - 1" "c_int (drop_bit 21 (0xFFFFFFFFFFDFF000 :: u64)) = - 2"
  by code_simp+

lemma top_lookups:
  assumes "top_links m"
  shows "lookup_l4pagetable 0x1000 0xFFFFFFFFFFE00000 7 allocator (m, s) = Inr (Some 0x4000, m, s)"
    "lookup_l4pagetable 0x1000 0xFFFFFFFFFFDFF000 7 allocator (m, s) = Inr (Some 0x5000, m, s)"
  using assms by (simp_all add: lookup_l4pagetable_def Let_def top_indexes below_top_indexes top_links_def top_constants)

lemma map_page_found:
  assumes "c_int (drop_bit 21 va) = cur" "cur \<noteq> last123" "lookup_l4pagetable pt va perm allocator (m, s) = Inr (Some t, m, s)"
    and "perm AND PTE_P \<noteq> 0"
  shows "map_pages (Suc n) pt perm allocator last123 l4 va pa (m, s) =
    map_pages n pt perm allocator cur (Some t) (va + PAGESIZE) (pa + PAGESIZE)
      (set_pt_entry m t (pageindex va 3) (pa OR perm), s)"
  using assms by (simp add: Let_def)

lemma map_across_top:
  "\<exists>m'. virtual_memory_map 0x1000 0xFFFFFFFFFFDFF000 0x6000 0x2000 7 None (top_tables, ()) = Inr (0, m', ()) \<and>
      pt_entry m' 0x4000 0 = 0x7007"
proof -
  have "virtual_memory_map 0x1000 0xFFFFFFFFFFDFF000 0x6000 0x2000 7 None (top_tables, ()) =
      map_pages (Suc (Suc 0)) 0x1000 7 None (- 1) None 0xFFFFFFFFFFDFF000 0x6000 (top_tables, ())"
    by (simp add: virtual_memory_map_def Let_def flip: numeral_2_eq_2)
  also have "\<dots> = map_pages (Suc 0) 0x1000 7 None (- 2) (Some 0x5000) 0xFFFFFFFFFFE00000 0x7000
      (set_pt_entry top_tables 0x5000 511 0x6007, ())"
    by (subst map_page_found [OF top_constants(6) _ top_lookups(2) [OF top_links(1)]]) (simp_all add: below_top_indexes)
  also have "\<dots> = Inr (0, set_pt_entry (set_pt_entry top_tables 0x5000 511 0x6007) 0x4000 0 0x7007, ())"
    by (subst map_page_found [OF top_constants(5) _ top_lookups(1) [OF top_links(2)]]) (simp_all add: top_indexes)
  finally show ?thesis by (simp add: pt_entry_set)
qed

theorem map_top_region_fails_witness:
  "lookup_l4pagetable 0x1000 0xFFFFFFFFFFE00000 7 None (top_tables, ()) = Inr (Some 0x4000, top_tables, ()) \<and>
   virtual_memory_map 0x1000 0xFFFFFFFFFFE00000 0x7000 0x1000 7 None (top_tables, ()) = Inr (- 1, top_tables, ()) \<and>
   (\<exists>m'. virtual_memory_map 0x1000 0xFFFFFFFFFFDFF000 0x6000 0x2000 7 None (top_tables, ()) = Inr (0, m', ()) \<and>
      pt_entry m' 0x4000 0 = 0x7007)"
proof -
  obtain r where r: "virtual_memory_map 0x1000 0xFFFFFFFFFFE00000 0x7000 0x1000 7 None (top_tables, ()) = Inr r"
    using top_constants by (simp add: virtual_memory_map_def Let_def)
  show ?thesis
    using top_lookups(1) [OF top_links(1), of None "()"] map_across_top r
      map_top_region_fails [OF top_constants(5), of "0x1000" 7 "0x1000" "0x7000" None top_tables "()" r]
    by simp
qed

end
