(* ===== verification/Machine.thy ===== *)
theory Machine
  imports Printf AddressSpace
begin

text \<open>
  The machine that the kernel runs on and the device code of \<open>k-hardware.c\<close>: programmed I/O,
  the interrupt controllers and the timer, descriptor tables, PCI and power, the cursor, the
  parallel-port log, \<open>error_printf\<close> and \<open>panic\<close>.

  Devices are not part of the repository. They are the field \<open>m_dev\<close> of the state: what a read of a
  port returns, as a function of everything that has been read and written so far. \<open>m_io\<close> is that
  history, newest event first. The text console is an array of its own.

  An operation that may not return gives \<open>Inl (stop, state)\<close>, with the reason and the state in
  which the machine stopped, and otherwise \<open>Inr (result, state)\<close>; \<open>bindM\<close> threads them. Every
  failed \<open>assert\<close> of the kernel goes through \<open>assert_fail\<close> and \<open>panic\<close>, as in the code.
\<close>

section \<open>State\<close>

datatype ioev = InB u16 u8 | InL u16 u32 | OutB u16 u8 | OutW u16 u16 | OutL u16 u32

record x86_64_gatedescriptor =
  gd_low :: u64
  gd_high :: u64

record x86_64_pseudodescriptor =
  pseudod_limit :: u16
  pseudod_base :: u64

record x86_64_taskstate =
  ts_rsp :: "u64 list"
  ts_ist :: "u64 list"
  ts_iomap_base :: u16

text \<open>The tables in memory that only the processor reads, and the registers that point to them.\<close>

record processor =
  segments :: "u64 list"
  kernel_task_descriptor :: x86_64_taskstate
  interrupt_descriptors :: "x86_64_gatedescriptor list"
  gdtr :: x86_64_pseudodescriptor
  idtr :: x86_64_pseudodescriptor
  task_register :: u16
  cr0 :: u32

record machine =
  m_dev :: "ioev list \<Rightarrow> u16 \<Rightarrow> u32"
  m_io :: "ioev list"
  m_mem :: memory
  m_cr3 :: u64
  m_console :: "nat \<Rightarrow> u16"
  m_cursorpos :: int
  interrupts_enabled :: u16
  parallel_initialized :: bool
  kb_modifiers :: u8
  kb_last_escape :: u8
  m_cpu :: processor

datatype stop =
    Failed
  | PoweredOff
  | Rebooting
  | SoftReboot u32 u32
  | VarargMismatch
  | OutOfBounds

type_synonym ('a, 's) outcome = "(stop \<times> 's) + ('a \<times> 's)"

definition bindM :: "('a, 's) outcome \<Rightarrow> ('a \<Rightarrow> 's \<Rightarrow> ('b, 's) outcome) \<Rightarrow> ('b, 's) outcome" where
  "bindM r f = (case r of Inl e \<Rightarrow> Inl e | Inr (x, s) \<Rightarrow> f x s)"

fun forM :: "'x list \<Rightarrow> ('x \<Rightarrow> 's \<Rightarrow> (unit, 's) outcome) \<Rightarrow> 's \<Rightarrow> (unit, 's) outcome" where
  "forM [] f s = Inr ((), s)"
| "forM (x # xs) f s = bindM (f x s) (\<lambda>_ s. forM xs f s)"

lemma bindM_Inl [simp, res_simps]: "bindM (Inl e) f = Inl e"
  by (simp add: bindM_def)

lemma bindM_Inr [simp, res_simps]: "bindM (Inr (x, s)) f = f x s"
  by (simp add: bindM_def)

lemma bindM_eq_Inr [res_simps]: "bindM r f = Inr y \<longleftrightarrow> (\<exists>x s. r = Inr (x, s) \<and> f x s = Inr y)"
  by (cases r) (auto simp: bindM_def)

lemma bindM_eq_Inl [res_simps]:
  "bindM r f = Inl e \<longleftrightarrow> r = Inl e \<or> (\<exists>x s. r = Inr (x, s) \<and> f x s = Inl e)"
  by (cases r) (auto simp: bindM_def)

lemma forM_unchanged:
  assumes "\<And>x. x \<in> set xs \<Longrightarrow> f x s = Inr ((), s)"
  shows "forM xs f s = Inr ((), s)"
  using assms by (induction xs) simp_all

lemma forM_invariant:
  assumes "\<And>x t. x \<in> set xs \<Longrightarrow> P t \<Longrightarrow> \<exists>t'. f x t = Inr ((), t') \<and> P t'" and "P s"
  shows "\<exists>s'. forM xs f s = Inr ((), s') \<and> P s'"
  using assms
proof (induction xs arbitrary: s)
  case (Cons x xs)
  then obtain t where "f x s = Inr ((), t)" "P t" by (metis list.set_intros(1))
  with Cons.IH [of t] Cons.prems(1) show ?case by simp
qed simp

section \<open>Programmed I/O\<close>

definition inb :: "u16 \<Rightarrow> 'a machine_scheme \<Rightarrow> u8 \<times> 'a machine_scheme" where
  "inb port s = (let v = ucast (m_dev s (m_io s) port) in (v, s\<lparr>m_io := InB port v # m_io s\<rparr>))"

definition inl :: "u16 \<Rightarrow> 'a machine_scheme \<Rightarrow> u32 \<times> 'a machine_scheme" where
  "inl port s = (let v = m_dev s (m_io s) port in (v, s\<lparr>m_io := InL port v # m_io s\<rparr>))"

definition outb :: "u16 \<Rightarrow> u8 \<Rightarrow> 'a machine_scheme \<Rightarrow> 'a machine_scheme" where
  "outb port v s = s\<lparr>m_io := OutB port v # m_io s\<rparr>"

definition outw :: "u16 \<Rightarrow> u16 \<Rightarrow> 'a machine_scheme \<Rightarrow> 'a machine_scheme" where
  "outw port v s = s\<lparr>m_io := OutW port v # m_io s\<rparr>"

definition outl :: "u16 \<Rightarrow> u32 \<Rightarrow> 'a machine_scheme \<Rightarrow> 'a machine_scheme" where
  "outl port v s = s\<lparr>m_io := OutL port v # m_io s\<rparr>"

section \<open>Interrupt controllers and timer\<close>

abbreviation INT_HARDWARE :: nat where "INT_HARDWARE \<equiv> 32"
abbreviation INT_TIMER :: nat where "INT_TIMER \<equiv> 32"
abbreviation IO_PIC1 :: u16 where "IO_PIC1 \<equiv> 0x20"
abbreviation IO_PIC2 :: u16 where "IO_PIC2 \<equiv> 0xA0"
abbreviation IRQ_SLAVE :: nat where "IRQ_SLAVE \<equiv> 2"
abbreviation IO_TIMER1 :: u16 where "IO_TIMER1 \<equiv> 0x040"
abbreviation TIMER_MODE :: u16 where "TIMER_MODE \<equiv> IO_TIMER1 + 3"
abbreviation TIMER_FREQ :: int where "TIMER_FREQ \<equiv> 1193182"

definition TIMER_DIV :: "int \<Rightarrow> int" where
  "TIMER_DIV x = (TIMER_FREQ + x div 2) div x"

definition interrupt_mask :: "'a machine_scheme \<Rightarrow> 'a machine_scheme" where
  "interrupt_mask s =
     (let masked = NOT (interrupts_enabled s)
      in outb (IO_PIC2 + 1) (ucast (drop_bit 8 masked AND 0xFF))
           (outb (IO_PIC1 + 1) (ucast (masked AND 0xFF)) s))"

definition interrupt_init :: "'a machine_scheme \<Rightarrow> 'a machine_scheme" where
  "interrupt_init s =
     (let s = interrupt_mask (s\<lparr>interrupts_enabled := 0\<rparr>);
          s = outb IO_PIC1 0x11 s;
          s = outb (IO_PIC1 + 1) (of_nat INT_HARDWARE) s;
          s = outb (IO_PIC1 + 1) (push_bit IRQ_SLAVE 1) s;
          s = outb (IO_PIC1 + 1) 0x3 s;
          s = outb IO_PIC2 0x11 s;
          s = outb (IO_PIC2 + 1) (of_nat (INT_HARDWARE + 8)) s;
          s = outb (IO_PIC2 + 1) (of_nat IRQ_SLAVE) s;
          s = outb (IO_PIC2 + 1) 0x01 s;
          s = outb IO_PIC1 0x68 s;
          s = outb IO_PIC1 0x0a s;
          s = outb IO_PIC2 0x68 s;
          s = outb IO_PIC2 0x0a s
      in interrupt_mask s)"

definition timer_init :: "int \<Rightarrow> 'a machine_scheme \<Rightarrow> 'a machine_scheme" where
  "timer_init rate s =
     (let bit = push_bit (INT_TIMER - INT_HARDWARE) 1 :: u16 in
      if rate > 0
      then let s = outb TIMER_MODE (0x00 OR 0x04 OR 0x30) s;
               s = outb IO_TIMER1 (of_int (TIMER_DIV rate mod 256)) s;
               s = outb IO_TIMER1 (of_int (TIMER_DIV rate div 256)) s
           in interrupt_mask (s\<lparr>interrupts_enabled := interrupts_enabled s OR bit\<rparr>)
      else interrupt_mask (s\<lparr>interrupts_enabled := interrupts_enabled s AND NOT bit\<rparr>))"

section \<open>Segments and interrupt gates\<close>

text \<open>Addresses of the hardware-facing objects of the kernel image, given by the linker.\<close>

record hwsyms = ksyms +
  sym_gpf_int_handler :: u64
  sym_pagefault_int_handler :: u64
  sym_timer_int_handler :: u64
  sym_sys_int_handlers :: "nat \<Rightarrow> u64"
  sym_kernel_task_descriptor :: u64
  sym_segments :: u64
  sym_interrupt_descriptors :: u64
  sym_literal :: "string \<Rightarrow> u64"
  sym_start_data :: u64
  sym_end :: u64
  ramimages :: "(u64 \<times> u64) list"

abbreviation X86SEG_S :: u64 where "X86SEG_S \<equiv> push_bit 44 1"
abbreviation X86SEG_P :: u64 where "X86SEG_P \<equiv> push_bit 47 1"
abbreviation X86SEG_L :: u64 where "X86SEG_L \<equiv> push_bit 53 1"
abbreviation X86SEG_W :: u64 where "X86SEG_W \<equiv> push_bit 40 2"
abbreviation X86SEG_X :: u64 where "X86SEG_X \<equiv> push_bit 40 8"
abbreviation X86SEG_TSS :: u64 where "X86SEG_TSS \<equiv> push_bit 40 9"
abbreviation X86GATE_INTERRUPT :: u64 where "X86GATE_INTERRUPT \<equiv> push_bit 40 0xE"

abbreviation SEGSEL_KERN_CODE :: nat where "SEGSEL_KERN_CODE \<equiv> 0x8"
abbreviation SEGSEL_APP_CODE :: nat where "SEGSEL_APP_CODE \<equiv> 0x10"
abbreviation SEGSEL_KERN_DATA :: nat where "SEGSEL_KERN_DATA \<equiv> 0x18"
abbreviation SEGSEL_APP_DATA :: nat where "SEGSEL_APP_DATA \<equiv> 0x20"
abbreviation SEGSEL_TASKSTATE :: nat where "SEGSEL_TASKSTATE \<equiv> 0x28"

abbreviation INT_GPF :: nat where "INT_GPF \<equiv> 0xd"
abbreviation INT_PAGEFAULT :: nat where "INT_PAGEFAULT \<equiv> 0xe"
abbreviation INT_SYS :: nat where "INT_SYS \<equiv> 48"
abbreviation KERNEL_STACK_TOP :: u64 where "KERNEL_STACK_TOP \<equiv> 0x80000"

definition set_app_segment :: "u64 \<Rightarrow> nat \<Rightarrow> u64" where
  "set_app_segment type dpl = type OR X86SEG_S OR push_bit 45 (of_nat dpl) OR X86SEG_P"

definition set_sys_segment :: "u64 \<Rightarrow> nat \<Rightarrow> u64 \<Rightarrow> u64 \<Rightarrow> u64 \<times> u64" where
  "set_sys_segment type dpl addr sz =
     (push_bit 16 (addr AND 0x0000000000FFFFFF) OR push_bit 32 (addr AND 0x00000000FF000000)
        OR ((sz - 1) AND 0x0FFFF) OR push_bit 48 ((sz - 1) AND 0xF0000)
        OR type OR push_bit 45 (of_nat dpl) OR X86SEG_P,
      drop_bit 32 addr)"

definition set_gate :: "u64 \<Rightarrow> nat \<Rightarrow> u64 \<Rightarrow> x86_64_gatedescriptor" where
  "set_gate type dpl function =
     \<lparr>gd_low = (function AND 0x000000000000FFFF) OR push_bit 16 (of_nat SEGSEL_KERN_CODE) OR type
         OR push_bit 45 (of_nat dpl) OR X86SEG_P OR push_bit 32 (function AND 0x00000000FFFF0000),
      gd_high = drop_bit 32 function\<rparr>"

definition no_gate :: x86_64_gatedescriptor where
  "no_gate = \<lparr>gd_low = 0, gd_high = 0\<rparr>"

fun set_gates :: "nat list \<Rightarrow> (nat \<Rightarrow> x86_64_gatedescriptor) \<Rightarrow> x86_64_gatedescriptor list
    \<Rightarrow> x86_64_gatedescriptor list" where
  "set_gates [] g idt = idt"
| "set_gates (i # is) g idt = set_gates is g (idt[i := g i])"

definition segments_init :: "'b hwsyms_scheme \<Rightarrow> processor \<Rightarrow> processor" where
  "segments_init syms cpu =
     (let (tss0, tss1) = set_sys_segment X86SEG_TSS 0 (sym_kernel_task_descriptor syms) 96;
          segs = (segments cpu)[0 := 0,
            SEGSEL_KERN_CODE div 8 := set_app_segment (X86SEG_X OR X86SEG_L) 0,
            SEGSEL_APP_CODE div 8 := set_app_segment (X86SEG_X OR X86SEG_L) 3,
            SEGSEL_KERN_DATA div 8 := set_app_segment X86SEG_W 0,
            SEGSEL_APP_DATA div 8 := set_app_segment X86SEG_W 3,
            SEGSEL_TASKSTATE div 8 := tss0, SEGSEL_TASKSTATE div 8 + 1 := tss1];
          idt = replicate 256 no_gate;
          idt = set_gates [16..<256] (\<lambda>_. set_gate X86GATE_INTERRUPT 0 (sym_default_int_handler syms)) idt;
          idt = idt[INT_TIMER := set_gate X86GATE_INTERRUPT 0 (sym_timer_int_handler syms)];
          idt = idt[INT_GPF := set_gate X86GATE_INTERRUPT 0 (sym_gpf_int_handler syms)];
          idt = idt[INT_PAGEFAULT := set_gate X86GATE_INTERRUPT 0 (sym_pagefault_int_handler syms)];
          idt = set_gates [INT_SYS..<INT_SYS + 16]
            (\<lambda>i. set_gate X86GATE_INTERRUPT 3 (sym_sys_int_handlers syms (i - INT_SYS))) idt
      in \<lparr>segments = segs,
          kernel_task_descriptor =
            \<lparr>ts_rsp = [KERNEL_STACK_TOP, 0, 0], ts_ist = replicate 7 0, ts_iomap_base = 0\<rparr>,
          interrupt_descriptors = idt,
          gdtr = \<lparr>pseudod_limit = 7 * 8 - 1, pseudod_base = sym_segments syms\<rparr>,
          idtr = \<lparr>pseudod_limit = 256 * 16 - 1, pseudod_base = sym_interrupt_descriptors syms\<rparr>,
          task_register = of_nat SEGSEL_TASKSTATE,
          cr0 = cr0 cpu OR 1 OR 0x80000000 OR 0x00010000 OR 0x00040000 OR 2 OR 0x20\<rparr>)"

section \<open>PCI and power\<close>

definition pci_make_configaddr :: "nat \<Rightarrow> nat \<Rightarrow> nat \<Rightarrow> int" where
  "pci_make_configaddr bus slot func =
     push_bit 16 (int bus) OR push_bit 11 (int slot) OR push_bit 8 (int func)"

definition pci_config_readl :: "int \<Rightarrow> int \<Rightarrow> 'a machine_scheme \<Rightarrow> u32 \<times> 'a machine_scheme" where
  "pci_config_readl configaddr offset s =
     inl 0xCFC (outl 0xCF8 (0x80000000 OR of_int configaddr OR of_int offset) s)"

fun pci_scan_funcs :: "u32 \<Rightarrow> nat \<Rightarrow> nat \<Rightarrow> nat list \<Rightarrow> 'a machine_scheme \<Rightarrow> int option \<times> 'a machine_scheme" where
  "pci_scan_funcs wanted bus slot [] s = (None, s)"
| "pci_scan_funcs wanted bus slot (func # funcs) s =
     (let configaddr = pci_make_configaddr bus slot func;
          (vendor_device, s') = pci_config_readl configaddr 0 s
      in if vendor_device = wanted then (Some configaddr, s')
         else if vendor_device = - 1 \<and> func = 0 then (None, s')
         else pci_scan_funcs wanted bus slot funcs s')"

fun pci_scan_slots :: "u32 \<Rightarrow> nat \<Rightarrow> nat list \<Rightarrow> 'a machine_scheme \<Rightarrow> int option \<times> 'a machine_scheme" where
  "pci_scan_slots wanted bus [] s = (None, s)"
| "pci_scan_slots wanted bus (slot # slots) s =
     (case pci_scan_funcs wanted bus slot [0..<8] s of
        (Some c, s') \<Rightarrow> (Some c, s')
      | (None, s') \<Rightarrow> pci_scan_slots wanted bus slots s')"

fun pci_scan_buses :: "u32 \<Rightarrow> nat list \<Rightarrow> 'a machine_scheme \<Rightarrow> int option \<times> 'a machine_scheme" where
  "pci_scan_buses wanted [] s = (None, s)"
| "pci_scan_buses wanted (bus # buses) s =
     (case pci_scan_slots wanted bus [0..<32] s of
        (Some c, s') \<Rightarrow> (Some c, s')
      | (None, s') \<Rightarrow> pci_scan_buses wanted buses s')"

definition pci_find_device :: "u32 \<Rightarrow> u32 \<Rightarrow> 'a machine_scheme \<Rightarrow> int \<times> 'a machine_scheme" where
  "pci_find_device vendor device s =
     (case pci_scan_buses (vendor OR push_bit 16 device) [0..<256] s of
        (Some c, s') \<Rightarrow> (c, s') | (None, s') \<Rightarrow> (- 1, s'))"

text \<open>
  \<open>console_printf\<close> on the machine's console. A format whose conversions do not fit its arguments has
  no defined result in C.
\<close>

definition con_vprintf :: "int \<Rightarrow> int \<Rightarrow> string \<Rightarrow> varg list \<Rightarrow> 'a machine_scheme \<Rightarrow> (int, 'a machine_scheme) outcome" where
  "con_vprintf cpos color fmt args s =
     (case console_vprintf (m_console s) cpos color fmt args of
        None \<Rightarrow> Inl (VarargMismatch, s)
      | Some (cpos', con) \<Rightarrow> Inr (cpos', s\<lparr>m_console := con\<rparr>))"

text \<open>
  \<open>poweroff\<close> and \<open>reboot\<close> do not return. Their outcome holds the state in which they spin, had
  the write to the device not stopped the machine before.
\<close>

definition poweroff :: "'a machine_scheme \<Rightarrow> ('b, 'a machine_scheme) outcome" where
  "poweroff s =
     (let (configaddr, s) = pci_find_device 0x8086 0x7113 s;
          s = (if configaddr \<ge> 0
               then let (r, s) = pci_config_readl configaddr 0x40 s
                    in outw (ucast (r AND 0xFFC0) + 4) 0x2000 s
               else s)
      in bindM (con_vprintf (CPOS 24 0) 0xC000 ''Cannot power off!\<newline>'' [] s) (\<lambda>_ s. Inl (PoweredOff, s)))"

definition reboot :: "'a machine_scheme \<Rightarrow> ('b, 'a machine_scheme) outcome" where
  "reboot s = Inl (Rebooting, outb 0x92 3 s)"

section \<open>Registers, cursor\<close>

record x86_64_registers =
  reg_rax :: u64
  reg_rcx :: u64
  reg_rdx :: u64
  reg_rbx :: u64
  reg_rbp :: u64
  reg_rsi :: u64
  reg_rdi :: u64
  reg_r8 :: u64
  reg_r9 :: u64
  reg_r10 :: u64
  reg_r11 :: u64
  reg_r12 :: u64
  reg_r13 :: u64
  reg_r14 :: u64
  reg_r15 :: u64
  reg_fs :: u64
  reg_gs :: u64
  reg_intno :: u64
  reg_err :: u64
  reg_rip :: u64
  reg_cs :: u16
  reg_rflags :: u64
  reg_rsp :: u64
  reg_ss :: u16

definition zero_registers :: x86_64_registers where
  "zero_registers = \<lparr>reg_rax = 0, reg_rcx = 0, reg_rdx = 0, reg_rbx = 0, reg_rbp = 0, reg_rsi = 0,
     reg_rdi = 0, reg_r8 = 0, reg_r9 = 0, reg_r10 = 0, reg_r11 = 0, reg_r12 = 0, reg_r13 = 0,
     reg_r14 = 0, reg_r15 = 0, reg_fs = 0, reg_gs = 0, reg_intno = 0, reg_err = 0, reg_rip = 0,
     reg_cs = 0, reg_rflags = 0, reg_rsp = 0, reg_ss = 0\<rparr>"

abbreviation EFLAGS_IF :: u64 where "EFLAGS_IF \<equiv> 0x00000200"
abbreviation EFLAGS_IOPL_3 :: u64 where "EFLAGS_IOPL_3 \<equiv> 0x00003000"
abbreviation PROCINIT_ALLOW_PROGRAMMED_IO :: u32 where "PROCINIT_ALLOW_PROGRAMMED_IO \<equiv> 0x01"
abbreviation PROCINIT_DISABLE_INTERRUPTS :: u32 where "PROCINIT_DISABLE_INTERRUPTS \<equiv> 0x02"

text \<open>\<open>process_init\<close> computes the register file of the process that it is given.\<close>

definition process_init :: "u32 \<Rightarrow> x86_64_registers" where
  "process_init flags =
     (let regs = zero_registers\<lparr>
            reg_cs := of_nat SEGSEL_APP_CODE OR 3,
            reg_fs := of_nat SEGSEL_APP_DATA OR 3,
            reg_gs := of_nat SEGSEL_APP_DATA OR 3,
            reg_ss := of_nat SEGSEL_APP_DATA OR 3,
            reg_rflags := EFLAGS_IF\<rparr>;
          regs = (if flags AND PROCINIT_ALLOW_PROGRAMMED_IO \<noteq> 0
                  then regs\<lparr>reg_rflags := reg_rflags regs OR EFLAGS_IOPL_3\<rparr> else regs)
      in if flags AND PROCINIT_DISABLE_INTERRUPTS \<noteq> 0
         then regs\<lparr>reg_rflags := reg_rflags regs AND NOT EFLAGS_IF\<rparr> else regs)"

definition console_show_cursor :: "int \<Rightarrow> 'a machine_scheme \<Rightarrow> 'a machine_scheme" where
  "console_show_cursor cpos s =
     (let cpos = (if cpos < 0 \<or> cpos > int (CONSOLE_ROWS * CONSOLE_COLUMNS) then 0 else cpos);
          s = outb 0x3D4 14 s;
          s = outb 0x3D5 (of_int (cpos div 256)) s;
          s = outb 0x3D4 15 s
      in outb 0x3D5 (of_int (cpos mod 256)) s)"

section \<open>The log and panic\<close>

abbreviation IO_PARALLEL1_DATA :: u16 where "IO_PARALLEL1_DATA \<equiv> 0x378"
abbreviation IO_PARALLEL1_STATUS :: u16 where "IO_PARALLEL1_STATUS \<equiv> 0x379"
abbreviation IO_PARALLEL_STATUS_BUSY :: u8 where "IO_PARALLEL_STATUS_BUSY \<equiv> 0x80"
abbreviation IO_PARALLEL1_CONTROL :: u16 where "IO_PARALLEL1_CONTROL \<equiv> 0x37A"
abbreviation IO_PARALLEL_CONTROL_SELECT :: u8 where "IO_PARALLEL_CONTROL_SELECT \<equiv> 0x08"
abbreviation IO_PARALLEL_CONTROL_INIT :: u8 where "IO_PARALLEL_CONTROL_INIT \<equiv> 0x04"
abbreviation IO_PARALLEL_CONTROL_STROBE :: u8 where "IO_PARALLEL_CONTROL_STROBE \<equiv> 0x01"

definition delay :: "'a machine_scheme \<Rightarrow> 'a machine_scheme" where
  "delay s = snd (inb 0x84 (snd (inb 0x84 (snd (inb 0x84 (snd (inb 0x84 s)))))))"

text \<open>The busy wait, with the number of polls still allowed.\<close>

fun parallel_wait :: "nat \<Rightarrow> 'a machine_scheme \<Rightarrow> 'a machine_scheme" where
  "parallel_wait 0 s = s"
| "parallel_wait (Suc n) s =
     (let (status, s) = inb IO_PARALLEL1_STATUS s
      in if status AND IO_PARALLEL_STATUS_BUSY = 0 then parallel_wait n (delay s) else s)"

definition parallel_port_putc :: "'a machine_scheme \<Rightarrow> u8 \<Rightarrow> int \<Rightarrow> 'a machine_scheme" where
  "parallel_port_putc s c color =
     (let s = (if parallel_initialized s then s
               else (outb IO_PARALLEL1_CONTROL 0 s)\<lparr>parallel_initialized := True\<rparr>);
          s = parallel_wait 12800 s;
          s = outb IO_PARALLEL1_DATA c s;
          s = outb IO_PARALLEL1_CONTROL
            (IO_PARALLEL_CONTROL_SELECT OR IO_PARALLEL_CONTROL_INIT OR IO_PARALLEL_CONTROL_STROBE) s
      in outb IO_PARALLEL1_CONTROL (IO_PARALLEL_CONTROL_SELECT OR IO_PARALLEL_CONTROL_INIT) s)"

definition log_vprintf :: "string \<Rightarrow> varg list \<Rightarrow> 'a machine_scheme \<Rightarrow> (unit, 'a machine_scheme) outcome" where
  "log_vprintf fmt args s =
     (case printer_vprintf parallel_port_putc s 0 fmt args of
        None \<Rightarrow> Inl (VarargMismatch, s) | Some s' \<Rightarrow> Inr ((), s'))"

definition log_printf :: "string \<Rightarrow> varg list \<Rightarrow> 'a machine_scheme \<Rightarrow> (unit, 'a machine_scheme) outcome" where
  "log_printf fmt args s = log_vprintf fmt args s"

definition error_vprintf ::
  "int \<Rightarrow> int \<Rightarrow> string \<Rightarrow> varg list \<Rightarrow> 'a machine_scheme \<Rightarrow> (int, 'a machine_scheme) outcome" where
  "error_vprintf cpos color fmt args s =
     bindM (log_vprintf fmt args s) (\<lambda>_ s. con_vprintf cpos color fmt args s)"

definition error_printf ::
  "int \<Rightarrow> int \<Rightarrow> string \<Rightarrow> varg list \<Rightarrow> 'a machine_scheme \<Rightarrow> (int, 'a machine_scheme) outcome" where
  "error_printf cpos color fmt args s = error_vprintf cpos color fmt args s"

text \<open>
  \<open>panic\<close> prints and enters \<open>fail\<close>, which never returns; its outcome is the state in which
  \<open>fail\<close> starts. A null format is \<open>None\<close>.
\<close>

definition panic :: "(string \<times> varg list) option \<Rightarrow> 'a machine_scheme \<Rightarrow> ('b, 'a machine_scheme) outcome" where
  "panic format s =
     bindM (case format of
        Some (fmt, args) \<Rightarrow>
          bindM (error_printf (CPOS 23 0) 0xC000 ''PANIC: '' [] s) (\<lambda>cpos s.
          bindM (error_vprintf cpos 0xC000 fmt args s) (\<lambda>cpos s.
          if CCOL cpos \<noteq> 0 then error_printf cpos 0xC000 ''\<newline>'' [] s else Inr (cpos, s)))
      | None \<Rightarrow> error_printf (CPOS 23 0) 0xC000 ''PANIC'' [] s)
     (\<lambda>_ s. Inl (Failed, s))"

definition assert_fail :: "string \<Rightarrow> nat \<Rightarrow> string \<Rightarrow> 'a machine_scheme \<Rightarrow> ('b, 'a machine_scheme) outcome" where
  "assert_fail file line msg s =
     panic (Some (''%s:%d: assertion '' @ [CHR 0x27] @ ''%s'' @ [CHR 0x27] @ '' failed\<newline>'',
                  [VStr file, VInt (of_nat line), VStr msg])) s"

text \<open>The \<open>assert\<close> macro, and a computation of the page-table component run on the machine.\<close>

definition assertM :: "string \<Rightarrow> nat \<Rightarrow> string \<Rightarrow> bool \<Rightarrow> 'a machine_scheme \<Rightarrow> (unit, 'a machine_scheme) outcome" where
  "assertM file line msg b s = (if b then Inr ((), s) else assert_fail file line msg s)"

definition run_chk :: "'r chk \<Rightarrow> 'a machine_scheme \<Rightarrow> ('r, 'a machine_scheme) outcome" where
  "run_chk r s = (case r of Inl (Assertion file line msg) \<Rightarrow> assert_fail file line msg s | Inr x \<Rightarrow> Inr (x, s))"

lemma assertM_True [simp, res_simps]: "assertM file line msg True s = Inr ((), s)"
  by (simp add: assertM_def)

lemma run_chk_Inr [simp, res_simps]: "run_chk (Inr x) s = Inr (x, s)"
  by (simp add: run_chk_def)

end
