(* ===== verification/Devices.thy ===== *)
theory Devices
  imports Machine
begin

text \<open>
  What the device code achieves: descriptors that the processor decodes to the intended handlers
  and privileges, the programmed timer rate, and a log that receives exactly the formatted text.
\<close>

section \<open>Gates as the processor reads them\<close>

definition gate_handler :: "x86_64_gatedescriptor \<Rightarrow> u64" where
  "gate_handler g = take_bit 16 (gd_low g) OR push_bit 16 (drop_bit 48 (gd_low g)) OR push_bit 32 (gd_high g)"

definition gate_dpl :: "x86_64_gatedescriptor \<Rightarrow> u64" where
  "gate_dpl g = take_bit 2 (drop_bit 45 (gd_low g))"

definition gate_present :: "x86_64_gatedescriptor \<Rightarrow> bool" where
  "gate_present g \<longleftrightarrow> bit (gd_low g) 47"

lemma bit_table:
  fixes c :: u64
  assumes "list_all (\<lambda>n. bit c n = P n) [0..<64]" "n < 64"
  shows "bit c n \<longleftrightarrow> P n"
  using assms by (auto simp: list_all_iff)

lemma gate_constants:
  fixes n :: nat
  assumes "n < 64"
  shows "bit (0xFFFF :: u64) n \<longleftrightarrow> n < 16"
    and "bit (0xFFFF0000 :: u64) n \<longleftrightarrow> 16 \<le> n \<and> n < 32"
    and "bit (push_bit 16 (of_nat SEGSEL_KERN_CODE) :: u64) n \<longleftrightarrow> n = 19"
    and "bit X86GATE_INTERRUPT n \<longleftrightarrow> n = 41 \<or> n = 42 \<or> n = 43"
    and "bit X86SEG_P n \<longleftrightarrow> n = 47"
  by (rule bit_table [OF _ assms], code_simp)+

lemma dpl_bits:
  assumes "dpl < 4" "bit (of_nat dpl :: u64) k"
  shows "k = 0 \<or> k = 1"
proof -
  have "take_bit 2 (of_nat dpl :: u64) = of_nat dpl"
    using assms(1) by (simp add: u64_eq_iff_unat unat_take_bit_u64 unat_of_nat_u64)
  then have "k < 2" using assms(2) by (metis bit_take_bit_iff)
  then show ?thesis by auto
qed

lemma bit_gd_low:
  assumes "dpl < 4" "n < 64"
  shows "bit (gd_low (set_gate X86GATE_INTERRUPT dpl f)) n \<longleftrightarrow>
    (n < 16 \<and> bit f n) \<or> n = 19 \<or> n = 41 \<or> n = 42 \<or> n = 43
    \<or> (45 \<le> n \<and> bit (of_nat dpl :: u64) (n - 45)) \<or> n = 47 \<or> (48 \<le> n \<and> bit f (n - 32))"
proof -
  have d: "bit (push_bit 45 (of_nat dpl :: u64)) n \<longleftrightarrow> 45 \<le> n \<and> bit (of_nat dpl :: u64) (n - 45)"
    using assms(2) by (auto simp: bit_push_bit_iff)
  have h: "bit (push_bit 32 (f AND 0xFFFF0000)) n \<longleftrightarrow> 48 \<le> n \<and> bit f (n - 32)"
    using assms(2) gate_constants(2) [of "n - 32"] unfolding bit_push_bit_iff bit_and_iff by auto
  show ?thesis
    unfolding set_gate_def x86_64_gatedescriptor.simps bit_or_iff bit_and_iff d h
      gate_constants(1,3-5) [OF assms(2)] by blast
qed

lemma gate_of_set_gate:
  assumes "dpl < 4"
  shows "gate_handler (set_gate X86GATE_INTERRUPT dpl f) = f"
    and "gate_dpl (set_gate X86GATE_INTERRUPT dpl f) = of_nat dpl"
    and "gate_present (set_gate X86GATE_INTERRUPT dpl f)"
proof -
  define g where "g = set_gate X86GATE_INTERRUPT dpl f"
  note low = bit_gd_low [OF assms, where f = f, folded g_def]
  have high: "gd_high g = drop_bit 32 f" by (simp add: g_def set_gate_def)
  have "bit (gate_handler g) n = bit f n" if n: "n < 64" for n
  proof -
    consider "n < 16" | "16 \<le> n" "n < 32" | "32 \<le> n" by linarith
    then show ?thesis
    proof cases
      case 2
      then show ?thesis using low [of "32 + n"] dpl_bits [OF assms, of "n - 13"]
        by (auto simp: gate_handler_def bit_simps high)
    next
      case 3
      then have "\<not> bit (gd_low g) (32 + n)" by (auto dest: bit_imp_le_length)
      with 3 n show ?thesis by (auto simp: gate_handler_def bit_simps high)
    qed (use n low [of n] in \<open>auto simp: gate_handler_def bit_simps high\<close>)
  qed
  then show "gate_handler (set_gate X86GATE_INTERRUPT dpl f) = f"
    unfolding g_def by (intro bit_word_eqI) simp
  have "bit (gate_dpl g) n = bit (of_nat dpl :: u64) n" if n: "n < 64" for n
    using low [of "45 + n"] dpl_bits [OF assms, of n] n
    by (auto simp: gate_dpl_def bit_simps less_2_cases_iff)
  then show "gate_dpl (set_gate X86GATE_INTERRUPT dpl f) = of_nat dpl"
    unfolding g_def by (intro bit_word_eqI) simp
  show "gate_present (set_gate X86GATE_INTERRUPT dpl f)"
    using low [of 47] by (simp add: gate_present_def g_def)
qed

section \<open>The timer divisor\<close>

lemma TIMER_DIV_bounds:
  assumes "19 \<le> rate" "rate \<le> 1193182"
  shows "0 < TIMER_DIV rate" "TIMER_DIV rate < 65536"
    "\<bar>2 * (TIMER_DIV rate * rate - TIMER_FREQ)\<bar> \<le> rate"
proof -
  define q where "q = TIMER_DIV rate"
  define r where "r = (TIMER_FREQ + rate div 2) mod rate"
  have eq: "TIMER_FREQ + rate div 2 = q * rate + r"
    by (simp add: q_def r_def TIMER_DIV_def)
  have r: "0 \<le> r" "r < rate" using assms by (simp_all add: r_def)
  have half: "2 * (rate div 2) \<le> rate" "rate \<le> 2 * (rate div 2) + 1" by presburger+
  show "\<bar>2 * (TIMER_DIV rate * rate - TIMER_FREQ)\<bar> \<le> rate"
  proof -
    define p h where "p = TIMER_DIV rate * rate" and "h = rate div 2"
    have "TIMER_FREQ + h = p + r" "2 * h \<le> rate" "rate \<le> 2 * h + 1"
      using eq half by (simp_all add: p_def h_def q_def)
    then have "\<bar>2 * (p - TIMER_FREQ)\<bar> \<le> rate" using r by arith
    then show ?thesis by (simp only: p_def)
  qed
  show "0 < TIMER_DIV rate"
    using assms by (simp add: TIMER_DIV_def pos_imp_zdiv_pos_iff)
  have "TIMER_FREQ + rate div 2 < 65536 * rate" using assms half by linarith
  then have "q * rate < 65536 * rate" using eq r by linarith
  then show "TIMER_DIV rate < 65536"
    using assms by (simp add: q_def)
qed

lemma byte_roundtrip: "0 \<le> x \<Longrightarrow> x < 256 \<Longrightarrow> uint (of_int x :: u8) = x"
  by (simp add: uint_word_of_int_eq take_bit_int_eq_self)

section \<open>The log\<close>

definition log_bytes :: "ioev list \<Rightarrow> u8 list" where
  "log_bytes io = List.map_filter (\<lambda>e. case e of OutB p v \<Rightarrow> if p = IO_PARALLEL1_DATA then Some v else None | _ \<Rightarrow> None) (rev io)"

text \<open>Everything but the I/O history and the initialisation flag of the parallel port is untouched.\<close>

definition only_io :: "'a machine_scheme \<Rightarrow> 'a machine_scheme \<Rightarrow> bool" where
  "only_io s s' \<longleftrightarrow> s' = s\<lparr>m_io := m_io s', parallel_initialized := parallel_initialized s'\<rparr>"

lemma only_io_refl [simp]: "only_io s s"
  by (simp add: only_io_def)

lemma only_io_trans: "only_io s t \<Longrightarrow> only_io t u \<Longrightarrow> only_io s u"
  by (cases s, cases t, cases u) (auto simp: only_io_def)

lemma log_bytes_simps [simp]:
  "log_bytes (InB p v # io) = log_bytes io" "log_bytes (InL p w # io) = log_bytes io"
  "log_bytes (OutB p v # io) = log_bytes io @ (if p = IO_PARALLEL1_DATA then [v] else [])"
  by (simp_all add: log_bytes_def map_filter_def)

lemma delay_effect: "only_io s (delay s)" "log_bytes (m_io (delay s)) = log_bytes (m_io s)"
  by (simp_all add: delay_def inb_def Let_def only_io_def)

lemma parallel_wait_effect:
  "only_io s (parallel_wait n s) \<and> log_bytes (m_io (parallel_wait n s)) = log_bytes (m_io s)"
proof (induction n arbitrary: s)
  case (Suc n)
  define s1 where "s1 = snd (inb IO_PARALLEL1_STATUS s)"
  have s1: "only_io s s1" "log_bytes (m_io s1) = log_bytes (m_io s)"
    by (simp_all add: s1_def inb_def Let_def only_io_def)
  have "parallel_wait (Suc n) s = (if fst (inb IO_PARALLEL1_STATUS s) AND IO_PARALLEL_STATUS_BUSY = 0
      then parallel_wait n (delay s1) else s1)"
    by (simp add: s1_def split_beta Let_def)
  then show ?case
    using s1 Suc.IH [of "delay s1"] delay_effect [of s1] by (auto intro: only_io_trans)
qed simp

lemma parallel_port_putc_effect:
  "only_io s (parallel_port_putc s c color)"
  "log_bytes (m_io (parallel_port_putc s c color)) = log_bytes (m_io s) @ [c]"
proof -
  define s0 where "s0 = (if parallel_initialized s then s
               else (outb IO_PARALLEL1_CONTROL 0 s)\<lparr>parallel_initialized := True\<rparr>)"
  have s0: "only_io s s0" "log_bytes (m_io s0) = log_bytes (m_io s)"
    by (auto simp: s0_def only_io_def outb_def)
  note w = parallel_wait_effect [of s0 12800]
  define s1 where "s1 = parallel_wait 12800 s0"
  have put: "parallel_port_putc s c color = s1\<lparr>m_io := OutB IO_PARALLEL1_CONTROL 0x0C
      # OutB IO_PARALLEL1_CONTROL 0x0D # OutB IO_PARALLEL1_DATA c # m_io s1\<rparr>"
    by (simp add: parallel_port_putc_def Let_def outb_def s1_def s0_def)
  show "log_bytes (m_io (parallel_port_putc s c color)) = log_bytes (m_io s) @ [c]"
    unfolding put using w s0 by (simp add: s1_def)
  have "only_io s1 (parallel_port_putc s c color)"
    unfolding put by (simp add: only_io_def)
  then show "only_io s (parallel_port_putc s c color)"
    using w s0 unfolding s1_def by (blast intro: only_io_trans)
qed

text \<open>The parallel port is a printer that touches nothing but the I/O history.\<close>

interpretation log_sink: printer_sink parallel_port_putc "only_io s"
  by unfold_locales (blast intro: only_io_trans parallel_port_putc_effect(1))

lemma replay_parallel:
  "log_bytes (m_io (replay parallel_port_putc s out)) = log_bytes (m_io s) @ map fst out"
  by (induction out arbitrary: s) (simp_all add: replay_def parallel_port_putc_effect(2) split_beta)

section \<open>The interrupt table\<close>

lemma length_set_gates [simp]: "length (set_gates is g idt) = length idt"
  by (induction "is" g idt rule: set_gates.induct) simp_all

lemma nth_set_gates:
  "i < length idt \<Longrightarrow> set_gates is g idt ! i = (if i \<in> set is then g i else idt ! i)"
  by (induction "is" g idt rule: set_gates.induct) (auto simp: nth_list_update)

definition handler_of :: "'b hwsyms_scheme \<Rightarrow> nat \<Rightarrow> u64" where
  "handler_of syms i =
     (if INT_SYS \<le> i \<and> i < INT_SYS + 16 then sym_sys_int_handlers syms (i - INT_SYS)
      else if i = INT_TIMER then sym_timer_int_handler syms
      else if i = INT_GPF then sym_gpf_int_handler syms
      else if i = INT_PAGEFAULT then sym_pagefault_int_handler syms
      else sym_default_int_handler syms)"

lemma idt_layers:
  assumes "i < 256"
  shows "set_gates xs g ((set_gates ys h (replicate 256 z))[a := ga, b := gb, c := gc]) ! i =
    (if i \<in> set xs then g i else if i = c then gc else if i = b then gb else if i = a then ga
     else if i \<in> set ys then h i else z)"
  using assms by (simp add: nth_set_gates nth_list_update)

lemma idt_entry:
  assumes "i < 256"
  shows "interrupt_descriptors (segments_init syms cpu) ! i =
    (if 16 \<le> i \<or> i = INT_GPF \<or> i = INT_PAGEFAULT
     then set_gate X86GATE_INTERRUPT (if INT_SYS \<le> i \<and> i < INT_SYS + 16 then 3 else 0) (handler_of syms i)
     else no_gate)"
  unfolding segments_init_def Let_def split_beta processor.simps idt_layers [OF assms] set_upt atLeastLessThan_iff
  using assms by (simp add: handler_of_def)

section \<open>Properties\<close>

text \<open>
  C12 (the interrupt table). After \<open>segments_init\<close> the processor decodes every gate to the handler
  that the kernel intends for that number; the numbers that applications may raise themselves
  (privilege level 3) are exactly the sixteen system calls, and no other present gate is open
  to them.
\<close>

theorem segments_init_gates:
  assumes "i < 256"
  shows "(gate_present (interrupt_descriptors (segments_init syms cpu) ! i) \<longleftrightarrow>
       16 \<le> i \<or> i = INT_GPF \<or> i = INT_PAGEFAULT)
    \<and> (gate_present (interrupt_descriptors (segments_init syms cpu) ! i) \<longrightarrow>
       gate_handler (interrupt_descriptors (segments_init syms cpu) ! i) = handler_of syms i
       \<and> (gate_dpl (interrupt_descriptors (segments_init syms cpu) ! i) = 3 \<longleftrightarrow> INT_SYS \<le> i \<and> i < INT_SYS + 16))"
proof -
  have "\<not> gate_present no_gate" by (simp add: gate_present_def no_gate_def)
  then show ?thesis
    unfolding idt_entry [OF assms] using gate_of_set_gate [of 0] gate_of_set_gate [of 3] by auto
qed

theorem segments_init_gates_witness:
  "\<forall>(syms :: hwsyms) cpu.
     gate_handler (interrupt_descriptors (segments_init (syms\<lparr>sym_timer_int_handler := 0x40123\<rparr>) cpu) ! 32) = 0x40123
   \<and> gate_dpl (interrupt_descriptors (segments_init (syms\<lparr>sym_timer_int_handler := 0x40123\<rparr>) cpu) ! 32) \<noteq> 3"
  using segments_init_gates [of 32 "syms\<lparr>sym_timer_int_handler := 0x40123\<rparr>" cpu for syms :: hwsyms and cpu]
  by (simp add: handler_of_def)

text \<open>
  C13 (the timer rate). For every rate from 19 to 1193182 Hz, the two bytes that \<open>timer_init\<close> sends to
  the counter are the low and high byte of \<open>TIMER_DIV rate\<close>, which is an integer nearest to the quotient
  of the clock 1193182 Hz and the rate (nearest as a divisor, within a half, which is not always the one
  whose rate is nearest); the timer line is unmasked, and no other line changes. (Below 19 Hz the divisor
  does not fit in two bytes, and for high rates it is 0.)
\<close>

theorem timer_init_programs_rate:
  assumes "19 \<le> rate" and "rate \<le> 1193182"
  shows "\<exists>lo hi. m_io (timer_init rate s) =
      [OutB 0xA1 (ucast (drop_bit 8 (NOT (interrupts_enabled s OR 1)) AND 0xFF)),
       OutB 0x21 (ucast (NOT (interrupts_enabled s OR 1) AND 0xFF)),
       OutB 0x40 hi, OutB 0x40 lo, OutB 0x43 0x34] @ m_io s
    \<and> uint lo + 256 * uint hi = TIMER_DIV rate
    \<and> \<bar>2 * ((uint lo + 256 * uint hi) * rate - TIMER_FREQ)\<bar> \<le> rate
    \<and> interrupts_enabled (timer_init rate s) = interrupts_enabled s OR 1"
proof -
  note b = TIMER_DIV_bounds [OF assms]
  define lo hi :: u8 where "lo = of_int (TIMER_DIV rate mod 256)" and "hi = of_int (TIMER_DIV rate div 256)"
  have "uint lo = TIMER_DIV rate mod 256" unfolding lo_def by (rule byte_roundtrip) simp_all
  moreover have "0 \<le> q div 256 \<and> q div 256 < 256" if "0 < q" "q < 65536" for q :: int
    using that by presburger
  then have "uint hi = TIMER_DIV rate div 256"
    unfolding hi_def using b by (intro byte_roundtrip) blast+
  ultimately have sum: "uint lo + 256 * uint hi = TIMER_DIV rate" by simp
  then have "\<bar>2 * ((uint lo + 256 * uint hi) * rate - TIMER_FREQ)\<bar> \<le> rate" using b(3) by simp
  with sum show ?thesis
    using assms(1)
    by (intro exI [of _ lo] exI [of _ hi])
      (simp add: timer_init_def interrupt_mask_def outb_def Let_def lo_def hi_def)
qed

theorem timer_init_programs_rate_witness:
  "\<forall>s :: machine. \<exists>lo hi. uint lo + 256 * uint hi = (11932 :: int)
     \<and> [OutB 0x40 hi, OutB 0x40 lo] = take 2 (drop 2 (m_io (timer_init 100 s)))"
proof
  fix s :: machine
  show "\<exists>lo hi. uint lo + 256 * uint hi = (11932 :: int)
     \<and> [OutB 0x40 hi, OutB 0x40 lo] = take 2 (drop 2 (m_io (timer_init 100 s)))"
    using timer_init_programs_rate [of 100 s] by (auto simp: TIMER_DIV_def)
qed

text \<open>
  The log receives the formatted text. \<open>log_vprintf\<close> sends to the data port of the parallel
  interface exactly the characters that the formatter produces, in order, whatever the port's
  busy flag does, and changes nothing of the machine but its I/O history and the flag that the
  port has been initialised.
\<close>

lemma log_vprintf_sends:
  assumes "printer_vprintf trace_putc [] 0 fmt args = Some out"
  shows "\<exists>s'. log_vprintf fmt args s = Inr ((), s') \<and> only_io s s'
    \<and> log_bytes (m_io s') = log_bytes (m_io s) @ map fst out"
proof -
  have run: "printer_vprintf parallel_port_putc s 0 fmt args = Some (replay parallel_port_putc s out)"
    using printer_vprintf_replay [of parallel_port_putc s "[]" 0 fmt args] assms by simp
  with log_sink.vprintf_inv [OF run, of s] show ?thesis
    by (simp add: log_vprintf_def replay_parallel)
qed

end
