(* ===== verification/Keyboard.thy ===== *)
theory Keyboard
  imports Machine
begin

text \<open>
  The keyboard driver of \<open>k-hardware.c\<close>: key maps, \<open>keyboard_readc\<close>, the control keys of
  \<open>check_keyboard\<close> (soft reboot and power off) and the loop of \<open>fail\<close> that a panic ends in.
\<close>

section \<open>Key codes\<close>

abbreviation KEYBOARD_STATUSREG :: u16 where "KEYBOARD_STATUSREG \<equiv> 0x64"
abbreviation KEYBOARD_STATUS_READY :: u8 where "KEYBOARD_STATUS_READY \<equiv> 0x01"
abbreviation KEYBOARD_DATAREG :: u16 where "KEYBOARD_DATAREG \<equiv> 0x60"

abbreviation MOD_SHIFT :: u8 where "MOD_SHIFT \<equiv> 1"
abbreviation MOD_CONTROL :: u8 where "MOD_CONTROL \<equiv> 2"
abbreviation MOD_CAPSLOCK :: u8 where "MOD_CAPSLOCK \<equiv> 8"

abbreviation KEY_UP :: u8 where "KEY_UP \<equiv> 192"
abbreviation KEY_RIGHT :: u8 where "KEY_RIGHT \<equiv> 193"
abbreviation KEY_DOWN :: u8 where "KEY_DOWN \<equiv> 194"
abbreviation KEY_LEFT :: u8 where "KEY_LEFT \<equiv> 195"
abbreviation KEY_HOME :: u8 where "KEY_HOME \<equiv> 196"
abbreviation KEY_END :: u8 where "KEY_END \<equiv> 197"
abbreviation KEY_PAGEUP :: u8 where "KEY_PAGEUP \<equiv> 198"
abbreviation KEY_PAGEDOWN :: u8 where "KEY_PAGEDOWN \<equiv> 199"
abbreviation KEY_INSERT :: u8 where "KEY_INSERT \<equiv> 200"
abbreviation KEY_DELETE :: u8 where "KEY_DELETE \<equiv> 201"
abbreviation KEY_SHIFT :: u8 where "KEY_SHIFT \<equiv> 250"
abbreviation KEY_CONTROL :: u8 where "KEY_CONTROL \<equiv> 251"
abbreviation KEY_ALT :: u8 where "KEY_ALT \<equiv> 252"
abbreviation KEY_CAPSLOCK :: u8 where "KEY_CAPSLOCK \<equiv> 253"
abbreviation KEY_NUMLOCK :: u8 where "KEY_NUMLOCK \<equiv> 254"
abbreviation KEY_SCROLLLOCK :: u8 where "KEY_SCROLLLOCK \<equiv> 255"

definition CKEY :: "nat \<Rightarrow> u8" where
  "CKEY cn = 0x80 + of_nat cn"

definition keys :: "string \<Rightarrow> u8 list" where
  "keys s = map of_char s"

definition keymap :: "u8 list" where
  "keymap =
     [0, 27] @ map CKEY [0, 1, 2, 3, 4, 5, 6, 7, 8, 9, 10, 11] @ [8, 9]
     @ keys ''qwertyuiop'' @ [CKEY 12, CKEY 13, CKEY 14, KEY_CONTROL] @ keys ''as''
     @ keys ''dfghjkl'' @ [CKEY 15, CKEY 16, CKEY 17, KEY_SHIFT, CKEY 18] @ keys ''zxcv''
     @ keys ''bnm'' @ [CKEY 19, CKEY 20, CKEY 21, KEY_SHIFT] @ keys ''*'' @ [KEY_ALT] @ keys '' ''
       @ [KEY_CAPSLOCK, 0, 0, 0, 0, 0]
     @ [0, 0, 0, 0, 0, KEY_NUMLOCK, KEY_SCROLLLOCK] @ keys ''789-456+1''
     @ keys ''230.'' @ replicate 12 0
     @ replicate 16 0
     @ replicate 16 0
     @ replicate 16 0
     @ replicate 12 0 @ [CKEY 14, KEY_CONTROL, 0, 0]
     @ replicate 16 0
     @ [0, 0, 0, 0, 0] @ keys ''/'' @ [0, 0, KEY_ALT, 0, 0, 0, 0, 0, 0, 0]
     @ [0, 0, 0, 0, 0, 0, 0, KEY_HOME, KEY_UP, KEY_PAGEUP, 0, KEY_LEFT, 0, KEY_RIGHT, 0, KEY_END]
     @ [KEY_DOWN, KEY_PAGEDOWN, KEY_INSERT, KEY_DELETE] @ replicate 12 0
     @ replicate 16 0
     @ replicate 16 0"

definition complex_keymap :: "u8 list list" where
  "complex_keymap =
     [keys ''1!'' @ [0, 0], keys ''2@'' @ [0, 0], keys ''3#'' @ [0, 0], keys ''4$'' @ [0, 0],
      keys ''5%'' @ [0, 0], keys ''6^'' @ [0, 30], keys ''7&'' @ [0, 0], keys ''8*'' @ [0, 0],
      keys ''9('' @ [0, 0], keys ''0)'' @ [0, 0], keys ''-_'' @ [0, 31], keys ''=+'' @ [0, 0],
      keys ''[{'' @ [27, 0], keys '']}'' @ [29, 0], [10, 10, 13, 13], keys '';:'' @ [0, 0],
      [39, 34, 0, 0], [96, 126, 0, 0], [92, 124, 28, 0], keys '',<'' @ [0, 0],
      keys ''.>'' @ [0, 0], keys ''/?'' @ [0, 0]]"

section \<open>Reading a key\<close>

definition modifier_bit :: "u8 \<Rightarrow> u8" where
  "modifier_bit ch = push_bit (unat (ch - KEY_SHIFT)) 1"

text \<open>A key press: the character, and the modifiers afterwards.\<close>

definition key_press :: "u8 \<Rightarrow> u8 \<Rightarrow> u8 \<times> u8" where
  "key_press modifiers ch =
     (if of_char CHR ''a'' \<le> ch \<and> ch \<le> of_char CHR ''z''
      then (if modifiers AND MOD_CONTROL \<noteq> 0 then ch - 0x60
            else if (modifiers AND MOD_SHIFT = 0) \<noteq> (modifiers AND MOD_CAPSLOCK = 0) then ch - 0x20
            else ch, modifiers)
      else if ch \<ge> KEY_CAPSLOCK then (0, modifiers XOR modifier_bit ch)
      else if ch \<ge> KEY_SHIFT then (0, modifiers OR modifier_bit ch)
      else if CKEY 0 \<le> ch \<and> ch \<le> CKEY 21
      then (complex_keymap ! unat (ch - CKEY 0) ! unat (modifiers AND 3), modifiers)
      else if ch < 0x80 \<and> modifiers AND MOD_CONTROL \<noteq> 0 then (0, modifiers)
      else (ch, modifiers))"

definition keyboard_readc :: "'a machine_scheme \<Rightarrow> int \<times> 'a machine_scheme" where
  "keyboard_readc s =
     (let (status, s) = inb KEYBOARD_STATUSREG s
      in if status AND KEYBOARD_STATUS_READY = 0 then (- 1, s)
         else let (data, s) = inb KEYBOARD_DATAREG s;
                  escape = kb_last_escape s;
                  s = s\<lparr>kb_last_escape := 0\<rparr>
              in if data = 0xE0 then (0, s\<lparr>kb_last_escape := 0x80\<rparr>)
                 else if data AND 0x80 \<noteq> 0
                 then let ch = keymap ! unat ((data AND 0x7F) OR escape)
                      in (0, if KEY_SHIFT \<le> ch \<and> ch < KEY_CAPSLOCK
                             then s\<lparr>kb_modifiers := kb_modifiers s AND NOT (modifier_bit ch)\<rparr> else s)
                 else let (ch, modifiers) = key_press (kb_modifiers s) (keymap ! unat (data OR escape))
                      in (uint ch, s\<lparr>kb_modifiers := modifiers\<rparr>))"

section \<open>Control keys\<close>

definition reboot_tables :: "memory \<Rightarrow> memory" where
  "reboot_tables m =
     (let pt = 0x8000;
          m = fst (memset m pt 0 (PAGESIZE * 3));
          m = set_pt_entry m pt 0 (0x9000 OR PTE_P OR PTE_W OR PTE_U);
          m = set_pt_entry m (pt + PAGESIZE) 0 (0xA000 OR PTE_P OR PTE_W OR PTE_U)
      in set_pt_entry m (pt + 2 * PAGESIZE) 0 (PTE_P OR PTE_W OR PTE_U OR 128))"

definition check_keyboard :: "'b hwsyms_scheme \<Rightarrow> 'a machine_scheme \<Rightarrow> (int, 'a machine_scheme) outcome" where
  "check_keyboard syms s =
     (let (c, s) = keyboard_readc s
      in if c = 97 \<or> c = 102 \<or> c = 101
         then let s = s\<lparr>m_mem := reboot_tables (m_mem s), m_cr3 := 0x8000\<rparr>;
                  argument = (if c = 97 then ''allocator'' else if c = 101 then ''forkexit'' else ''fork'');
                  argument_ptr = sym_literal syms argument
              in bindM (assertM ''k-hardware.c'' 757 ''argument_ptr < 0x100000000L''
                          (argument_ptr < 0x100000000) s)
                   (\<lambda>_ s. Inl (SoftReboot 4 (ucast argument_ptr), s))
         else if c = 3 \<or> c = 113 then bindM (poweroff s) (\<lambda>(_ :: unit) s. Inr (c, s))
         else Inr (c, s))"

text \<open>
  \<open>fail\<close> polls the keyboard until a key stops the machine. It need not end: \<open>None\<close>. The first
  argument is the build parameter TICK\_LIMIT.
\<close>

partial_function (option) fail_loop ::
  "'b hwsyms_scheme \<Rightarrow> 'a machine_scheme \<Rightarrow> (stop \<times> 'a machine_scheme) option" where
  "fail_loop syms s =
     (case check_keyboard syms s of Inl r \<Rightarrow> Some r | Inr (_, s) \<Rightarrow> fail_loop syms s)"

definition fail :: "u32 \<Rightarrow> 'b hwsyms_scheme \<Rightarrow> 'a machine_scheme \<Rightarrow> (stop \<times> 'a machine_scheme) option" where
  "fail tick_limit syms s =
     (if tick_limit \<noteq> 0
      then (case poweroff s of Inl r \<Rightarrow> Some r | Inr (_ :: unit, s) \<Rightarrow> fail_loop syms s)
      else fail_loop syms s)"

section \<open>Facts about the tables\<close>

lemma length_keymap [simp]: "length keymap = 256"
  by (simp add: keymap_def keys_def)

definition special_key :: "u8 \<Rightarrow> bool" where
  "special_key ch \<longleftrightarrow> KEY_UP \<le> ch \<and> ch \<le> KEY_DELETE"

lemma keymap_range:
  "list_all (\<lambda>ch. ch < 0x80 \<or> (CKEY 0 \<le> ch \<and> ch \<le> CKEY 21) \<or> special_key ch \<or> KEY_SHIFT \<le> ch) keymap"
  by code_simp

lemma complex_keymap_range:
  "length complex_keymap = 22" "list_all (\<lambda>ks. length ks = 4 \<and> list_all (\<lambda>ch. ch < 0x80) ks) complex_keymap"
  by code_simp+

lemma keymap_cases:
  assumes "i < 256"
  obtains "keymap ! i < 0x80" | "CKEY 0 \<le> keymap ! i" "keymap ! i \<le> CKEY 21"
    | "special_key (keymap ! i)" | "KEY_SHIFT \<le> keymap ! i"
  using keymap_range assms by (auto simp: list_all_length)

lemma complex_key_range:
  assumes "CKEY 0 \<le> ch" "ch \<le> CKEY 21"
  shows "complex_keymap ! unat (ch - CKEY 0) ! unat (modifiers AND 3) < 0x80"
proof -
  have "unat (ch - CKEY 0) = unat ch - 128"
    using assms(1) by (simp add: CKEY_def unat_sub)
  moreover have "unat ch \<le> 149" using assms(2) by (simp add: CKEY_def word_le_nat_alt)
  ultimately have i: "unat (ch - CKEY 0) < length complex_keymap"
    by (simp add: complex_keymap_range(1))
  have "modifiers AND 3 = take_bit 2 modifiers" by (simp add: take_bit_eq_mask mask_numeral)
  moreover have "unat (take_bit 2 modifiers) < 4"
    using unsigned_take_bit_eq [of 2 modifiers, where ?'a = nat] take_bit_nat_less_exp [of 2 "unat modifiers"]
    by (simp del: take_bit_nat_less_exp)
  ultimately have j: "unat (modifiers AND 3) < 4" by simp
  from complex_keymap_range(2) i have "length (complex_keymap ! unat (ch - CKEY 0)) = 4"
    "list_all (\<lambda>ch. ch < 0x80) (complex_keymap ! unat (ch - CKEY 0))"
    by (auto simp: list_all_length)
  with j show ?thesis by (auto simp: list_all_length)
qed

lemma letter_range:
  assumes "of_char CHR ''a'' \<le> ch" "ch \<le> (of_char CHR ''z'' :: u8)"
  shows "ch < 0x80" "ch - 0x60 < 0x80" "ch - 0x20 < 0x80"
proof -
  have b: "97 \<le> unat ch" "unat ch \<le> 122" using assms by (simp_all add: word_le_nat_alt)
  have "unat (ch - 0x60) = unat ch - 96" "unat (ch - 0x20) = unat ch - 32"
    using b by (simp_all add: unat_sub word_le_nat_alt)
  with b show "ch < 0x80" "ch - 0x60 < 0x80" "ch - 0x20 < 0x80" by (simp_all add: word_less_nat_alt)
qed

lemma key_press_range:
  assumes "i < 256" "key_press modifiers (keymap ! i) = (ch, modifiers')"
  shows "ch < 0x80 \<or> special_key ch"
  using assms(1)
proof (cases rule: keymap_cases)
  case 1
  with assms(2) letter_range [of "keymap ! i"] show ?thesis
    by (auto simp: key_press_def CKEY_def word_less_nat_alt word_le_nat_alt split: if_splits)
next
  case 2
  with assms(2) complex_key_range [of "keymap ! i" modifiers] show ?thesis
    by (auto simp: key_press_def CKEY_def word_less_nat_alt word_le_nat_alt split: if_splits)
next
  case 3
  with assms(2) show ?thesis
    by (auto simp: key_press_def CKEY_def special_key_def word_less_nat_alt word_le_nat_alt split: if_splits)
next
  case 4
  with assms(2) show ?thesis
    by (auto simp: key_press_def CKEY_def word_less_nat_alt word_le_nat_alt split: if_splits)
qed

definition only_kb :: "'a machine_scheme \<Rightarrow> 'a machine_scheme \<Rightarrow> bool" where
  "only_kb s s' \<longleftrightarrow> s' = s\<lparr>m_io := m_io s', kb_modifiers := kb_modifiers s', kb_last_escape := kb_last_escape s'\<rparr>"

lemma keyboard_readc_effect:
  assumes "keyboard_readc s = (c, s')"
  shows "(c = - 1 \<or> (0 \<le> c \<and> c < 0x80) \<or> (192 \<le> c \<and> c \<le> 201)) \<and> only_kb s s'"
proof -
  have idx: "unat (x :: u8) < 256" for x using unsigned_less [of x] by simp
  have press: "0 \<le> uint ch \<and> (uint ch < 0x80 \<or> (192 \<le> uint ch \<and> uint ch \<le> 201))"
    if "key_press modifiers (keymap ! unat x) = (ch, modifiers')" for x :: u8 and modifiers ch modifiers'
    using key_press_range [OF idx that] by (auto simp: special_key_def word_less_def word_le_def)
  show ?thesis
    using assms unfolding keyboard_readc_def inb_def
    by (auto simp: Let_def only_kb_def split: if_splits prod.splits dest: press)
qed

text \<open>
  C14 (what the keyboard driver returns). Whatever the controller delivers, \<open>keyboard_readc\<close> returns
  -1, an ASCII code or one of the ten special keys of \<open>kernel.h\<close>, never a modifier key or a raw
  key-map code, and changes nothing but the I/O history and its own two variables.
\<close>

theorem keyboard_readc_result:
  assumes "keyboard_readc s = (c, s')"
  shows "(c = - 1 \<or> (0 \<le> c \<and> c < 0x80) \<or> (192 \<le> c \<and> c \<le> 201)) \<and> only_kb s s'"
  by (rule keyboard_readc_effect [OF assms])

theorem keyboard_readc_result_witness:
  "\<forall>s :: machine. fst (keyboard_readc (s\<lparr>m_dev := \<lambda>io port. if port = 0x64 then 1 else 0x1E, kb_modifiers := 1, kb_last_escape := 0\<rparr>)) = 65"
proof
  fix s :: machine
  let ?s = "s\<lparr>m_dev := \<lambda>io port. if port = 0x64 then 1 else 0x1E, kb_modifiers := 1, kb_last_escape := 0\<rparr>"
  have k: "keymap ! 0x1E = 97" by code_simp
  have "keyboard_readc ?s = (65, snd (keyboard_readc ?s))"
    by (simp add: keyboard_readc_def inb_def Let_def k key_press_def)
  with keyboard_readc_result [of ?s 65 "snd (keyboard_readc ?s)"]
  show "fst (keyboard_readc ?s) = 65" by (metis fst_conv)
qed

end
