(* ===== verification/KernelState.thy ===== *)
theory KernelState
  imports Devices Keyboard
begin

text \<open>
  The kernel's state and its self-checks (\<open>kernel.c\<close>, \<open>kernel.h\<close>): process descriptors, the
  \<open>pageinfo\<close> array, \<open>assign_physical_page\<close>, \<open>pageinfo_init\<close>, \<open>run\<close>, \<open>schedule\<close> and
  \<open>check_virtual_memory\<close> with its helpers.

  \<open>kstate\<close> extends the machine with the kernel's global variables. An index outside a kernel array
  is the outcome \<open>OutOfBounds\<close>. \<open>run\<close> ends in user mode: its result is the register file that
  \<open>exception_return\<close> loads.
\<close>

section \<open>State\<close>

datatype procstate = P_FREE | P_RUNNABLE | P_BLOCKED | P_BROKEN

record proc =
  p_pid :: int
  p_registers :: x86_64_registers
  p_state :: procstate
  p_pagetable :: u64

record physical_pageinfo =
  owner :: int
  refcount :: int

abbreviation NPROC :: nat where "NPROC \<equiv> 16"
abbreviation NPAGES :: nat where "NPAGES \<equiv> 512"
abbreviation KERNEL_START_ADDR :: u64 where "KERNEL_START_ADDR \<equiv> 0x40000"
abbreviation PROC_START_ADDR :: u64 where "PROC_START_ADDR \<equiv> 0x100000"
abbreviation MEMSIZE_VIRTUAL :: u64 where "MEMSIZE_VIRTUAL \<equiv> 0x300000"
abbreviation PO_FREE :: int where "PO_FREE \<equiv> 0"
abbreviation PO_RESERVED :: int where "PO_RESERVED \<equiv> - 1"
abbreviation PO_KERNEL :: int where "PO_KERNEL \<equiv> - 2"

text \<open>\<open>cr2\<close> is the register in which the processor leaves the address of a page fault.\<close>

record kstate = machine +
  processes :: "proc list"
  current :: nat
  ticks :: u32
  pageinfo :: "physical_pageinfo list"
  kernel_pagetable :: u64
  anim_last_ticks :: u32
  anim_showing :: int
  cr2 :: u64

text \<open>The linker's symbols and the build parameters TICK\_LIMIT and FORCE\_FORK.\<close>

record kparams = hwsyms +
  TICK_LIMIT :: u32
  FORCE_FORK :: bool

text \<open>Conversion to \<open>int8_t\<close>, the type of the fields of \<open>physical_pageinfo\<close>.\<close>

definition to_i8 :: "int \<Rightarrow> int" where
  "to_i8 x = signed_take_bit 7 x"

definition pageinfo_at :: "int \<Rightarrow> kstate \<Rightarrow> (physical_pageinfo, kstate) outcome" where
  "pageinfo_at n k =
     (if 0 \<le> n \<and> n < int NPAGES then Inr (pageinfo k ! nat n, k) else Inl (OutOfBounds, k))"

definition set_pageinfo :: "nat \<Rightarrow> physical_pageinfo \<Rightarrow> kstate \<Rightarrow> kstate" where
  "set_pageinfo n p k = k\<lparr>pageinfo := (pageinfo k)[n := p]\<rparr>"

definition set_proc :: "nat \<Rightarrow> proc \<Rightarrow> kstate \<Rightarrow> kstate" where
  "set_proc i p k = k\<lparr>processes := (processes k)[i := p]\<rparr>"

section \<open>Pages\<close>

definition assign_physical_page :: "u64 \<Rightarrow> int \<Rightarrow> kstate \<Rightarrow> int \<times> kstate" where
  "assign_physical_page addr own k =
     (let n = nat (PAGENUMBER addr) in
      if addr AND 0xFFF \<noteq> 0 \<or> addr \<ge> MEMSIZE_PHYSICAL \<or> refcount (pageinfo k ! n) \<noteq> 0
      then (- 1, k)
      else (0, set_pageinfo n \<lparr>owner = to_i8 own, refcount = 1\<rparr> k))"

definition initial_pageinfo :: "'b hwsyms_scheme \<Rightarrow> u64 \<Rightarrow> physical_pageinfo" where
  "initial_pageinfo syms addr =
     (let own = (if physical_memory_isreserved addr then PO_RESERVED
                 else if (addr \<ge> KERNEL_START_ADDR \<and> addr < sym_end syms)
                         \<or> addr = KERNEL_STACK_TOP - PAGESIZE then PO_KERNEL
                 else PO_FREE)
      in \<lparr>owner = to_i8 own, refcount = (if own \<noteq> PO_FREE then 1 else 0)\<rparr>)"

definition page_addresses :: "u64 \<Rightarrow> u64 \<Rightarrow> u64 list" where
  "page_addresses a e = map (\<lambda>i. a + PAGESIZE * of_nat i) [0..<(unat e + 4095 - unat a) div 4096]"

fun pageinfo_init_loop :: "'b hwsyms_scheme \<Rightarrow> u64 list \<Rightarrow> kstate \<Rightarrow> kstate" where
  "pageinfo_init_loop syms [] k = k"
| "pageinfo_init_loop syms (addr # addrs) k =
     pageinfo_init_loop syms addrs (set_pageinfo (nat (PAGENUMBER addr)) (initial_pageinfo syms addr) k)"

definition pageinfo_init :: "'b hwsyms_scheme \<Rightarrow> kstate \<Rightarrow> kstate" where
  "pageinfo_init syms k = pageinfo_init_loop syms (page_addresses 0 MEMSIZE_PHYSICAL) k"

section \<open>Running processes\<close>

definition kset_pagetable :: "'b hwsyms_scheme \<Rightarrow> u64 \<Rightarrow> kstate \<Rightarrow> (unit, kstate) outcome" where
  "kset_pagetable syms pt k =
     bindM (run_chk (set_pagetable syms (m_mem k) (kernel_pagetable k) pt) k)
       (\<lambda>cr3 k. Inr ((), k\<lparr>m_cr3 := cr3\<rparr>))"

definition run :: "'b hwsyms_scheme \<Rightarrow> nat \<Rightarrow> kstate \<Rightarrow> (x86_64_registers, kstate) outcome" where
  "run syms p k =
     bindM (assertM ''kernel.c'' 313 ''p->p_state == P_RUNNABLE'' (p_state (processes k ! p) = P_RUNNABLE) k) (\<lambda>_ k.
     bindM (kset_pagetable syms (p_pagetable (processes k ! p)) (k\<lparr>current := p\<rparr>)) (\<lambda>_ k.
     Inr (p_registers (processes k ! p), k)))"

text \<open>The loop of \<open>schedule\<close> from process \<open>pid\<close>. It spins while nothing is runnable: \<open>None\<close>.\<close>

partial_function (option) schedule_loop ::
  "'b hwsyms_scheme \<Rightarrow> nat \<Rightarrow> kstate \<Rightarrow> (x86_64_registers, kstate) outcome option" where
  "schedule_loop syms pid k =
     (let pid' = (pid + 1) mod NPROC
      in if p_state (processes k ! pid') = P_RUNNABLE then Some (run syms pid' k)
         else case check_keyboard syms k of
                Inl r \<Rightarrow> Some (Inl r)
              | Inr (_, k) \<Rightarrow> schedule_loop syms pid' k)"

definition schedule :: "'b hwsyms_scheme \<Rightarrow> kstate \<Rightarrow> (x86_64_registers, kstate) outcome option" where
  "schedule syms k = schedule_loop syms (nat (p_pid (processes k ! current k))) k"

section \<open>Self-checks\<close>

definition check_page_table_mappings :: "'b hwsyms_scheme \<Rightarrow> u64 \<Rightarrow> kstate \<Rightarrow> (unit, kstate) outcome" where
  "check_page_table_mappings syms pt k =
     bindM (assertM ''kernel.c'' 355 ''PTE_ADDR(pt) == (uintptr_t) pt'' (PTE_ADDR pt = pt) k) (\<lambda>_ k.
     bindM (forM (page_addresses KERNEL_START_ADDR (sym_end syms)) (\<lambda>va k.
       let vam = virtual_memory_lookup (m_mem k) pt va in
       bindM (if vam_pa vam \<noteq> va
              then con_vprintf (CPOS 22 0) 0xC000 ''%p vs %p\<newline>'' [VPtr va, VPtr (vam_pa vam)] k
              else Inr (0, k)) (\<lambda>_ k.
       bindM (assertM ''kernel.c'' 364 ''vam.pa == va'' (vam_pa vam = va) k) (\<lambda>_ k.
       if va \<ge> sym_start_data syms
       then assertM ''kernel.c'' 366 ''vam.perm & PTE_W'' ((of_int (vam_perm vam) :: u64) AND PTE_W \<noteq> 0) k
       else Inr ((), k)))) k) (\<lambda>_ k.
     let kstack = KERNEL_STACK_TOP - PAGESIZE;
         vam = virtual_memory_lookup (m_mem k) pt kstack in
     bindM (assertM ''kernel.c'' 373 ''vam.pa == kstack'' (vam_pa vam = kstack) k) (\<lambda>_ k.
     assertM ''kernel.c'' 374 ''vam.perm & PTE_W'' ((of_int (vam_perm vam) :: u64) AND PTE_W \<noteq> 0) k)))"

text \<open>The first argument is \<open>3 - level\<close>, the number of levels below this table.\<close>

primrec check_page_table_ownership_level :: "nat \<Rightarrow> u64 \<Rightarrow> int \<Rightarrow> int \<Rightarrow> kstate \<Rightarrow> (unit, kstate) outcome" where
  "check_page_table_ownership_level 0 = (\<lambda>pt own rc k.
     bindM (assertM ''kernel.c'' 403 ''PAGENUMBER(pt) < NPAGES'' (PAGENUMBER pt < int NPAGES) k) (\<lambda>_ k.
     bindM (pageinfo_at (PAGENUMBER pt) k) (\<lambda>info k.
     bindM (assertM ''kernel.c'' 404 ''pageinfo[PAGENUMBER(pt)].owner == owner'' (owner info = own) k) (\<lambda>_ k.
     assertM ''kernel.c'' 405 ''pageinfo[PAGENUMBER(pt)].refcount == refcount'' (refcount info = rc) k))))"
| "check_page_table_ownership_level (Suc n) = (\<lambda>pt own rc k.
     bindM (assertM ''kernel.c'' 403 ''PAGENUMBER(pt) < NPAGES'' (PAGENUMBER pt < int NPAGES) k) (\<lambda>_ k.
     bindM (pageinfo_at (PAGENUMBER pt) k) (\<lambda>info k.
     bindM (assertM ''kernel.c'' 404 ''pageinfo[PAGENUMBER(pt)].owner == owner'' (owner info = own) k) (\<lambda>_ k.
     bindM (assertM ''kernel.c'' 405 ''pageinfo[PAGENUMBER(pt)].refcount == refcount'' (refcount info = rc) k) (\<lambda>_ k.
     forM [0..<NPAGETABLEENTRIES] (\<lambda>index k.
       let pe = pt_entry (m_mem k) pt (of_nat index)
       in if pe \<noteq> 0 then check_page_table_ownership_level n (PTE_ADDR pe) own 1 k else Inr ((), k)) k)))))"

definition expected_refcount :: "kstate \<Rightarrow> int" where
  "expected_refcount k =
     1 + int (length (filter (\<lambda>p. p_state p \<noteq> P_FREE \<and> p_pagetable p = kernel_pagetable k) (processes k)))"

definition check_page_table_ownership :: "u64 \<Rightarrow> int \<Rightarrow> kstate \<Rightarrow> (unit, kstate) outcome" where
  "check_page_table_ownership pt pid k =
     (if pt = kernel_pagetable k
      then check_page_table_ownership_level 3 pt PO_KERNEL (expected_refcount k) k
      else check_page_table_ownership_level 3 pt pid 1 k)"

definition check_virtual_memory :: "'b hwsyms_scheme \<Rightarrow> kstate \<Rightarrow> (unit, kstate) outcome" where
  "check_virtual_memory syms k =
     bindM (assertM ''kernel.c'' 424 ''processes[0].p_state == P_FREE'' (p_state (processes k ! 0) = P_FREE) k) (\<lambda>_ k.
     bindM (check_page_table_mappings syms (kernel_pagetable k) k) (\<lambda>_ k.
     bindM (check_page_table_ownership (kernel_pagetable k) (- 1) k) (\<lambda>_ k.
     bindM (forM [0..<NPROC] (\<lambda>pid k.
       let p = processes k ! pid in
       if p_state p \<noteq> P_FREE \<and> p_pagetable p \<noteq> kernel_pagetable k
       then bindM (check_page_table_mappings syms (p_pagetable p) k)
              (\<lambda>_ k. check_page_table_ownership (p_pagetable p) (int pid) k)
       else Inr ((), k)) k) (\<lambda>_ k.
     forM [0..<NPAGES] (\<lambda>pn k.
       let info = pageinfo k ! pn in
       if refcount info > 0 \<and> owner info \<ge> 0
       then if owner info < int NPROC
            then assertM ''kernel.c'' 447 ''processes[pageinfo[pn].owner].p_state != P_FREE''
                   (p_state (processes k ! nat (owner info)) \<noteq> P_FREE) k
            else Inl (OutOfBounds, k)
       else Inr ((), k)) k))))"

end
