(* ===== verification/Loader.thy ===== *)
theory Loader
  imports KernelState
begin

text \<open>
  The program loader (\<open>k-loader.c\<close>, \<open>elf.h\<close>). An ELF image is bytes of memory at the address that
  the linker gives to it; its headers are read as little-endian fields. \<open>program_load_segment\<close>
  maps every page of the segment to itself before it copies, and kernel memory is mapped to itself
  too, so the copy works on physical addresses.
\<close>

section \<open>ELF structures\<close>

abbreviation ELF_MAGIC :: u32 where "ELF_MAGIC \<equiv> 0x464C457F"
abbreviation ELF_PTYPE_LOAD :: u32 where "ELF_PTYPE_LOAD \<equiv> 1"

record elf_header =
  e_magic :: u32
  e_entry :: u64
  e_phoff :: u64
  e_phnum :: u16

record elf_program =
  ph_type :: u32
  ph_offset :: u64
  ph_va :: u64
  ph_filesz :: u64
  ph_memsz :: u64

definition read_elf_header :: "memory \<Rightarrow> u64 \<Rightarrow> elf_header" where
  "read_elf_header m eh =
     \<lparr>e_magic = ucast (read64 m eh), e_entry = read64 m (eh + 0x18), e_phoff = read64 m (eh + 0x20),
      e_phnum = ucast (read64 m (eh + 0x38))\<rparr>"

definition read_elf_program :: "memory \<Rightarrow> u64 \<Rightarrow> elf_program" where
  "read_elf_program m ph =
     \<lparr>ph_type = ucast (read64 m ph), ph_offset = read64 m (ph + 0x08), ph_va = read64 m (ph + 0x10),
      ph_filesz = read64 m (ph + 0x20), ph_memsz = read64 m (ph + 0x28)\<rparr>"

section \<open>Loading\<close>

text \<open>\<open>virtual_memory_map\<close> on the kernel's state; the allocator may change all of it.\<close>

definition kvm_map ::
  "u64 \<Rightarrow> u64 \<Rightarrow> u64 \<Rightarrow> u64 \<Rightarrow> int \<Rightarrow> kstate allocator \<Rightarrow> kstate \<Rightarrow> (int, kstate) outcome" where
  "kvm_map pt va pa sz perm allocator k =
     bindM (run_chk (virtual_memory_map pt va pa sz perm allocator (m_mem k, k)) k)
       (\<lambda>(r, m, k') _. Inr (r, k'\<lparr>m_mem := m\<rparr>))"

lemma assign_success:
  "assign_physical_page addr own k = (r, k') \<Longrightarrow> 0 \<le> r \<Longrightarrow> addr < MEMSIZE_PHYSICAL"
  by (auto simp: assign_physical_page_def Let_def split: if_splits)

text \<open>
  The allocation loop from \<open>addr\<close> up to \<open>end_mem\<close>; the result is the \<open>int\<close> that the function
  returns, 0 when the loop ran to its end. It stops at the end of physical memory at the latest,
  where \<open>assign_physical_page\<close> fails.
\<close>

function load_pages :: "nat \<Rightarrow> kstate allocator \<Rightarrow> u64 \<Rightarrow> u64 \<Rightarrow> kstate \<Rightarrow> (int, kstate) outcome" where
  "load_pages p allocator end_mem addr k =
     (if addr < end_mem
      then let pr = processes k ! p;
               failed = (\<lambda>k. bindM (con_vprintf (CPOS 22 0) 0xC000
                   ''program_load_segment(pid %d): can't assign address %p\<newline>''
                   [VInt (of_int (p_pid pr)), VPtr addr] k) (\<lambda>_ k. Inr (- 1, k)));
               (r, k1) = assign_physical_page addr (p_pid pr) k
           in if r < 0 then failed k1
              else bindM (kvm_map (p_pagetable pr) addr addr PAGESIZE 7 allocator k1) (\<lambda>r k.
                   if r < 0 then failed k
                   else load_pages p allocator end_mem (addr + PAGESIZE) k)
      else Inr (0, k))"
  by pat_completeness auto
termination
proof (relation "measure (\<lambda>(p, allocator, end_mem, addr, k). 0x201000 - unat addr)", goal_cases)
  case (2 p allocator end_mem addr k pr failed x r k1 r' k2)
  then have "addr < MEMSIZE_PHYSICAL" by (metis assign_success not_less)
  then have "unat addr < 0x200000" by (simp add: word_less_nat_alt)
  then show ?case by (simp add: unat_add_u64)
qed simp

declare load_pages.simps [simp del]

definition program_load_segment ::
  "'b hwsyms_scheme \<Rightarrow> nat \<Rightarrow> elf_program \<Rightarrow> u64 \<Rightarrow> kstate allocator \<Rightarrow> kstate \<Rightarrow> (int, kstate) outcome" where
  "program_load_segment syms p ph src allocator k =
     (let va = ph_va ph;
          end_file = va + ph_filesz ph;
          end_mem = va + ph_memsz ph;
          va = PTE_ADDR va
      in bindM (load_pages p allocator end_mem va k) (\<lambda>r k.
         if r < 0 then Inr (r, k)
         else bindM (kset_pagetable syms (p_pagetable (processes k ! p)) k) (\<lambda>_ k.
              let m = fst (memcpy (m_mem k) va src (end_file - va));
                  m = fst (memset m end_file 0 (end_mem - end_file))
              in bindM (kset_pagetable syms (kernel_pagetable k) (k\<lparr>m_mem := m\<rparr>)) (\<lambda>_ k.
                 Inr (0, k)))))"

text \<open>The loop over the program headers still to be read, with the address of the next one.\<close>

fun load_segments ::
  "'b hwsyms_scheme \<Rightarrow> nat \<Rightarrow> kstate allocator \<Rightarrow> u64 \<Rightarrow> nat \<Rightarrow> u64 \<Rightarrow> kstate \<Rightarrow> (int, kstate) outcome" where
  "load_segments syms p allocator eh 0 ph k = Inr (0, k)"
| "load_segments syms p allocator eh (Suc n) ph k =
     (let prog = read_elf_program (m_mem k) ph in
      bindM (if ph_type prog = ELF_PTYPE_LOAD
             then program_load_segment syms p prog (eh + ph_offset prog) allocator k
             else Inr (0, k)) (\<lambda>r k.
      if r < 0 then Inr (- 1, k) else load_segments syms p allocator eh n (ph + 56) k))"

definition program_load ::
  "'b hwsyms_scheme \<Rightarrow> nat \<Rightarrow> int \<Rightarrow> kstate allocator \<Rightarrow> kstate \<Rightarrow> (int, kstate) outcome" where
  "program_load syms p programnumber allocator k =
     bindM (assertM ''k-loader.c'' 52 ''programnumber >= 0 && programnumber < nprograms''
              (0 \<le> programnumber \<and> programnumber < int (length (ramimages syms))) k) (\<lambda>_ k.
     let eh = fst (ramimages syms ! nat programnumber) in
     bindM (assertM ''k-loader.c'' 54 ''eh->e_magic == ELF_MAGIC''
              (e_magic (read_elf_header (m_mem k) eh) = ELF_MAGIC) k) (\<lambda>_ k.
     let h = read_elf_header (m_mem k) eh in
     bindM (load_segments syms p allocator eh (unat (e_phnum h)) (eh + e_phoff h) k) (\<lambda>r k.
     if r < 0 then Inr (- 1, k)
     else let pr = processes k ! p;
              regs = (p_registers pr)\<lparr>reg_rip := e_entry (read_elf_header (m_mem k) eh)\<rparr>
          in Inr (0, set_proc p (pr\<lparr>p_registers := regs\<rparr>) k))))"

end
