(* ===== verification/MemShow.thy ===== *)
theory MemShow
  imports KernelState
begin

text \<open>
  The memory pictures and dumps of \<open>kernel.c\<close>: \<open>memshow_physical\<close>, \<open>memshow_virtual\<close>,
  \<open>memshow_virtual_animate\<close>, \<open>memdump_physical\<close>, \<open>memdump_virtual\<close> and \<open>memdump_virtual_all\<close>.
  The colour table is read with a bounds check whose failure is the outcome \<open>OutOfBounds\<close>.
\<close>

definition memstate_colors :: "u16 list" where
  "memstate_colors =
     map (\<lambda>(c, color). of_char c OR color)
       [(CHR ''K'', 0x0D00), (CHR ''R'', 0x0700), (CHR ''.'', 0x0700), (CHR ''1'', 0x0C00),
        (CHR ''2'', 0x0A00), (CHR ''3'', 0x0900), (CHR ''4'', 0x0E00), (CHR ''5'', 0x0F00),
        (CHR ''6'', 0x0C00), (CHR ''7'', 0x0A00), (CHR ''8'', 0x0900), (CHR ''9'', 0x0E00),
        (CHR ''A'', 0x0F00), (CHR ''B'', 0x0C00), (CHR ''C'', 0x0A00), (CHR ''D'', 0x0900),
        (CHR ''E'', 0x0E00), (CHR ''F'', 0x0F00)]"

definition page_color :: "physical_pageinfo \<Rightarrow> kstate \<Rightarrow> (u16, kstate) outcome" where
  "page_color info k =
     (let own = (if refcount info = 0 then PO_FREE else owner info);
          i = own - PO_KERNEL
      in if 0 \<le> i \<and> i < int (length memstate_colors) then Inr (memstate_colors ! nat i, k)
         else Inl (OutOfBounds, k))"

definition darken :: "physical_pageinfo \<Rightarrow> u16 \<Rightarrow> u16" where
  "darken info color = (if refcount info > 1 then color AND 0x77FF else color)"

definition set_console :: "int \<Rightarrow> u16 \<Rightarrow> kstate \<Rightarrow> (unit, kstate) outcome" where
  "set_console cpos v k =
     (if 0 \<le> cpos \<and> cpos < int (CONSOLE_ROWS * CONSOLE_COLUMNS)
      then Inr ((), k\<lparr>m_console := (m_console k)(nat cpos := v)\<rparr>) else Inl (OutOfBounds, k))"

definition memshow_physical_page :: "nat \<Rightarrow> kstate \<Rightarrow> (unit, kstate) outcome" where
  "memshow_physical_page n k =
     bindM (if n mod 64 = 0
            then con_vprintf (CPOS (1 + int n div 64) 3) 0x0F00 ''0x%06X '' [VInt (of_nat (n * 4096))] k
            else Inr (0, k)) (\<lambda>_ k.
     let info = pageinfo k ! n in
     bindM (page_color info k) (\<lambda>color k.
     set_console (CPOS (1 + int n div 64) (12 + int n mod 64)) (darken info color) k))"

definition memshow_physical :: "kstate \<Rightarrow> (unit, kstate) outcome" where
  "memshow_physical k =
     bindM (con_vprintf (CPOS 0 32) 0x0F00 ''PHYSICAL MEMORY'' [] k) (\<lambda>_ k.
     forM [0..<NPAGES] memshow_physical_page k)"

definition reverse_video :: "u16 \<Rightarrow> u16" where
  "reverse_video color =
     push_bit 4 (color AND 0x0F00) OR drop_bit 4 (color AND 0xF000) OR (color AND 0x00FF)"

definition memshow_virtual_page :: "u64 \<Rightarrow> u64 \<Rightarrow> kstate \<Rightarrow> (unit, kstate) outcome" where
  "memshow_virtual_page pagetable va k =
     (let vam = virtual_memory_lookup (m_mem k) pagetable va in
      bindM (if vam_pn vam < 0 then Inr (0x20, k)
             else bindM (assertM ''kernel.c'' 500 ''vam.pa < MEMSIZE_PHYSICAL'' (vam_pa vam < MEMSIZE_PHYSICAL) k) (\<lambda>_ k.
                  bindM (pageinfo_at (vam_pn vam) k) (\<lambda>info k.
                  bindM (page_color info k) (\<lambda>color k.
                  Inr (darken info (if (of_int (vam_perm vam) :: u64) AND PTE_U \<noteq> 0
                                    then reverse_video color else color), k))))) (\<lambda>color k.
      let n = PAGENUMBER va in
      bindM (if n mod 64 = 0
             then con_vprintf (CPOS (11 + n div 64) 3) 0x0F00 ''0x%06X '' [VLong va] k
             else Inr (0, k)) (\<lambda>_ k.
      set_console (CPOS (11 + n div 64) (12 + n mod 64)) color k)))"

definition memshow_virtual :: "u64 \<Rightarrow> string \<Rightarrow> kstate \<Rightarrow> (unit, kstate) outcome" where
  "memshow_virtual pagetable name k =
     bindM (assertM ''kernel.c'' 491 ''(uintptr_t) pagetable == PTE_ADDR(pagetable)'' (pagetable = PTE_ADDR pagetable) k) (\<lambda>_ k.
     bindM (con_vprintf (CPOS 10 26) 0x0F00 ''VIRTUAL ADDRESS SPACE FOR %s'' [VStr name] k) (\<lambda>_ k.
     forM (page_addresses 0 MEMSIZE_VIRTUAL) (memshow_virtual_page pagetable) k))"

text \<open>\<open>snprintf\<close> into a local array of \<open>sz\<close> bytes, read back as a string.\<close>

definition local_snprintf :: "nat \<Rightarrow> string \<Rightarrow> varg list \<Rightarrow> kstate \<Rightarrow> (string, kstate) outcome" where
  "local_snprintf sz fmt args k =
     (case snprintf (\<lambda>_. 0) 0 (of_nat sz) fmt args of
        None \<Rightarrow> Inl (VarargMismatch, k)
      | Some (n, m) \<Rightarrow> Inr (map (\<lambda>i. char_of (unat (m (of_nat i)))) [0..<nat n], k))"

text \<open>The loop that skips free slots, at most up to \<open>2 * NPROC + 1\<close>.\<close>

function skip_free :: "proc list \<Rightarrow> int \<Rightarrow> int" where
  "skip_free procs showing =
     (if showing \<le> 2 * int NPROC \<and> p_state (procs ! nat (showing mod int NPROC)) = P_FREE
      then skip_free procs (showing + 1) else showing)"
  by pat_completeness auto
termination
  by (relation "measure (\<lambda>(procs, showing). nat (2 * int NPROC + 1 - showing))") auto

declare skip_free.simps [simp del]

definition memshow_virtual_animate :: "kstate \<Rightarrow> (unit, kstate) outcome" where
  "memshow_virtual_animate k =
     (let k = (if anim_last_ticks k = 0 \<or> ticks k - anim_last_ticks k \<ge> 100 div 2
               then k\<lparr>anim_last_ticks := ticks k, anim_showing := anim_showing k + 1\<rparr> else k);
          showing = skip_free (processes k) (anim_showing k) mod int NPROC;
          k = k\<lparr>anim_showing := showing\<rparr>
      in if p_state (processes k ! nat showing) \<noteq> P_FREE
         then bindM (local_snprintf 4 ''%d '' [VInt (of_int showing)] k) (\<lambda>s k.
              memshow_virtual (p_pagetable (processes k ! nat showing)) s k)
         else Inr ((), k))"

definition memdump_physical :: "kstate \<Rightarrow> (unit, kstate) outcome" where
  "memdump_physical k =
     bindM (log_printf ''PM_DUMP %u '' [VInt (ticks k)] k) (\<lambda>_ k.
     bindM (forM [0..<NPAGES] (\<lambda>n k.
       let info = pageinfo k ! n in
       log_printf ''%u %u '' [VInt (of_int (owner info mod 256)), VInt (of_int (refcount info))] k) k) (\<lambda>_ k.
     log_printf ''\<newline>'' [] k))"

definition memdump_virtual :: "u64 \<Rightarrow> string \<Rightarrow> kstate \<Rightarrow> (unit, kstate) outcome" where
  "memdump_virtual pagetable name k =
     bindM (log_printf ''VM_DUMP %s %u '' [VStr name, VInt (ticks k)] k) (\<lambda>_ k.
     bindM (assertM ''kernel.c'' 570 ''(uintptr_t)pagetable == PTE_ADDR(pagetable)'' (pagetable = PTE_ADDR pagetable) k) (\<lambda>_ k.
     bindM (forM (page_addresses 0 MEMSIZE_VIRTUAL) (\<lambda>va k.
       let vam = virtual_memory_lookup (m_mem k) pagetable va in
       if vam_pn vam < 0 then log_printf ''0 0 0 '' [] k
       else bindM (pageinfo_at (vam_pn vam) k) (\<lambda>info k.
            log_printf ''%u %u %u '' [VInt (of_int (owner info mod 256)),
              VInt (of_int (refcount info mod 256)), VInt (of_int (vam_perm vam))] k)) k) (\<lambda>_ k.
     log_printf ''\<newline>'' [] k)))"

definition memdump_virtual_all :: "kstate \<Rightarrow> (unit, kstate) outcome" where
  "memdump_virtual_all k =
     forM [0..<NPROC] (\<lambda>i k.
       let p = processes k ! i in
       if p_state p \<noteq> P_FREE
       then bindM (local_snprintf 4 ''%d '' [VInt (of_nat i)] k) (\<lambda>s k. memdump_virtual (p_pagetable p) s k)
       else Inr ((), k)) k"

end
