(* ===== verification/Kernel.thy ===== *)
theory Kernel
  imports Loader MemShow
begin

text \<open>
  The kernel proper (\<open>kernel.c\<close>): \<open>kernel\<close>, \<open>process_setup\<close> and the exception handler with its
  system calls. \<open>exception\<close> and \<open>kernel\<close> end in user mode with the registers to load, stop, or spin
  forever in \<open>schedule\<close> (\<open>None\<close>).
\<close>

abbreviation PROC_SIZE :: u64 where "PROC_SIZE \<equiv> 0x40000"
abbreviation HZ :: int where "HZ \<equiv> 100"
abbreviation PFERR_PRESENT :: u64 where "PFERR_PRESENT \<equiv> 1"
abbreviation PFERR_WRITE :: u64 where "PFERR_WRITE \<equiv> 2"
abbreviation PFERR_USER :: u64 where "PFERR_USER \<equiv> 4"
abbreviation INT_SYS_PANIC :: nat where "INT_SYS_PANIC \<equiv> 48"
abbreviation INT_SYS_GETPID :: nat where "INT_SYS_GETPID \<equiv> 49"
abbreviation INT_SYS_YIELD :: nat where "INT_SYS_YIELD \<equiv> 50"
abbreviation INT_SYS_PAGE_ALLOC :: nat where "INT_SYS_PAGE_ALLOC \<equiv> 51"
abbreviation INT_SYS_FORK :: nat where "INT_SYS_FORK \<equiv> 52"
abbreviation INT_SYS_EXIT :: nat where "INT_SYS_EXIT \<equiv> 53"

section \<open>Boot\<close>

definition hardware_init :: "'b hwsyms_scheme \<Rightarrow> kstate \<Rightarrow> (unit, kstate) outcome" where
  "hardware_init syms k =
     (let k = interrupt_init (k\<lparr>m_cpu := segments_init syms (m_cpu k)\<rparr>) in
      bindM (run_chk (virtual_memory_init syms (m_mem k)) k) (\<lambda>(kp, m) k.
      Inr ((), k\<lparr>m_mem := m, kernel_pagetable := kp, m_cr3 := kp\<rparr>)))"

definition update_regs :: "nat \<Rightarrow> (x86_64_registers \<Rightarrow> x86_64_registers) \<Rightarrow> kstate \<Rightarrow> kstate" where
  "update_regs i f k = (let p = processes k ! i in set_proc i (p\<lparr>p_registers := f (p_registers p)\<rparr>) k)"

definition update_state :: "nat \<Rightarrow> procstate \<Rightarrow> kstate \<Rightarrow> kstate" where
  "update_state i st k = set_proc i ((processes k ! i)\<lparr>p_state := st\<rparr>) k"

definition process_setup :: "'b hwsyms_scheme \<Rightarrow> nat \<Rightarrow> int \<Rightarrow> kstate \<Rightarrow> (unit, kstate) outcome" where
  "process_setup syms pid program_number k =
     (let k = update_regs pid (\<lambda>_. process_init 0) k;
          k = set_proc pid ((processes k ! pid)\<lparr>p_pagetable := kernel_pagetable k\<rparr>) k;
          n = nat (PAGENUMBER (kernel_pagetable k));
          info = pageinfo k ! n;
          k = set_pageinfo n (info\<lparr>refcount := to_i8 (refcount info + 1)\<rparr>) k
      in bindM (program_load syms pid program_number None k) (\<lambda>r k.
         bindM (assertM ''kernel.c'' 144 ''r >= 0'' (r \<ge> 0) k) (\<lambda>_ k.
         let k = update_regs pid (\<lambda>r. r\<lparr>reg_rsp := PROC_START_ADDR + PROC_SIZE * of_nat pid\<rparr>) k;
             stack_page = reg_rsp (p_registers (processes k ! pid)) - PAGESIZE;
             (_, k) = assign_physical_page stack_page (int pid) k
         in bindM (kvm_map (p_pagetable (processes k ! pid)) stack_page stack_page PAGESIZE 7 None k) (\<lambda>_ k.
            Inr ((), update_state pid P_RUNNABLE k)))))"

definition free_proc :: "nat \<Rightarrow> proc" where
  "free_proc i = \<lparr>p_pid = int i, p_registers = zero_registers, p_state = P_FREE, p_pagetable = 0\<rparr>"

text \<open>The initialisation at the start of \<open>kernel\<close>, up to the process descriptors.\<close>

definition kernel_init :: "'b kparams_scheme \<Rightarrow> kstate \<Rightarrow> (unit, kstate) outcome" where
  "kernel_init params k =
     bindM (hardware_init params k) (\<lambda>_ k.
     let k = pageinfo_init params k;
         (cpos, con) = console_clear (m_console k);
         k = timer_init HZ (k\<lparr>m_console := con, m_cursorpos := cpos\<rparr>)
     in Inr ((), k\<lparr>processes := map free_proc [0..<NPROC]\<rparr>))"

definition kernel :: "'b kparams_scheme \<Rightarrow> string option \<Rightarrow> kstate \<Rightarrow> (x86_64_registers, kstate) outcome" where
  "kernel params command k =
     bindM (kernel_init params k) (\<lambda>_ k.
     bindM (if FORCE_FORK params then process_setup params 1 4 k
            else if command = Some ''fork'' then process_setup params 1 4 k
            else if command = Some ''forkexit'' then process_setup params 1 5 k
            else forM [1, 2, 3, 4] (\<lambda>i k. process_setup params i (int i - 1) k) k)
       (\<lambda>_ k. run params 1 k))"

section \<open>Exceptions\<close>

text \<open>The part of \<open>exception\<close> before the switch: checks, pictures, dumps and the keyboard.\<close>

definition exception_checks :: "'b kparams_scheme \<Rightarrow> x86_64_registers \<Rightarrow> kstate \<Rightarrow> (unit, kstate) outcome" where
  "exception_checks params reg k =
     (if unat (reg_intno reg) \<noteq> INT_PAGEFAULT \<or> reg_err reg AND PFERR_USER \<noteq> 0
      then bindM (check_virtual_memory params k) (\<lambda>_ k.
           bindM (memshow_physical k) (\<lambda>_ k.
           bindM (memshow_virtual_animate k) (\<lambda>_ k.
           if TICK_LIMIT params \<noteq> 0
           then bindM (if ticks k = TICK_LIMIT params then poweroff k else Inr ((), k)) (\<lambda>_ k.
                if unat (reg_intno reg) = INT_TIMER \<and> ticks k mod 100 = 0
                then bindM (memdump_physical k) (\<lambda>_ k. memdump_virtual_all k)
                else Inr ((), k))
           else Inr ((), k))))
      else Inr ((), k))"

definition handle_page_alloc :: "kstate \<Rightarrow> (unit, kstate) outcome" where
  "handle_page_alloc k =
     (let p = processes k ! current k;
          addr = reg_rdi (p_registers p);
          (r, k) = assign_physical_page addr (p_pid p) k
      in bindM (if r \<ge> 0 then kvm_map (p_pagetable p) addr addr PAGESIZE 7 None k else Inr (0, k)) (\<lambda>_ k.
         Inr ((), update_regs (current k) (\<lambda>regs. regs\<lparr>reg_rax := of_int r\<rparr>) k)))"

definition handle_page_fault :: "x86_64_registers \<Rightarrow> kstate \<Rightarrow> (unit, kstate) outcome" where
  "handle_page_fault reg k =
     (let addr = cr2 k;
          operation = (if reg_err reg AND PFERR_WRITE \<noteq> 0 then ''write'' else ''read'');
          problem = (if reg_err reg AND PFERR_PRESENT \<noteq> 0 then ''protection problem'' else ''missing page'')
      in if reg_err reg AND PFERR_USER = 0
         then panic (Some (''Kernel page fault for %p (%s %s, rip=%p)!\<newline>'',
                [VPtr addr, VStr operation, VStr problem, VPtr (reg_rip reg)])) k
         else bindM (con_vprintf (CPOS 24 0) 0x0C00 ''Process %d page fault for %p (%s %s, rip=%p)!\<newline>''
                [VInt (of_int (p_pid (processes k ! current k))), VPtr addr, VStr operation, VStr problem,
                 VPtr (reg_rip reg)] k) (\<lambda>_ k.
              Inr ((), update_state (current k) P_BROKEN k)))"

text \<open>The end of \<open>exception\<close>: back to the current process, or to another one.\<close>

definition return_to_user :: "'b hwsyms_scheme \<Rightarrow> kstate \<Rightarrow> (x86_64_registers, kstate) outcome option" where
  "return_to_user syms k =
     (if p_state (processes k ! current k) = P_RUNNABLE then Some (run syms (current k) k) else schedule syms k)"

definition then_return ::
  "'b hwsyms_scheme \<Rightarrow> (unit, kstate) outcome \<Rightarrow> (x86_64_registers, kstate) outcome option" where
  "then_return syms r = (case r of Inl e \<Rightarrow> Some (Inl e) | Inr (_, k) \<Rightarrow> return_to_user syms k)"

definition dispatch :: "'b hwsyms_scheme \<Rightarrow> x86_64_registers \<Rightarrow> kstate \<Rightarrow> (x86_64_registers, kstate) outcome option" where
  "dispatch syms reg k =
     (let intno = unat (reg_intno reg); cur = current k in
      if intno = INT_SYS_PANIC then then_return syms (panic None k)
      else if intno = INT_SYS_GETPID
      then then_return syms (Inr ((), update_regs cur (\<lambda>regs. regs\<lparr>reg_rax := of_int (p_pid (processes k ! cur))\<rparr>) k))
      else if intno = INT_SYS_YIELD then schedule syms k
      else if intno = INT_SYS_PAGE_ALLOC then then_return syms (handle_page_alloc k)
      else if intno = INT_TIMER then schedule syms (k\<lparr>ticks := ticks k + 1\<rparr>)
      else if intno = INT_PAGEFAULT then then_return syms (handle_page_fault reg k)
      else then_return syms (panic (Some (''Unexpected exception %d!\<newline>'', [VLong (reg_intno reg)])) k))"

definition exception ::
  "'b kparams_scheme \<Rightarrow> x86_64_registers \<Rightarrow> kstate \<Rightarrow> (x86_64_registers, kstate) outcome option" where
  "exception params reg k =
     (let k = update_regs (current k) (\<lambda>_. reg) k in
      case bindM (kset_pagetable params (kernel_pagetable k) k) (\<lambda>_ k.
           bindM (exception_checks params reg (console_show_cursor (m_cursorpos k) k)) (\<lambda>_ k.
           check_keyboard params k)) of
        Inl e \<Rightarrow> Some (Inl e)
      | Inr (_, k) \<Rightarrow> dispatch params reg k)"

end
