(* ===== verification/KernelInv.thy ===== *)
theory KernelInv
  imports Kernel
begin

text \<open>
  The kernel invariant and the theorems about the whole kernel: its self-checks always pass, the
  exception handler keeps the invariant on every path, the scheduler is fair and live.
\<close>

section \<open>Formats that match their arguments\<close>

definition formats :: "string \<Rightarrow> varg list \<Rightarrow> bool" where
  "formats fmt args \<longleftrightarrow> (\<forall>color. printer_vprintf trace_putc [] color fmt args \<noteq> None)"

lemma con_vprintf_ok:
  assumes "formats fmt args"
  obtains cpos' con where "con_vprintf cpos color fmt args s = Inr (cpos', s\<lparr>m_console := con\<rparr>)"
proof -
  have "\<exists>r. console_vprintf (m_console s) cpos color fmt args = Some r"
    using assms printer_vprintf_replay [of console_putc _ "[]" color fmt args]
    unfolding console_vprintf_def formats_def by (auto simp: Let_def)
  then show thesis using that by (auto simp: con_vprintf_def)
qed

lemma log_printf_ok:
  assumes "formats fmt args"
  obtains s' where "log_printf fmt args s = Inr ((), s')" "only_io s s'"
proof -
  obtain out where "printer_vprintf trace_putc [] 0 fmt args = Some out"
    using assms by (auto simp: formats_def)
  then obtain s' where run: "printer_vprintf parallel_port_putc s 0 fmt args = Some s'"
    using printer_vprintf_replay [of parallel_port_putc s "[]" 0 fmt args] by simp
  moreover have "only_io s s'" using log_sink.vprintf_inv [OF run, of s] by simp
  ultimately show thesis using that by (simp add: log_printf_def log_vprintf_def)
qed

lemmas format_simps = formats_def format_spec_def parse_width_def parse_precision_def digit_char_def
  flag_chars_def Let_def

lemma formats_literal: "CHR ''%'' \<notin> set fmt \<Longrightarrow> formats fmt args"
  by (simp add: formats_def printer_vprintf_literal)

lemma formats_address: "formats ''0x%06X '' [VInt w]" "formats ''0x%06X '' [VLong v]"
  by (simp_all add: format_simps)

lemma formats_name: "formats ''VIRTUAL ADDRESS SPACE FOR %s'' [VStr s]"
  by (simp add: format_simps)

lemma formats_dump:
  "formats ''PM_DUMP %u '' [VInt a]" "formats ''%u %u '' [VInt a, VInt b]"
  "formats ''VM_DUMP %s %u '' [VStr s, VInt a]" "formats ''%u %u %u '' [VInt a, VInt b, VInt c]"
  by (simp_all add: format_simps)

lemma formats_fault: "formats ''Process %d page fault for %p (%s %s, rip=%p)!\<newline>'' [VInt a, VPtr b, VStr s, VStr t, VPtr c]"
  by (simp add: format_simps)

lemma formats_unexpected: "formats ''Unexpected exception %d!\<newline>'' [VLong a]"
  by (simp add: format_simps)

section \<open>The invariant\<close>

text \<open>
  What the linker script provides: the five page-table pages lie in the kernel image, the image
  ends below the kernel stack page, the code lies in physical memory and string literals below
  4 GB.
\<close>

definition layout_ok :: "'b kparams_scheme \<Rightarrow> bool" where
  "layout_ok params \<longleftrightarrow>
     tables_fit (sym_kernel_pagetables params)
     \<and> KERNEL_START_ADDR \<le> sym_kernel_pagetables params
     \<and> unat (sym_kernel_pagetables params) + 20480 \<le> unat (sym_end params)
     \<and> sym_end params \<le> KERNEL_STACK_TOP - PAGESIZE
     \<and> sym_default_int_handler params < MEMSIZE_PHYSICAL \<and> sym_virtual_memory_map params < MEMSIZE_PHYSICAL
     \<and> (\<forall>s. sym_literal params s < 0x100000000)"

definition table_page :: "u64 \<Rightarrow> nat \<Rightarrow> nat" where
  "table_page kp j = unat kp div 4096 + j"

definition processes_ok :: "u64 \<Rightarrow> proc list \<Rightarrow> bool" where
  "processes_ok kp ps \<longleftrightarrow> length ps = NPROC \<and> p_state (ps ! 0) = P_FREE
     \<and> (\<forall>i < NPROC. p_pid (ps ! i) = int i \<and> (p_state (ps ! i) \<noteq> P_FREE \<longrightarrow> p_pagetable (ps ! i) = kp))"

definition pages_ok :: "proc list \<Rightarrow> physical_pageinfo list \<Rightarrow> bool" where
  "pages_ok ps pis \<longleftrightarrow> length pis = NPAGES
     \<and> (\<forall>n < NPAGES. 0 \<le> refcount (pis ! n) \<and> (refcount (pis ! n) > 0 \<longrightarrow> PO_KERNEL \<le> owner (pis ! n)
          \<and> (0 \<le> owner (pis ! n) \<longrightarrow> owner (pis ! n) < int NPROC \<and> p_state (ps ! nat (owner (pis ! n))) \<noteq> P_FREE)))"

definition used :: "proc list \<Rightarrow> nat" where
  "used ps = length (filter (\<lambda>p. p_state p \<noteq> P_FREE) ps)"

definition tables_owned :: "u64 \<Rightarrow> proc list \<Rightarrow> physical_pageinfo list \<Rightarrow> bool" where
  "tables_owned kp ps pis \<longleftrightarrow>
     pis ! table_page kp 0 = \<lparr>owner = PO_KERNEL, refcount = 1 + int (used ps)\<rparr>
     \<and> (\<forall>j. 1 \<le> j \<and> j < 5 \<longrightarrow> pis ! table_page kp j = \<lparr>owner = PO_KERNEL, refcount = 1\<rparr>)"

definition kinv :: "'b kparams_scheme \<Rightarrow> kstate \<Rightarrow> bool" where
  "kinv params k \<longleftrightarrow>
     (let kp = sym_kernel_pagetables params in
      kernel_pagetable k = kp \<and> kernel_tables (m_mem k) kp \<and> processes_ok kp (processes k)
      \<and> pages_ok (processes k) (pageinfo k) \<and> tables_owned kp (processes k) (pageinfo k)
      \<and> 0 \<le> anim_showing k \<and> current k < NPROC)"

subsection \<open>The self-checks pass\<close>

lemma mem_page_addresses:
  assumes "va \<in> set (page_addresses a e)" "unat a \<le> unat e" "unat e + 4096 \<le> 2 ^ 48" "unat a mod 4096 = 0"
  obtains i where "va = a + 4096 * of_nat i" "unat va = unat a + 4096 * i" "unat va < unat e"
proof -
  obtain i where i: "va = a + 4096 * of_nat i" "i < (unat e + 4095 - unat a) div 4096"
    using assms(1) by (auto simp: page_addresses_def)
  then have "4096 * Suc i \<le> unat e + 4095 - unat a"
    by (metis Suc_leI less_eq_div_iff_mult_less_eq mult.commute zero_less_numeral)
  then have b: "unat a + 4096 * i < unat e" using assms(2) by simp
  have "unat (of_nat i :: u64) = i" using b assms(3) by (intro unat_of_nat_u64) simp
  then have "unat (4096 * of_nat i :: u64) = 4096 * i"
    using b assms(3) by (simp add: unat_mult_u64)
  then have "unat va = unat a + 4096 * i" using b assms(3) by (simp add: i(1) unat_add_u64)
  with b i(1) that show thesis by simp
qed

lemma layout_tables: "layout_ok params \<Longrightarrow> tables_fit (sym_kernel_pagetables params)"
  by (simp add: layout_ok_def)

lemma check_mappings_pass:
  assumes "layout_ok params" "kernel_tables (m_mem k) (sym_kernel_pagetables params)"
  shows "check_page_table_mappings params (sym_kernel_pagetables params) k = Inr ((), k)"
proof -
  define kp where "kp = sym_kernel_pagetables params"
  have fit: "tables_fit kp" using assms(1) by (simp add: layout_ok_def kp_def)
  have kp: "PTE_ADDR kp = kp" using fit by (simp add: u64_eq_iff_unat unat_PTE_ADDR tables_fit_def)
  have look: "virtual_memory_lookup (m_mem k) kp x = \<lparr>vam_pn = PAGENUMBER x, vam_pa = x, vam_perm = 7\<rparr>"
    if "unat x < 0x200000" for x
    using that identity_lookup [of "m_mem k" kp x] assms(2) by (simp add: kp_def word_less_nat_alt)
  have e: "unat KERNEL_START_ADDR \<le> unat (sym_end params)" "unat (sym_end params) \<le> 0x7F000"
    using assms(1) by (auto simp: layout_ok_def word_le_nat_alt)
  have "unat va < 0x200000" if "va \<in> set (page_addresses KERNEL_START_ADDR (sym_end params))" for va
    using mem_page_addresses [OF that e(1)] e(2) by fastforce
  then show ?thesis
    unfolding check_page_table_mappings_def kp_def [symmetric]
    by (simp add: kp forM_unchanged look)
qed

lemma PAGENUMBER_small:
  assumes "unat a < 0x200000"
  shows "PAGENUMBER a = int (unat a div 4096)"
proof -
  have "unat (drop_bit 12 a) = unat a div 4096" by (simp add: unat_drop_bit_u64)
  moreover have "unat a div 4096 < 2147483648" using assms by (simp add: less_mult_imp_div_less)
  ultimately show ?thesis
    unfolding PAGENUMBER_def using c_int_small [of "drop_bit 12 a"] by metis
qed

lemma table_page_number:
  assumes "tables_fit kp" "j < 5"
  shows "PAGENUMBER (table kp j) = int (table_page kp j)" "table_page kp j < NPAGES"
proof -
  have u: "unat (table kp j) = unat kp + 4096 * j" by (rule unat_table [OF assms])
  have small: "unat (table kp j) < 0x200000" using u assms by (simp add: tables_fit_def)
  have "unat (table kp j) div 4096 = table_page kp j"
    unfolding u table_page_def by simp
  then show "PAGENUMBER (table kp j) = int (table_page kp j)" "table_page kp j < NPAGES"
    using PAGENUMBER_small [OF small] small by (auto simp: less_mult_imp_div_less)
qed

definition level_passes :: "kstate \<Rightarrow> nat \<Rightarrow> u64 \<Rightarrow> int \<Rightarrow> bool" where
  "level_passes k n pt rc \<longleftrightarrow> check_page_table_ownership_level n pt PO_KERNEL rc k = Inr ((), k)"

lemma level_passes_leaf:
  assumes "tables_fit kp" "j < 5" "pageinfo k ! table_page kp j = \<lparr>owner = PO_KERNEL, refcount = rc\<rparr>"
  shows "level_passes k 0 (table kp j) rc"
  using table_page_number [OF assms(1,2)] assms(3) by (simp add: level_passes_def pageinfo_at_def)

lemma link_entry_nonzero [simp]: "link_entry kp j \<noteq> 0"
proof -
  have "bit (link_entry kp j) 0" by (simp add: link_entry_def bit_or_iff)
  then show ?thesis by (metis bit_0_eq bot_apply bot_bool_def)
qed

lemma level_passes_step:
  assumes "kernel_links (m_mem k) kp" "j < 3"
    and "pageinfo k ! table_page kp j = \<lparr>owner = PO_KERNEL, refcount = rc\<rparr>"
    and "level_passes k n (table kp (Suc j)) 1" and "j = 2 \<Longrightarrow> level_passes k n (table kp 4) 1"
  shows "level_passes k (Suc n) (table kp j) rc"
proof -
  note fit = kernel_links_fit [OF assms(1)]
  define step where "step = (\<lambda>index k. let pe = pt_entry (m_mem k) (table kp j) (of_nat index)
       in if pe \<noteq> 0 then check_page_table_ownership_level n (PTE_ADDR pe) PO_KERNEL 1 k else Inr ((), k))"
  have "step i k = Inr ((), k)" if "i \<in> set [0..<NPAGETABLEENTRIES]" for i
  proof -
    have u: "unat (of_nat i :: u64) = i" using that by (intro unat_of_nat_u64) simp
    then have "pt_entry (m_mem k) (table kp j) (of_nat i) =
        (if (of_nat i :: u64) = 0 then link_entry kp (Suc j) else if j = 2 \<and> (of_nat i :: u64) = 1 then link_entry kp 4 else 0)"
      using assms(1,2) that by (simp add: kernel_links_def)
    then show ?thesis
      using assms(2,4,5) link_entry_parts(1) [OF fit] by (auto simp: step_def Let_def level_passes_def)
  qed
  then have "forM [0..<NPAGETABLEENTRIES] step k = Inr ((), k)" by (rule forM_unchanged)
  then show ?thesis
    using table_page_number [OF fit, of j] assms(2,3)
    by (simp add: level_passes_def pageinfo_at_def step_def del: upt.simps)
qed

lemma expected_refcount_used:
  assumes "processes_ok kp (processes k)" "kernel_pagetable k = kp"
  shows "expected_refcount k = 1 + int (used (processes k))"
proof -
  have "filter (\<lambda>p. p_state p \<noteq> P_FREE \<and> p_pagetable p = kp) (processes k) =
      filter (\<lambda>p. p_state p \<noteq> P_FREE) (processes k)"
    using assms(1) by (intro filter_cong) (auto simp: processes_ok_def in_set_conv_nth)
  then show ?thesis by (simp add: expected_refcount_def used_def assms(2))
qed

lemma check_ownership_pass:
  assumes "kinv params k"
  shows "check_page_table_ownership (kernel_pagetable k) (- 1) k = Inr ((), k)"
proof -
  define kp where "kp = sym_kernel_pagetables params"
  have k: "kernel_pagetable k = kp" "kernel_links (m_mem k) kp" "processes_ok kp (processes k)"
    "tables_owned kp (processes k) (pageinfo k)"
    using assms by (simp_all add: kinv_def kp_def kernel_tables_def Let_def)
  note fit = kernel_links_fit [OF k(2)]
  have own: "pageinfo k ! table_page kp j = \<lparr>owner = PO_KERNEL, refcount = 1\<rparr>" if "1 \<le> j" "j < 5" for j
    using k(4) that by (simp add: tables_owned_def)
  have "level_passes k 0 (table kp 3) 1" "level_passes k 0 (table kp 4) 1"
    using level_passes_leaf [OF fit _ own] by simp_all
  then have two: "level_passes k (Suc 0) (table kp 2) 1"
    by (intro level_passes_step [OF k(2)]) (simp_all add: own)
  have one: "level_passes k (Suc (Suc 0)) (table kp 1) 1"
    by (rule level_passes_step [OF k(2)]) (use two in \<open>simp_all add: own numeral_2_eq_2\<close>)
  have "level_passes k (Suc (Suc (Suc 0))) (table kp 0) (1 + int (used (processes k)))"
    by (rule level_passes_step [OF k(2)]) (use k(4) one in \<open>simp_all add: tables_owned_def\<close>)
  then show ?thesis
    using expected_refcount_used [OF k(3,1)]
    by (simp add: check_page_table_ownership_def k(1) level_passes_def numeral_3_eq_3)
qed

lemma check_virtual_memory_pass:
  assumes "layout_ok params" "kinv params k"
  shows "check_virtual_memory params k = Inr ((), k)"
proof -
  define kp where "kp = sym_kernel_pagetables params"
  have k: "kernel_pagetable k = kp" "kernel_tables (m_mem k) kp" "processes_ok kp (processes k)"
    "pages_ok (processes k) (pageinfo k)"
    using assms(2) by (simp_all add: kinv_def kp_def Let_def)
  have "check_page_table_mappings params kp k = Inr ((), k)"
    using check_mappings_pass [OF assms(1)] k(2) by (simp add: kp_def)
  moreover have "check_page_table_ownership kp (- 1) k = Inr ((), k)"
    using check_ownership_pass [OF assms(2)] k(1) by simp
  moreover have "forM [0..<NPROC] (\<lambda>pid k.
       let p = processes k ! pid in
       if p_state p \<noteq> P_FREE \<and> p_pagetable p \<noteq> kernel_pagetable k
       then bindM (check_page_table_mappings params (p_pagetable p) k)
              (\<lambda>_ k. check_page_table_ownership (p_pagetable p) (int pid) k)
       else Inr ((), k)) k = Inr ((), k)"
    using k(1,3) by (intro forM_unchanged) (auto simp: processes_ok_def Let_def)
  moreover have "forM [0..<NPAGES] (\<lambda>pn k.
       let info = pageinfo k ! pn in
       if refcount info > 0 \<and> owner info \<ge> 0
       then if owner info < int NPROC
            then assertM ''kernel.c'' 447 ''processes[pageinfo[pn].owner].p_state != P_FREE''
                   (p_state (processes k ! nat (owner info)) \<noteq> P_FREE) k
            else Inl (OutOfBounds, k)
       else Inr ((), k)) k = Inr ((), k)"
    using k(4) by (intro forM_unchanged) (auto simp: pages_ok_def Let_def)
  ultimately show ?thesis
    using k(1,3) unfolding check_virtual_memory_def by (simp add: processes_ok_def del: upt.simps)
qed

subsection \<open>The pictures are drawn within bounds\<close>

definition only_console :: "kstate \<Rightarrow> kstate \<Rightarrow> bool" where
  "only_console k k' \<longleftrightarrow> k' = k\<lparr>m_console := m_console k'\<rparr>"

lemma only_console_refl [simp]: "only_console k k"
  by (simp add: only_console_def)

lemma only_console_upd [simp]: "only_console k k' \<Longrightarrow> only_console k (k'\<lparr>m_console := con\<rparr>)"
  by (cases k, cases k') (auto simp: only_console_def)

lemma only_console_fields:
  assumes "only_console k k'"
  shows "pageinfo k' = pageinfo k" "m_mem k' = m_mem k" "processes k' = processes k"
    "kernel_pagetable k' = kernel_pagetable k" "current k' = current k" "ticks k' = ticks k"
    "anim_showing k' = anim_showing k" "m_cr3 k' = m_cr3 k"
  using assms by (cases k, cases k', simp add: only_console_def)+

lemma con_vprintf_console:
  assumes "formats fmt args" "only_console k t"
  shows "\<exists>c t'. con_vprintf cpos color fmt args t = Inr (c, t') \<and> only_console k t'"
  using con_vprintf_ok [OF assms(1), of cpos color t] assms(2) by (metis only_console_upd)

definition color_ok :: "physical_pageinfo \<Rightarrow> bool" where
  "color_ok info \<longleftrightarrow> refcount info = 0 \<or> (PO_KERNEL \<le> owner info \<and> owner info < int NPROC)"

lemma page_color_ok:
  assumes "color_ok info"
  obtains color where "page_color info k = Inr (color, k)"
proof -
  define i where "i = (if refcount info = 0 then PO_FREE else owner info) - PO_KERNEL"
  have "0 \<le> i \<and> i < int (length memstate_colors)"
    using assms by (auto simp: i_def color_ok_def memstate_colors_def)
  then have "page_color info k = Inr (memstate_colors ! nat i, k)"
    by (simp only: page_color_def Let_def i_def [symmetric] if_True simp_thms)
  then show thesis by (rule that)
qed

lemma pages_color_ok:
  assumes "pages_ok ps pis" "n < NPAGES"
  shows "color_ok (pis ! n)"
proof -
  have "0 \<le> refcount (pis ! n)" "refcount (pis ! n) > 0 \<longrightarrow> PO_KERNEL \<le> owner (pis ! n) \<and>
      (0 \<le> owner (pis ! n) \<longrightarrow> owner (pis ! n) < int NPROC)"
    using assms by (simp_all add: pages_ok_def)
  then show ?thesis unfolding color_ok_def by linarith
qed

lemma set_console_ok:
  assumes "0 \<le> row" "row < 25" "0 \<le> col" "col < 80" "only_console k t"
  shows "\<exists>t'. set_console (CPOS row col) v t = Inr ((), t') \<and> only_console k t'"
proof -
  have "0 \<le> CPOS row col \<and> CPOS row col < 2000" using assms(1-4) by (simp add: CPOS_def)
  then show ?thesis using assms(5) by (simp add: set_console_def)
qed

lemma memshow_physical_page_ok:
  assumes "pages_ok (processes k) (pageinfo k)" "n < NPAGES" "only_console k t"
  shows "\<exists>t'. memshow_physical_page n t = Inr ((), t') \<and> only_console k t'"
proof -
  obtain c t1 where t1: "(if n mod 64 = 0
            then con_vprintf (CPOS (1 + int n div 64) 3) 0x0F00 ''0x%06X '' [VInt (of_nat (n * 4096))] t
            else Inr (0, t)) = Inr (c, t1)" "only_console k t1"
    using con_vprintf_console [OF formats_address(1) assms(3)] assms(3) by (metis (full_types))
  have "color_ok (pageinfo t1 ! n)"
    using pages_color_ok [OF assms(1,2)] only_console_fields(1) [OF t1(2)] by simp
  then obtain color where "page_color (pageinfo t1 ! n) t1 = Inr (color, t1)" by (rule page_color_ok)
  moreover have "0 \<le> 1 + int n div 64" "1 + int n div 64 < 25" "0 \<le> 12 + int n mod 64" "12 + int n mod 64 < 80"
    using assms(2) by linarith+
  ultimately show ?thesis
    using t1 set_console_ok [OF _ _ _ _ t1(2)] by (simp add: memshow_physical_page_def)
qed

lemma memshow_physical_ok:
  assumes "pages_ok (processes k) (pageinfo k)"
  shows "\<exists>k'. memshow_physical k = Inr ((), k') \<and> only_console k k'"
proof -
  obtain c t where t: "con_vprintf (CPOS 0 32) 0x0F00 ''PHYSICAL MEMORY'' [] k = Inr (c, t)" "only_console k t"
    using con_vprintf_console [of "''PHYSICAL MEMORY''" "[]" k k] formats_literal by fastforce
  have "\<exists>k'. forM [0..<NPAGES] memshow_physical_page t = Inr ((), k') \<and> only_console k k'"
    using t(2) by (intro forM_invariant) (auto intro: memshow_physical_page_ok [OF assms])
  with t show ?thesis by (simp add: memshow_physical_def del: upt.simps)
qed

lemma memshow_virtual_page_ok:
  assumes "kernel_tables (m_mem k) kp" "pages_ok (processes k) (pageinfo k)" "only_console k t"
    and "va = 4096 * of_nat i" "i < 768"
  shows "\<exists>t'. memshow_virtual_page kp va t = Inr ((), t') \<and> only_console k t'"
proof -
  have "unat (of_nat i :: u64) = i" using assms(5) by (intro unat_of_nat_u64) simp
  then have u: "unat va = 4096 * i" using assms(4,5) by (simp add: unat_mult_u64)
  have "unat (drop_bit 12 va) = i" using u by (simp add: unat_drop_bit_u64)
  then have n: "PAGENUMBER va = int i" using c_int_small [of "drop_bit 12 va"] assms(5) by (simp add: PAGENUMBER_def)
  define vam where "vam = virtual_memory_lookup (m_mem t) kp va"
  have vam: "vam = (if i < 512 then \<lparr>vam_pn = int i, vam_pa = va, vam_perm = 7\<rparr> else unmapped)"
    using identity_lookup [OF assms(1), of va] u n assms(5) only_console_fields(2) [OF assms(3)]
    by (simp add: vam_def word_less_nat_alt)
  have "\<exists>color. (if vam_pn vam < 0 then Inr (0x20, t)
             else bindM (assertM ''kernel.c'' 500 ''vam.pa < MEMSIZE_PHYSICAL'' (vam_pa vam < MEMSIZE_PHYSICAL) t) (\<lambda>_ k.
                  bindM (pageinfo_at (vam_pn vam) k) (\<lambda>info k.
                  bindM (page_color info k) (\<lambda>color k.
                  Inr (darken info (if (of_int (vam_perm vam) :: u64) AND PTE_U \<noteq> 0
                                    then reverse_video color else color), k))))) = Inr (color, t)"
  proof (cases "i < 512")
    case True
    have "color_ok (pageinfo t ! i)"
      using pages_color_ok [OF assms(2) True] only_console_fields(1) [OF assms(3)] by simp
    then obtain color where "page_color (pageinfo t ! i) t = Inr (color, t)" by (rule page_color_ok)
    then show ?thesis using True vam u by (simp add: pageinfo_at_def word_less_nat_alt)
  qed (simp add: vam unmapped_def)
  then obtain color where c: "(if vam_pn vam < 0 then Inr (0x20, t)
             else bindM (assertM ''kernel.c'' 500 ''vam.pa < MEMSIZE_PHYSICAL'' (vam_pa vam < MEMSIZE_PHYSICAL) t) (\<lambda>_ k.
                  bindM (pageinfo_at (vam_pn vam) k) (\<lambda>info k.
                  bindM (page_color info k) (\<lambda>color k.
                  Inr (darken info (if (of_int (vam_perm vam) :: u64) AND PTE_U \<noteq> 0
                                    then reverse_video color else color), k))))) = Inr (color, t)" by blast
  have color: "memshow_virtual_page kp va t =
      bindM (if PAGENUMBER va mod 64 = 0
             then con_vprintf (CPOS (11 + PAGENUMBER va div 64) 3) 0x0F00 ''0x%06X '' [VLong va] t
             else Inr (0, t)) (\<lambda>_ k.
      set_console (CPOS (11 + PAGENUMBER va div 64) (12 + PAGENUMBER va mod 64)) color k)"
    unfolding memshow_virtual_page_def Let_def vam_def [symmetric] c by simp
  obtain c t1 where t1: "(if PAGENUMBER va mod 64 = 0
             then con_vprintf (CPOS (11 + PAGENUMBER va div 64) 3) 0x0F00 ''0x%06X '' [VLong va] t
             else Inr (0, t)) = Inr (c, t1)" "only_console k t1"
    using con_vprintf_console [OF formats_address(2) assms(3)] assms(3) by (metis (full_types))
  have "0 \<le> 11 + PAGENUMBER va div 64" "11 + PAGENUMBER va div 64 < 25" "0 \<le> 12 + PAGENUMBER va mod 64"
    "12 + PAGENUMBER va mod 64 < 80"
    using assms(5) n by linarith+
  with t1 set_console_ok [OF _ _ _ _ t1(2)] show ?thesis unfolding color by simp
qed

lemma memshow_virtual_ok:
  assumes "kernel_tables (m_mem k) kp" "pages_ok (processes k) (pageinfo k)"
  shows "\<exists>k'. memshow_virtual kp name k = Inr ((), k') \<and> only_console k k'"
proof -
  have "tables_fit kp" using assms(1) by (simp add: kernel_tables_def kernel_links_def)
  then have kp: "PTE_ADDR kp = kp" by (simp add: u64_eq_iff_unat unat_PTE_ADDR tables_fit_def)
  obtain c t where t: "con_vprintf (CPOS 10 26) 0x0F00 ''VIRTUAL ADDRESS SPACE FOR %s'' [VStr name] k = Inr (c, t)"
    "only_console k t"
    using con_vprintf_console [OF formats_name only_console_refl] by metis
  have va: "\<exists>i < 768. va = 4096 * of_nat i" if "va \<in> set (page_addresses 0 MEMSIZE_VIRTUAL)" for va
    using that by (auto simp: page_addresses_def)
  have "\<exists>k'. forM (page_addresses 0 MEMSIZE_VIRTUAL) (memshow_virtual_page kp) t = Inr ((), k') \<and> only_console k k'"
    using t(2) va by (intro forM_invariant) (auto intro: memshow_virtual_page_ok [OF assms])
  with t kp show ?thesis by (simp add: memshow_virtual_def)
qed

lemma local_snprintf_ok:
  obtains s where "local_snprintf 4 ''%d '' [VInt w] k = Inr (s, k)"
proof -
  have "\<exists>r. snprintf (\<lambda>_. 0) 0 4 ''%d '' [VInt w] = Some r"
    by (simp add: snprintf_def vsnprintf_def format_simps)
  then show thesis using that by (auto simp: local_snprintf_def)
qed

lemma memshow_virtual_animate_ok:
  assumes "kinv params k"
  shows "\<exists>k'. memshow_virtual_animate k = Inr ((), k') \<and> 0 \<le> anim_showing k'
    \<and> only_console (k\<lparr>anim_last_ticks := anim_last_ticks k', anim_showing := anim_showing k'\<rparr>) k'"
proof -
  define kp where "kp = sym_kernel_pagetables params"
  have k: "kernel_pagetable k = kp" "kernel_tables (m_mem k) kp" "processes_ok kp (processes k)"
    "pages_ok (processes k) (pageinfo k)"
    using assms by (simp_all add: kinv_def kp_def Let_def)
  define k1 where "k1 = (if anim_last_ticks k = 0 \<or> ticks k - anim_last_ticks k \<ge> 100 div 2
               then k\<lparr>anim_last_ticks := ticks k, anim_showing := anim_showing k + 1\<rparr> else k)"
  define showing where "showing = skip_free (processes k1) (anim_showing k1) mod int NPROC"
  define k2 where "k2 = k1\<lparr>anim_showing := showing\<rparr>"
  have k2: "k2 = k\<lparr>anim_last_ticks := anim_last_ticks k2, anim_showing := showing\<rparr>"
    by (cases k) (simp add: k2_def k1_def)
  have same: "m_mem k2 = m_mem k" "processes k2 = processes k" "pageinfo k2 = pageinfo k"
    by (simp_all add: k2_def k1_def)
  have run: "memshow_virtual_animate k = (if p_state (processes k2 ! nat showing) \<noteq> P_FREE
         then bindM (local_snprintf 4 ''%d '' [VInt (of_int showing)] k2) (\<lambda>s k.
              memshow_virtual (p_pagetable (processes k ! nat showing)) s k)
         else Inr ((), k2))"
    by (simp add: memshow_virtual_animate_def Let_def k2_def showing_def k1_def)
  have sh: "0 \<le> showing" "showing < 16" by (simp_all add: showing_def)
  show ?thesis
  proof (cases "p_state (processes k2 ! nat showing) = P_FREE")
    case True
    have "only_console (k\<lparr>anim_last_ticks := anim_last_ticks k2, anim_showing := anim_showing k2\<rparr>) k2"
      using k2 by (simp add: k2_def)
    then show ?thesis using run True sh by (simp add: k2_def)
  next
    case False
    have pt: "p_pagetable (processes k2 ! nat showing) = kp"
      using k(3) False sh same by (simp add: processes_ok_def)
    obtain s where "local_snprintf 4 ''%d '' [VInt (of_int showing)] k2 = Inr (s, k2)"
      by (rule local_snprintf_ok)
    moreover obtain k3 where k3: "memshow_virtual kp s k2 = Inr ((), k3)" "only_console k2 k3"
      using memshow_virtual_ok [of k2 kp s] k same by auto
    ultimately have "memshow_virtual_animate k = Inr ((), k3)"
      using run False pt by simp
    moreover have f: "anim_last_ticks k3 = anim_last_ticks k2" "anim_showing k3 = anim_showing k2"
      using k3(2) by (cases k2, cases k3, simp add: only_console_def)+
    then have "k\<lparr>anim_last_ticks := anim_last_ticks k3, anim_showing := anim_showing k3\<rparr> = k2"
      using k2 [symmetric] by (simp add: k2_def)
    ultimately show ?thesis
      using k3(2) f sh by (simp add: k2_def)
  qed
qed

subsection \<open>Stopping on purpose\<close>

definition wanted_stop :: "stop \<Rightarrow> bool" where
  "wanted_stop st \<longleftrightarrow> st = PoweredOff \<or> (\<exists>arg. st = SoftReboot 4 arg)"

lemma poweroff_stops:
  fixes s :: "'a machine_scheme"
  shows "\<exists>s'. (poweroff s :: ('b, 'a machine_scheme) outcome) = Inl (PoweredOff, s')"
proof -
  have f: "formats ''Cannot power off!\<newline>'' []" by (rule formats_literal) simp
  have stop: "\<exists>s'. bindM (con_vprintf cpos color ''Cannot power off!\<newline>'' [] t) (\<lambda>_ s. Inl (PoweredOff, s))
      = (Inl (PoweredOff, s') :: ('b, 'a machine_scheme) outcome)" for cpos color t
    by (rule con_vprintf_ok [OF f, of cpos color t]) simp
  show ?thesis unfolding poweroff_def Let_def split_beta by (rule stop)
qed

lemma check_keyboard_effect:
  assumes "layout_ok params"
  shows "case check_keyboard params s of
      Inl (st, s') \<Rightarrow> wanted_stop st | Inr (c, s') \<Rightarrow> only_kb s s'"
proof -
  obtain c s1 where k: "keyboard_readc s = (c, s1)" by fastforce
  then have kb: "only_kb s s1" using keyboard_readc_effect by blast
  obtain s2 where off: "(poweroff s1 :: (unit, _) outcome) = Inl (PoweredOff, s2)"
    using poweroff_stops [of s1] by blast
  show ?thesis
    using assms kb off
    by (auto simp: check_keyboard_def k wanted_stop_def layout_ok_def assertM_def Let_def)
qed

section \<open>Frames\<close>

lemma kinv_fields:
  assumes "kinv params k" "kernel_pagetable k' = kernel_pagetable k" "m_mem k' = m_mem k"
    "processes k' = processes k" "pageinfo k' = pageinfo k" "0 \<le> anim_showing k'" "current k' < NPROC"
  shows "kinv params k'"
  using assms by (simp add: kinv_def Let_def)

lemma only_kb_fields:
  fixes k k' :: kstate
  assumes "only_kb k k'"
  shows "kernel_pagetable k' = kernel_pagetable k" "m_mem k' = m_mem k"
    "processes k' = processes k" "pageinfo k' = pageinfo k" "anim_showing k' = anim_showing k"
    "current k' = current k" "ticks k' = ticks k" "m_cr3 k' = m_cr3 k" "cr2 k' = cr2 k"
  using assms by (cases k, cases k', simp add: only_kb_def)+

lemma only_io_fields:
  fixes k k' :: kstate
  assumes "only_io k k'"
  shows "kernel_pagetable k' = kernel_pagetable k" "m_mem k' = m_mem k"
    "processes k' = processes k" "pageinfo k' = pageinfo k" "anim_showing k' = anim_showing k"
    "current k' = current k" "ticks k' = ticks k" "m_cr3 k' = m_cr3 k" "cr2 k' = cr2 k"
  using assms by (cases k, cases k', simp add: only_io_def)+

text \<open>
  \<open>same_tasks\<close>: processes, pages, memory and page tables are unchanged. Everything that
  \<open>exception\<close> does before its switch is of this kind.
\<close>

definition same_tasks :: "kstate \<Rightarrow> kstate \<Rightarrow> bool" where
  "same_tasks k k' \<longleftrightarrow> kernel_pagetable k' = kernel_pagetable k \<and> m_mem k' = m_mem k
     \<and> processes k' = processes k \<and> pageinfo k' = pageinfo k \<and> current k' = current k \<and> ticks k' = ticks k
     \<and> cr2 k' = cr2 k"

lemma same_tasks_refl [simp]: "same_tasks k k"
  by (simp add: same_tasks_def)

lemma same_tasks_trans: "same_tasks k t \<Longrightarrow> same_tasks t u \<Longrightarrow> same_tasks k u"
  by (simp add: same_tasks_def)

lemma same_tasks_kinv: "kinv params k \<Longrightarrow> same_tasks k k' \<Longrightarrow> 0 \<le> anim_showing k' \<Longrightarrow> kinv params k'"
  by (auto simp: same_tasks_def kinv_def Let_def)

lemma same_tasks_only:
  "only_io k k' \<Longrightarrow> same_tasks k k'" "only_kb k k' \<Longrightarrow> same_tasks k k'"
  by (auto simp: same_tasks_def only_io_fields only_kb_fields)

lemma kset_pagetable_ok:
  assumes "layout_ok params" "kinv params k"
  shows "kset_pagetable params (sym_kernel_pagetables params) k
    = Inr ((), k\<lparr>m_cr3 := sym_kernel_pagetables params\<rparr>)"
  using assms set_pagetable_identity [of "m_mem k" "sym_kernel_pagetables params" params]
  by (simp add: kset_pagetable_def kinv_def layout_ok_def Let_def)

section \<open>Running and scheduling\<close>

definition runs :: "'b kparams_scheme \<Rightarrow> kstate \<Rightarrow> nat \<Rightarrow> (x86_64_registers, kstate) outcome \<Rightarrow> bool" where
  "runs params k i r \<longleftrightarrow> r = Inr (p_registers (processes k ! i),
     k\<lparr>current := i, m_cr3 := sym_kernel_pagetables params\<rparr>)"

lemma run_ok:
  assumes "layout_ok params" "kinv params k" "i < NPROC" "p_state (processes k ! i) = P_RUNNABLE"
  shows "runs params k i (run params i k)"
proof -
  have "p_pagetable (processes k ! i) = sym_kernel_pagetables params"
    using assms(2-4) by (simp add: kinv_def Let_def processes_ok_def)
  moreover have "kinv params (k\<lparr>current := i\<rparr>)"
    using assms(2,3) by (simp add: kinv_def Let_def)
  ultimately show ?thesis
    using assms(1,4) kset_pagetable_ok [of params "k\<lparr>current := i\<rparr>"]
    by (simp add: run_def runs_def)
qed

definition resumed :: "'b kparams_scheme \<Rightarrow> kstate \<Rightarrow> nat \<Rightarrow> (x86_64_registers, kstate) outcome \<Rightarrow> bool" where
  "resumed params k i r \<longleftrightarrow>
     (case r of
        Inl (st, k') \<Rightarrow> wanted_stop st
      | Inr (regs, k') \<Rightarrow> regs = p_registers (processes k ! i) \<and> current k' = i
          \<and> m_cr3 k' = p_pagetable (processes k ! i) \<and> processes k' = processes k
          \<and> pageinfo k' = pageinfo k \<and> m_mem k' = m_mem k \<and> ticks k' = ticks k \<and> kinv params k')"

lemma runs_resumed:
  assumes "kinv params k" "i < NPROC" "p_state (processes k ! i) = P_RUNNABLE" "runs params k i r"
  shows "resumed params k i r"
  using assms by (auto simp: runs_def resumed_def kinv_def Let_def processes_ok_def)

lemma resumed_same:
  assumes "resumed params k1 i r" "same_tasks k k1"
  shows "resumed params k i r"
  using assms by (auto simp: resumed_def same_tasks_def split: sum.splits)

lemma kinv_showing: "kinv params k \<Longrightarrow> 0 \<le> anim_showing k"
  by (simp add: kinv_def Let_def)

lemma schedule_loop_finds:
  assumes "layout_ok params" "kinv params k"
    and "p_state (processes k ! ((pid + d + 1) mod NPROC)) = P_RUNNABLE"
    and "\<And>e. e < d \<Longrightarrow> p_state (processes k ! ((pid + e + 1) mod NPROC)) \<noteq> P_RUNNABLE"
  shows "\<exists>r. schedule_loop params pid k = Some r \<and> resumed params k ((pid + d + 1) mod NPROC) r"
  using assms(2-4)
proof (induction d arbitrary: pid k)
  case 0
  have i: "(pid + 0 + 1) mod NPROC < NPROC" by simp
  have "runs params k ((pid + 0 + 1) mod NPROC) (run params ((pid + 0 + 1) mod NPROC) k)"
    by (rule run_ok [OF assms(1) 0(1) i 0(2)])
  then have "resumed params k ((pid + 0 + 1) mod NPROC) (run params ((pid + 0 + 1) mod NPROC) k)"
    using runs_resumed [OF 0(1) i 0(2)] by blast
  with 0(2) show ?case by (subst schedule_loop.simps) simp
next
  case (Suc d)
  define pid' where "pid' = (pid + 1) mod NPROC"
  have shift: "(pid' + e + 1) mod NPROC = (pid + Suc e + 1) mod NPROC" for e
    unfolding pid'_def by (metis add.assoc add.commute mod_add_left_eq plus_1_eq_Suc)
  have idle: "p_state (processes k ! pid') \<noteq> P_RUNNABLE" using Suc.prems(3) [of 0] by (simp add: pid'_def)
  show ?case
  proof (cases "check_keyboard params k")
    case (Inl a)
    then have "schedule_loop params pid k = Some (Inl a)"
      using idle by (subst schedule_loop.simps) (simp add: pid'_def)
    moreover have "wanted_stop (fst a)"
      using check_keyboard_effect [OF assms(1), of k] Inl by (auto split: prod.splits)
    ultimately show ?thesis by (auto simp: resumed_def split: prod.splits)
  next
    case (Inr b)
    then obtain c k1 where k1: "check_keyboard params k = Inr (c, k1)" by (cases b) auto
    then have kb: "only_kb k k1"
      using check_keyboard_effect [OF assms(1), of k] by simp
    then have st: "same_tasks k k1" by (rule same_tasks_only)
    have "kinv params k1"
      using kinv_showing [OF Suc.prems(1)] only_kb_fields(5) [OF kb]
      by (intro same_tasks_kinv [OF Suc.prems(1) st]) simp
    moreover have ps: "processes k1 = processes k" using st by (simp add: same_tasks_def)
    ultimately have "\<exists>r. schedule_loop params pid' k1 = Some r \<and> resumed params k1 ((pid' + d + 1) mod NPROC) r"
      using Suc.prems(2,3) by (intro Suc.IH) (simp_all only: ps shift Suc_less_eq not_False_eq_True)
    moreover have "schedule_loop params pid k = schedule_loop params pid' k1"
      using idle k1 by (subst schedule_loop.simps) (simp add: pid'_def)
    ultimately show ?thesis using resumed_same [OF _ st] by (metis shift)
  qed
qed

lemma schedule_finds:
  assumes "layout_ok params" "kinv params k"
    and "p_state (processes k ! ((current k + d + 1) mod NPROC)) = P_RUNNABLE"
    and "\<And>e. e < d \<Longrightarrow> p_state (processes k ! ((current k + e + 1) mod NPROC)) \<noteq> P_RUNNABLE"
  shows "\<exists>r. schedule params k = Some r \<and> resumed params k ((current k + d + 1) mod NPROC) r"
proof -
  have "p_pid (processes k ! current k) = int (current k)"
    using assms(2) by (simp add: kinv_def Let_def processes_ok_def)
  then show ?thesis
    using schedule_loop_finds [OF assms] by (simp add: schedule_def)
qed

text \<open>Some runnable process, so a first one after the current process.\<close>

lemma first_runnable:
  assumes "i < NPROC" "P i" "c < NPROC"
  obtains d where "d < NPROC" "P ((c + d + 1) mod NPROC)" "\<And>e. e < d \<Longrightarrow> \<not> P ((c + e + 1) mod NPROC)"
proof -
  define d0 where "d0 = (if c < i then i - c - 1 else i + NPROC - c - 1)"
  have "c + d0 + 1 = (if c < i then i else i + NPROC)" using assms(1,3) by (simp add: d0_def)
  then have "(c + d0 + 1) mod NPROC = i" using assms(1) by simp
  moreover have "d0 < NPROC" using assms(1,3) by (auto simp: d0_def)
  ultimately have d0: "(c + d0 + 1) mod NPROC = i" "d0 < NPROC" by simp_all
  define d where "d = (LEAST d. P ((c + d + 1) mod NPROC))"
  have "P ((c + d + 1) mod NPROC)" unfolding d_def using assms(2) d0(1) by (rule_tac LeastI [of _ d0]) simp
  moreover have "d \<le> d0" unfolding d_def using assms(2) d0(1) by (intro Least_le) simp
  moreover have "\<not> P ((c + e + 1) mod NPROC)" if "e < d" for e
    using that unfolding d_def by (rule not_less_Least)
  ultimately show thesis using that d0(2) by (meson le_less_trans)
qed

section \<open>Dumps and panics\<close>

lemma log_printf_io:
  assumes "formats fmt args" "only_io k t"
  shows "\<exists>t'. log_printf fmt args t = Inr ((), t') \<and> only_io k t'"
  using log_printf_ok [OF assms(1), of t] assms(2) by (metis only_io_trans)

lemma memdump_physical_ok: "\<exists>k'. memdump_physical k = Inr ((), k') \<and> only_io k k'"
proof -
  obtain t where t: "log_printf ''PM_DUMP %u '' [VInt (ticks k)] k = Inr ((), t)" "only_io k t"
    using log_printf_io [OF formats_dump(1) only_io_refl] by metis
  obtain u where u: "forM [0..<NPAGES] (\<lambda>n k. let info = pageinfo k ! n in
       log_printf ''%u %u '' [VInt (of_int (owner info mod 256)), VInt (of_int (refcount info))] k) t = Inr ((), u)"
    "only_io k u"
    using forM_invariant [of "[0..<NPAGES]" "only_io k" _ t] log_printf_io [OF formats_dump(2)] t(2)
    by (metis (no_types, lifting))
  obtain v where "log_printf ''\<newline>'' [] u = Inr ((), v)" "only_io k v"
    using log_printf_io [OF formats_literal u(2), of "''\<newline>''"] by fastforce
  with t u show ?thesis by (simp add: memdump_physical_def del: upt.simps)
qed

lemma memdump_virtual_ok:
  assumes "kernel_tables (m_mem k) kp" "only_io k k0"
  shows "\<exists>k'. memdump_virtual kp name k0 = Inr ((), k') \<and> only_io k k'"
proof -
  have "tables_fit kp" using assms(1) by (simp add: kernel_tables_def kernel_links_def)
  then have kp: "PTE_ADDR kp = kp" by (simp add: u64_eq_iff_unat unat_PTE_ADDR tables_fit_def)
  obtain t where t: "log_printf ''VM_DUMP %s %u '' [VStr name, VInt (ticks k0)] k0 = Inr ((), t)" "only_io k t"
    using log_printf_io [OF formats_dump(3) assms(2)] by metis
  define step where "step = (\<lambda>va k. let vam = virtual_memory_lookup (m_mem k) kp va in
       if vam_pn vam < 0 then log_printf ''0 0 0 '' [] k
       else bindM (pageinfo_at (vam_pn vam) k) (\<lambda>info k.
            log_printf ''%u %u %u '' [VInt (of_int (owner info mod 256)),
              VInt (of_int (refcount info mod 256)), VInt (of_int (vam_perm vam))] k))"
  have "\<exists>u'. step va u = Inr ((), u') \<and> only_io k u'" if "va \<in> set (page_addresses 0 MEMSIZE_VIRTUAL)" "only_io k u" for va u
  proof -
    have "\<exists>i < 768. va = 4096 * of_nat i" using that(1) by (auto simp: page_addresses_def)
    then obtain i where "va = 4096 * of_nat i" "i < 768" by blast
    moreover from this have "unat (of_nat i :: u64) = i" by (intro unat_of_nat_u64) simp
    ultimately have x: "unat va < 2 ^ 48" by (simp add: unat_mult_u64)
    have look: "virtual_memory_lookup (m_mem u) kp va =
        (if va < MEMSIZE_PHYSICAL then \<lparr>vam_pn = PAGENUMBER va, vam_pa = va, vam_perm = 7\<rparr> else unmapped)"
      using identity_lookup [OF assms(1) x] only_io_fields(2) [OF that(2)] by simp
    have pn: "0 \<le> PAGENUMBER va" "PAGENUMBER va < 512" if "va < MEMSIZE_PHYSICAL"
      using that PAGENUMBER_small [of va] by (simp_all add: word_less_nat_alt less_mult_imp_div_less zdiv_int [symmetric])
    show ?thesis
      using log_printf_io [OF formats_dump(4) that(2)] log_printf_io [OF formats_literal that(2), of "''0 0 0 ''"] pn
      by (auto simp: step_def look pageinfo_at_def unmapped_def)
  qed
  then obtain u where u: "forM (page_addresses 0 MEMSIZE_VIRTUAL) step t = Inr ((), u)" "only_io k u"
    using forM_invariant [of "page_addresses 0 MEMSIZE_VIRTUAL" "only_io k" step t] t(2) by metis
  obtain v where "log_printf ''\<newline>'' [] u = Inr ((), v)" "only_io k v"
    using log_printf_io [OF formats_literal u(2), of "''\<newline>''"] by fastforce
  with t u kp show ?thesis by (simp add: memdump_virtual_def step_def)
qed

lemma memdump_virtual_all_ok:
  assumes "kinv params k"
  shows "\<exists>k'. memdump_virtual_all k = Inr ((), k') \<and> only_io k k'"
  unfolding memdump_virtual_all_def
proof (rule forM_invariant)
  fix i t assume i: "i \<in> set [0..<NPROC]" and t: "only_io k t"
  define kp where "kp = sym_kernel_pagetables params"
  have k: "kernel_tables (m_mem k) kp" "processes_ok kp (processes k)"
    using assms by (simp_all add: kinv_def kp_def Let_def)
  have ps: "processes t = processes k" by (rule only_io_fields(3) [OF t])
  obtain s where s: "local_snprintf 4 ''%d '' [VInt (of_nat i)] t = Inr (s, t)" by (rule local_snprintf_ok)
  show "\<exists>t'. (let p = processes t ! i in if p_state p \<noteq> P_FREE
       then bindM (local_snprintf 4 ''%d '' [VInt (of_nat i)] t) (\<lambda>s k. memdump_virtual (p_pagetable p) s k)
       else Inr ((), t)) = Inr ((), t') \<and> only_io k t'"
    using memdump_virtual_ok [OF k(1) t, of s] k(2) i t s by (auto simp: ps processes_ok_def Let_def)
qed simp

lemma error_vprintf_ok:
  assumes "formats fmt args"
  obtains c s' where "error_vprintf cpos color fmt args s = Inr (c, s')"
proof -
  obtain s1 where "log_printf fmt args s = Inr ((), s1)" using log_printf_ok [OF assms] by metis
  moreover obtain c con where "con_vprintf cpos color fmt args s1 = Inr (c, s1\<lparr>m_console := con\<rparr>)"
    using con_vprintf_ok [OF assms] by metis
  ultimately show thesis using that by (simp add: error_vprintf_def log_printf_def)
qed

lemma panic_fails:
  assumes "case format of Some (fmt, args) \<Rightarrow> formats fmt args | None \<Rightarrow> True"
  obtains s' where "panic format s = Inl (Failed, s')"
proof (cases format)
  case None
  have "formats ''PANIC'' []" by (rule formats_literal) simp
  then obtain c s' where "error_vprintf (CPOS 23 0) 0xC000 ''PANIC'' [] s = Inr (c, s')"
    by (rule error_vprintf_ok)
  with None that show thesis by (simp add: panic_def error_printf_def)
next
  case (Some p)
  then obtain fmt args where p: "format = Some (fmt, args)" by (cases p) auto
  have "formats ''PANIC: '' []" by (rule formats_literal) simp
  then obtain c s1 where 1: "error_vprintf (CPOS 23 0) 0xC000 ''PANIC: '' [] s = Inr (c, s1)"
    by (rule error_vprintf_ok)
  have "formats fmt args" using assms p by simp
  then obtain c' s2 where 2: "error_vprintf c 0xC000 fmt args s1 = Inr (c', s2)"
    by (rule error_vprintf_ok)
  have "formats ''\<newline>'' []" by (rule formats_literal) simp
  then obtain c'' s3 where 3: "error_vprintf c' 0xC000 ''\<newline>'' [] s2 = Inr (c'', s3)"
    by (rule error_vprintf_ok)
  show thesis
    using that 1 2 3 by (cases "CCOL c' = 0") (simp_all add: panic_def error_printf_def p)
qed

end
