(* ===== verification/KernelThms.thy ===== *)
theory KernelThms
  imports KernelInv
begin

text \<open>
  The exception handler keeps the kernel invariant on every path and the properties of the kernel:
  page assignment, system calls, scheduling, faults.
\<close>

section \<open>Operations keep the invariant\<close>

lemma length_filter_update:
  assumes "P y = P (xs ! i)" "i < length xs"
  shows "length (filter P (xs[i := y])) = length (filter P xs)"
  using assms
proof (induction xs arbitrary: i)
  case (Cons x xs)
  then show ?case by (cases i) auto
qed simp

lemma kinv_processes: "kinv params k \<Longrightarrow> processes_ok (sym_kernel_pagetables params) (processes k)"
  by (simp add: kinv_def Let_def)

lemma kinv_set_proc:
  assumes "kinv params k" "i < NPROC" "p_pid p = int i"
    and "p_pagetable p = p_pagetable (processes k ! i)"
    and "p_state p = P_FREE \<longleftrightarrow> p_state (processes k ! i) = P_FREE"
  shows "kinv params (set_proc i p k)"
proof -
  have len: "length (processes k) = NPROC" using kinv_processes [OF assms(1)] by (simp add: processes_ok_def)
  have nth: "p_pid ((processes k)[i := p] ! j) = p_pid (processes k ! j)"
    "p_pagetable ((processes k)[i := p] ! j) = p_pagetable (processes k ! j)"
    "p_state ((processes k)[i := p] ! j) = P_FREE \<longleftrightarrow> p_state (processes k ! j) = P_FREE" if "j < NPROC" for j
    using that assms(2-5) kinv_processes [OF assms(1)] by (auto simp: nth_list_update len processes_ok_def)
  have "used ((processes k)[i := p]) = used (processes k)"
    unfolding used_def using assms(2,5) len by (intro length_filter_update) simp_all
  moreover have "processes_ok (sym_kernel_pagetables params) ((processes k)[i := p])"
    using kinv_processes [OF assms(1)] nth by (simp add: processes_ok_def)
  moreover have "pages_ok ((processes k)[i := p]) (pageinfo k)"
    using assms(1) by (simp add: kinv_def Let_def pages_ok_def nth(3) nat_less_iff)
  ultimately show ?thesis
    using assms(1) by (simp add: set_proc_def kinv_def Let_def tables_owned_def)
qed

lemma kinv_update_regs:
  assumes "kinv params k" "i < NPROC"
  shows "kinv params (update_regs i f k)"
  using kinv_processes [OF assms(1)] assms(2)
  unfolding update_regs_def Let_def by (intro kinv_set_proc [OF assms]) (simp_all add: processes_ok_def)

lemma kinv_update_state:
  assumes "kinv params k" "i < NPROC" "p_state (processes k ! i) \<noteq> P_FREE" "st \<noteq> P_FREE"
  shows "kinv params (update_state i st k)"
  using kinv_processes [OF assms(1)] assms(2-4)
  unfolding update_state_def by (intro kinv_set_proc [OF assms(1,2)]) (simp_all add: processes_ok_def)

text \<open>
  \<open>assign_physical_page\<close> succeeds exactly for a free, page-aligned page of physical memory, and then
  gives that page and no other to the owner.
\<close>

definition assignable :: "u64 \<Rightarrow> kstate \<Rightarrow> bool" where
  "assignable addr k \<longleftrightarrow> unat addr mod 4096 = 0 \<and> unat addr < 0x200000
     \<and> refcount (pageinfo k ! (unat addr div 4096)) = 0"

lemma to_i8_small: "- 128 \<le> x \<Longrightarrow> x < 128 \<Longrightarrow> to_i8 x = x"
  by (simp add: to_i8_def signed_take_bit_int_eq_self)

lemma assign_physical_page_cases:
  "assign_physical_page addr own k =
     (if assignable addr k
      then (0, set_pageinfo (unat addr div 4096) \<lparr>owner = to_i8 own, refcount = 1\<rparr> k) else (- 1, k))"
proof (cases "unat addr < 0x200000")
  case True
  then show ?thesis
    using PAGENUMBER_small [OF True]
    by (auto simp: assign_physical_page_def assignable_def and_FFF_eq_0_iff Let_def word_le_nat_alt)
next
  case False
  then show ?thesis by (simp add: assign_physical_page_def assignable_def word_le_nat_alt Let_def)
qed

lemma kinv_assign:
  assumes "kinv params k" "assignable addr k" "i < NPROC" "p_state (processes k ! i) \<noteq> P_FREE"
    and "tables_fit (sym_kernel_pagetables params)"
  shows "kinv params (set_pageinfo (unat addr div 4096) \<lparr>owner = int i, refcount = 1\<rparr> k)"
proof -
  define n where "n = unat addr div 4096"
  define kp where "kp = sym_kernel_pagetables params"
  have n: "n < NPAGES" "refcount (pageinfo k ! n) = 0"
    using assms(2) by (simp_all add: assignable_def n_def less_mult_imp_div_less)
  have k: "pages_ok (processes k) (pageinfo k)" "tables_owned kp (processes k) (pageinfo k)"
    using assms(1) by (simp_all add: kinv_def Let_def kp_def)
  have "n \<noteq> table_page kp j" if "j < 5" for j
    using k(2) n(2) that by (cases "j = 0") (auto simp: tables_owned_def)
  then have "tables_owned kp (processes k) ((pageinfo k)[n := \<lparr>owner = int i, refcount = 1\<rparr>])"
    using k(2) by (auto simp: tables_owned_def nth_list_update_neq)
  moreover have "pages_ok (processes k) ((pageinfo k)[n := \<lparr>owner = int i, refcount = 1\<rparr>])"
    using k(1) n(1) assms(3,4) by (auto simp: pages_ok_def nth_list_update)
  ultimately show ?thesis
    using assms(1) by (simp add: set_pageinfo_def kinv_def Let_def flip: n_def kp_def)
qed

section \<open>The exception handler\<close>

lemma exception_checks_effect:
  assumes "layout_ok params" "kinv params k"
  shows "case exception_checks params reg k of
      Inl (st, k') \<Rightarrow> wanted_stop st | Inr (u, k') \<Rightarrow> same_tasks k k' \<and> 0 \<le> anim_showing k'"
proof (cases "unat (reg_intno reg) \<noteq> INT_PAGEFAULT \<or> reg_err reg AND PFERR_USER \<noteq> 0")
  case False
  then show ?thesis using kinv_showing [OF assms(2)] by (simp add: exception_checks_def)
next
  case True
  obtain k1 where k1: "memshow_physical k = Inr ((), k1)" "only_console k k1"
    using memshow_physical_ok [of k] assms(2) by (auto simp: kinv_def Let_def)
  have inv1: "kinv params k1"
    using only_console_fields [OF k1(2)] assms(2) by (intro kinv_fields [OF assms(2)]) (simp_all add: kinv_def Let_def)
  obtain k2 where k2: "memshow_virtual_animate k1 = Inr ((), k2)" "0 \<le> anim_showing k2"
    "only_console (k1\<lparr>anim_last_ticks := anim_last_ticks k2, anim_showing := anim_showing k2\<rparr>) k2"
    using memshow_virtual_animate_ok [OF inv1] by blast
  have st1: "same_tasks k k1"
    using k1(2) by (cases k, cases k1) (simp add: same_tasks_def only_console_def)
  have "same_tasks k1 k2"
    using k2(3) by (cases k1, cases k2) (simp add: same_tasks_def only_console_def)
  with st1 have st2: "same_tasks k k2" by (rule same_tasks_trans)
  have inv2: "kinv params k2" by (rule same_tasks_kinv [OF assms(2) st2 k2(2)])
  obtain k3 where k3: "memdump_physical k2 = Inr ((), k3)" "only_io k2 k3"
    using memdump_physical_ok by blast
  have inv3: "kinv params k3"
    using inv2 only_io_fields [OF k3(2)] by (intro kinv_fields [OF inv2]) (simp_all add: kinv_def Let_def)
  obtain k4 where k4: "memdump_virtual_all k3 = Inr ((), k4)" "only_io k3 k4"
    using memdump_virtual_all_ok [OF inv3] by blast
  have st4: "same_tasks k k4" "0 \<le> anim_showing k4"
    using same_tasks_trans [OF same_tasks_trans [OF st2 same_tasks_only(1) [OF k3(2)]] same_tasks_only(1) [OF k4(2)]]
      k2(2) only_io_fields(5) [OF k3(2)] only_io_fields(5) [OF k4(2)] by simp_all
  obtain off where "(poweroff k2 :: (unit, _) outcome) = Inl (PoweredOff, off)"
    using poweroff_stops [of k2] by blast
  then show ?thesis
    using check_virtual_memory_pass [OF assms] k1(1) k2(1,2) k3(1) k4(1) st2 st4 True
    by (simp add: exception_checks_def wanted_stop_def)
qed

text \<open>The outcomes that the handler may have.\<close>

definition good :: "'b kparams_scheme \<Rightarrow> (x86_64_registers, kstate) outcome \<Rightarrow> bool" where
  "good params r \<longleftrightarrow>
     (case r of
        Inl (st, k') \<Rightarrow> wanted_stop st
      | Inr (regs, k') \<Rightarrow> kinv params k' \<and> p_state (processes k' ! current k') = P_RUNNABLE
          \<and> regs = p_registers (processes k' ! current k') \<and> m_cr3 k' = p_pagetable (processes k' ! current k'))"

lemma resumed_good:
  assumes "resumed params k i r" "p_state (processes k ! i) = P_RUNNABLE"
  shows "good params r"
  using assms by (auto simp: resumed_def good_def split: sum.splits)

lemma return_current_good:
  assumes "layout_ok params" "kinv params k" "p_state (processes k ! current k) = P_RUNNABLE"
  shows "\<exists>r. return_to_user params k = Some r \<and> resumed params k (current k) r"
proof -
  have c: "current k < NPROC" using assms(2) by (simp add: kinv_def Let_def)
  show ?thesis
    using runs_resumed [OF assms(2) c assms(3) run_ok [OF assms(1,2) c assms(3)]] assms(3)
    by (simp add: return_to_user_def)
qed

lemma schedule_good:
  assumes "layout_ok params" "kinv params k" "i < NPROC" "p_state (processes k ! i) = P_RUNNABLE"
  shows "\<exists>r. schedule params k = Some r \<and> good params r"
proof -
  have c: "current k < NPROC" using assms(2) by (simp add: kinv_def Let_def)
  obtain d where d: "p_state (processes k ! ((current k + d + 1) mod NPROC)) = P_RUNNABLE"
    "\<And>e. e < d \<Longrightarrow> p_state (processes k ! ((current k + e + 1) mod NPROC)) \<noteq> P_RUNNABLE"
    using first_runnable [OF assms(3), of "\<lambda>i. p_state (processes k ! i) = P_RUNNABLE", OF assms(4) c] by metis
  then show ?thesis
    using schedule_finds [OF assms(1,2) d] resumed_good d(1) by blast
qed

lemma kvm_map_identity:
  assumes "kinv params k" "unat a mod 4096 = 0" "unat a < 0x200000"
  shows "kvm_map (sym_kernel_pagetables params) a a PAGESIZE 7 allocator k = Inr (0, k)"
proof -
  have "kernel_tables (m_mem k) (sym_kernel_pagetables params)" using assms(1) by (simp add: kinv_def Let_def)
  then have "virtual_memory_map (sym_kernel_pagetables params) a a PAGESIZE 7 allocator (m_mem k, k) = Inr (0, m_mem k, k)"
    using assms(2,3) by (intro identity_map) (simp_all add: word_less_nat_alt)
  then show ?thesis by (simp add: kvm_map_def)
qed

lemma current_ok:
  assumes "kinv params k" "p_state (processes k ! current k) = P_RUNNABLE"
  shows "current k < NPROC" "p_pid (processes k ! current k) = int (current k)"
    "p_pagetable (processes k ! current k) = sym_kernel_pagetables params"
  using assms by (auto simp: kinv_def Let_def processes_ok_def)

lemma handle_page_alloc_effect:
  assumes "layout_ok params" "kinv params k" "p_state (processes k ! current k) = P_RUNNABLE"
  defines "addr \<equiv> reg_rdi (p_registers (processes k ! current k))"
  shows "handle_page_alloc k = Inr ((), update_regs (current k)
      (\<lambda>regs. regs\<lparr>reg_rax := (if assignable addr k then 0 else - 1)\<rparr>)
      (if assignable addr k
       then set_pageinfo (unat addr div 4096) \<lparr>owner = int (current k), refcount = 1\<rparr> k else k))"
proof (cases "assignable addr k")
  case True
  note cur = current_ok [OF assms(2,3)]
  have i8: "to_i8 (int (current k)) = int (current k)" using cur(1) by (intro to_i8_small) simp_all
  have "kinv params (set_pageinfo (unat addr div 4096) \<lparr>owner = int (current k), refcount = 1\<rparr> k)"
    using kinv_assign [OF assms(2) True cur(1)] assms(1,3) by (simp add: layout_ok_def)
  from kvm_map_identity [OF this] True show ?thesis
    by (simp add: handle_page_alloc_def assign_physical_page_cases cur i8 assignable_def set_pageinfo_def
        Let_def flip: addr_def)
next
  case False
  then show ?thesis
    by (simp add: handle_page_alloc_def assign_physical_page_cases Let_def flip: addr_def)
qed

lemma handle_page_alloc_kinv:
  assumes "layout_ok params" "kinv params k" "p_state (processes k ! current k) = P_RUNNABLE"
    and "handle_page_alloc k = Inr (u, k')"
  shows "kinv params k' \<and> current k' = current k \<and> p_state (processes k' ! current k') = P_RUNNABLE"
proof -
  note cur = current_ok [OF assms(2,3)]
  define addr where "addr = reg_rdi (p_registers (processes k ! current k))"
  define k1 where "k1 = (if assignable addr k
       then set_pageinfo (unat addr div 4096) \<lparr>owner = int (current k), refcount = 1\<rparr> k else k)"
  have "kinv params k1"
    using kinv_assign [OF assms(2) _ cur(1)] assms(1-3) by (simp add: k1_def layout_ok_def)
  moreover have "current k1 = current k" "processes k1 = processes k"
    by (simp_all add: k1_def set_pageinfo_def)
  moreover have "k' = update_regs (current k) (\<lambda>regs. regs\<lparr>reg_rax := (if assignable addr k then 0 else - 1)\<rparr>) k1"
    using handle_page_alloc_effect [OF assms(1-3)] assms(4) by (simp add: addr_def k1_def)
  moreover have "length (processes k) = NPROC"
    using kinv_processes [OF assms(2)] by (simp add: processes_ok_def)
  ultimately show ?thesis
    using kinv_update_regs [of params k1 "current k"] cur(1) assms(3)
    by (simp add: update_regs_def set_proc_def Let_def)
qed

text \<open>
  The exceptions after which the handler goes on: the timer, three system calls and page faults in user
  mode. It panics after the others, which are the system call \<open>INT_SYS_PANIC\<close> that asks for it, page
  faults in the kernel and the exceptions that the switch has no case for.
\<close>

definition handled :: "x86_64_registers \<Rightarrow> bool" where
  "handled reg \<longleftrightarrow> unat (reg_intno reg) \<in> {INT_TIMER, INT_SYS_GETPID, INT_SYS_YIELD, INT_SYS_PAGE_ALLOC}
     \<or> (unat (reg_intno reg) = INT_PAGEFAULT \<and> reg_err reg AND PFERR_USER \<noteq> 0)"

lemma dispatch_runnable:
  assumes "layout_ok params" "kinv params k" "p_state (processes k ! current k) = P_RUNNABLE"
    and "unat (reg_intno reg) \<in> {INT_TIMER, INT_SYS_GETPID, INT_SYS_YIELD, INT_SYS_PAGE_ALLOC}"
  shows "\<exists>r. dispatch params reg k = Some r \<and> good params r"
proof -
  note cur = current_ok [OF assms(2,3)]
  have len: "length (processes k) = NPROC" using kinv_processes [OF assms(2)] by (simp add: processes_ok_def)
  consider "unat (reg_intno reg) = INT_TIMER" | "unat (reg_intno reg) = INT_SYS_GETPID"
    | "unat (reg_intno reg) = INT_SYS_YIELD" | "unat (reg_intno reg) = INT_SYS_PAGE_ALLOC"
    using assms(4) by blast
  then show ?thesis
  proof cases
    case 1
    have "kinv params (k\<lparr>ticks := ticks k + 1\<rparr>)" using assms(2) by (simp add: kinv_def Let_def)
    with 1 schedule_good [OF assms(1) this cur(1)] assms(3) show ?thesis by (simp add: dispatch_def Let_def)
  next
    case 2
    define k1 where "k1 = update_regs (current k) (\<lambda>regs. regs\<lparr>reg_rax := of_int (p_pid (processes k ! current k))\<rparr>) k"
    have "kinv params k1" unfolding k1_def by (rule kinv_update_regs [OF assms(2) cur(1)])
    moreover have c1: "current k1 = current k" "p_state (processes k1 ! current k1) = P_RUNNABLE"
      using len cur(1) assms(3) by (simp_all add: k1_def update_regs_def set_proc_def Let_def)
    ultimately have "\<exists>r. return_to_user params k1 = Some r \<and> good params r"
      using return_current_good [OF assms(1)] resumed_good by blast
    with 2 show ?thesis by (simp add: dispatch_def then_return_def Let_def flip: k1_def)
  next
    case 3
    with schedule_good [OF assms(1,2) cur(1) assms(3)] show ?thesis by (simp add: dispatch_def)
  next
    case 4
    obtain k1 where k1: "handle_page_alloc k = Inr ((), k1)"
      using handle_page_alloc_effect [OF assms(1-3)] by blast
    then have "\<exists>r. return_to_user params k1 = Some r \<and> good params r"
      using handle_page_alloc_kinv [OF assms(1-3) k1] return_current_good [OF assms(1)] resumed_good by blast
    with 4 k1 show ?thesis by (simp add: dispatch_def then_return_def)
  qed
qed

lemma dispatch_fault:
  assumes "layout_ok params" "kinv params k" "p_state (processes k ! current k) = P_RUNNABLE"
    and "unat (reg_intno reg) = INT_PAGEFAULT" "reg_err reg AND PFERR_USER \<noteq> 0"
  obtains k1 where "dispatch params reg k = schedule params k1" "kinv params k1"
    "same_tasks (update_state (current k) P_BROKEN k) k1"
proof -
  note cur = current_ok [OF assms(2,3)]
  have len: "length (processes k) = NPROC" using kinv_processes [OF assms(2)] by (simp add: processes_ok_def)
  obtain c con where con: "con_vprintf (CPOS 24 0) 0x0C00 ''Process %d page fault for %p (%s %s, rip=%p)!\<newline>''
      [VInt (of_int (p_pid (processes k ! current k))), VPtr (cr2 k),
       VStr (if reg_err reg AND PFERR_WRITE \<noteq> 0 then ''write'' else ''read''),
       VStr (if reg_err reg AND PFERR_PRESENT \<noteq> 0 then ''protection problem'' else ''missing page''),
       VPtr (reg_rip reg)] k = Inr (c, k\<lparr>m_console := con\<rparr>)"
    using con_vprintf_ok [OF formats_fault] by metis
  define k1 where "k1 = update_state (current k) P_BROKEN (k\<lparr>m_console := con\<rparr>)"
  have "handle_page_fault reg k = Inr ((), k1)"
    using assms(5) con by (simp add: handle_page_fault_def k1_def Let_def)
  moreover have "p_state (processes k1 ! current k1) \<noteq> P_RUNNABLE"
    using len cur(1) by (simp add: k1_def update_state_def set_proc_def)
  ultimately have "dispatch params reg k = schedule params k1"
    using assms(4) by (simp add: dispatch_def then_return_def return_to_user_def)
  moreover have "kinv params (k\<lparr>m_console := con\<rparr>)" using assms(2) by (simp add: kinv_def Let_def)
  then have "kinv params k1"
    unfolding k1_def using cur(1) assms(3) by (intro kinv_update_state) simp_all
  moreover have "same_tasks (update_state (current k) P_BROKEN k) k1"
    by (simp add: same_tasks_def k1_def update_state_def set_proc_def)
  ultimately show thesis by (rule that)
qed

text \<open>Whenever \<open>schedule\<close> ends, it ends well, also if nothing was runnable when it started.\<close>

lemma schedule_loop_good:
  assumes "schedule_loop params pid k = Some r" "layout_ok params" "kinv params k"
  shows "good params r"
proof -
  have "layout_ok params \<longrightarrow> kinv params k \<longrightarrow> good params r"
  proof (rule schedule_loop.raw_induct [OF _ assms(1)], intro impI)
    fix f :: "'a kparams_scheme \<Rightarrow> nat \<Rightarrow> kstate \<Rightarrow> (x86_64_registers, kstate) outcome option"
    fix params :: "'a kparams_scheme" and pid :: nat and k :: kstate and r
    assume IH: "\<And>params pid k r. f params pid k = Some r \<Longrightarrow> layout_ok params \<longrightarrow> kinv params k \<longrightarrow> good params r"
      and body: "(let pid' = (pid + 1) mod NPROC
        in if p_state (processes k ! pid') = P_RUNNABLE then Some (run params pid' k)
           else case check_keyboard params k of Inl r \<Rightarrow> Some (Inl r) | Inr (_, k) \<Rightarrow> f params pid' k) = Some r"
      and lay: "layout_ok params" and inv: "kinv params k"
    show "good params r"
    proof (cases "p_state (processes k ! ((pid + 1) mod NPROC)) = P_RUNNABLE")
      case True
      have i: "(pid + 1) mod NPROC < NPROC" by simp
      have "r = run params ((pid + 1) mod NPROC) k" using body True by simp
      then show ?thesis
        using runs_resumed [OF inv i True run_ok [OF lay inv i True]] resumed_good True by blast
    next
      case False
      note kb = check_keyboard_effect [OF lay, of k]
      show ?thesis
      proof (cases "check_keyboard params k")
        case (Inl a)
        then show ?thesis using kb body False by (auto simp: good_def split: prod.splits)
      next
        case (Inr b)
        then obtain c k1 where k1: "check_keyboard params k = Inr (c, k1)" by (cases b) auto
        then have kb1: "only_kb k k1" using kb by simp
        then have "kinv params k1"
          using kinv_showing [OF inv] only_kb_fields(5) [OF kb1]
          by (intro same_tasks_kinv [OF inv same_tasks_only(2) [OF kb1]]) simp
        then show ?thesis using IH [of params "(pid + 1) mod NPROC" k1 r] body False k1 lay by simp
      qed
    qed
  qed
  with assms(2,3) show ?thesis by blast
qed

lemma dispatch_unhandled:
  assumes "\<not> handled reg"
  shows "\<exists>k'. dispatch params reg k = Some (Inl (Failed, k'))"
proof -
  obtain k1 where k1: "(panic None k :: (unit, kstate) outcome) = Inl (Failed, k1)"
    by (rule panic_fails [of None k]) simp_all
  obtain k2 where k2: "(panic (Some (''Unexpected exception %d!\<newline>'', [VLong (reg_intno reg)])) k :: (unit, kstate) outcome)
      = Inl (Failed, k2)"
    by (rule panic_fails [of "Some (''Unexpected exception %d!\<newline>'', [VLong (reg_intno reg)])" k])
      (simp_all add: formats_unexpected)
  define op pr where "op = (if reg_err reg AND PFERR_WRITE \<noteq> 0 then ''write'' else ''read'')"
    and "pr = (if reg_err reg AND PFERR_PRESENT \<noteq> 0 then ''protection problem'' else ''missing page'')"
  define f where "f = (''Kernel page fault for %p (%s %s, rip=%p)!\<newline>'',
      [VPtr (cr2 k), VStr op, VStr pr, VPtr (reg_rip reg)])"
  have "formats (fst f) (snd f)" by (simp add: f_def format_simps)
  then obtain k3 where k3: "(panic (Some f) k :: (unit, kstate) outcome) = Inl (Failed, k3)"
    by (cases f) (rule panic_fails [of "Some f" k], simp_all)
  have "(handle_page_fault reg k :: (unit, kstate) outcome) = Inl (Failed, k3)" if "unat (reg_intno reg) = INT_PAGEFAULT"
    using assms that k3 by (simp add: handle_page_fault_def handled_def Let_def f_def op_def pr_def)
  then show ?thesis
    using assms k1 k2 by (auto simp: dispatch_def then_return_def handled_def Let_def)
qed

text \<open>The handler up to its switch.\<close>

lemma exception_dispatch:
  fixes reg :: x86_64_registers
  assumes "layout_ok params" "kinv params k" "p_state (processes k ! current k) = P_RUNNABLE"
  defines "k0 \<equiv> update_regs (current k) (\<lambda>_. reg) k"
  obtains st k' where "exception params reg k = Some (Inl (st, k'))" "wanted_stop st"
  | k' where "exception params reg k = dispatch params reg k'" "kinv params k'" "same_tasks k0 k'"
    "p_state (processes k' ! current k') = P_RUNNABLE"
proof -
  define kp where "kp = sym_kernel_pagetables params"
  note cur = current_ok [OF assms(2,3)]
  have len: "length (processes k) = NPROC" using kinv_processes [OF assms(2)] by (simp add: processes_ok_def)
  have inv0: "kinv params k0" unfolding k0_def by (rule kinv_update_regs [OF assms(2) cur(1)])
  have k0: "kernel_pagetable k0 = kp" "p_state (processes k0 ! current k0) = P_RUNNABLE"
    using assms(2,3) cur(1) len by (simp_all add: k0_def update_regs_def set_proc_def Let_def kinv_def kp_def)
  have pt: "kset_pagetable params (kernel_pagetable k0) k0 = Inr ((), k0\<lparr>m_cr3 := kp\<rparr>)"
    using kset_pagetable_ok [OF assms(1) inv0] k0(1) by (simp add: kp_def)
  define k1 where "k1 = console_show_cursor (m_cursorpos (k0\<lparr>m_cr3 := kp\<rparr>)) (k0\<lparr>m_cr3 := kp\<rparr>)"
  have st1: "same_tasks k0 k1" and sh1: "0 \<le> anim_showing k1"
    using kinv_showing [OF inv0]
    by (simp_all add: k1_def console_show_cursor_def outb_def Let_def same_tasks_def)
  have inv1: "kinv params k1" by (rule same_tasks_kinv [OF inv0 st1 sh1])
  have run: "exception params reg k = (case bindM (exception_checks params reg k1) (\<lambda>_ k. check_keyboard params k) of
        Inl e \<Rightarrow> Some (Inl e) | Inr (_, k) \<Rightarrow> dispatch params reg k)"
    unfolding exception_def Let_def k0_def [symmetric] pt bindM_Inr k1_def by (rule refl)
  note ec = exception_checks_effect [OF assms(1) inv1, of reg]
  show thesis
  proof (cases "exception_checks params reg k1")
    case (Inl a)
    then show thesis using that(1) [of "fst a" "snd a"] run ec by (cases a) auto
  next
    case (Inr b)
    then obtain k2 where k2: "exception_checks params reg k1 = Inr ((), k2)" by (cases b) auto
    have st2: "same_tasks k0 k2" and "0 \<le> anim_showing k2"
      using ec k2 same_tasks_trans [OF st1] by auto
    then have inv2: "kinv params k2" by (intro same_tasks_kinv [OF inv0])
    note kb = check_keyboard_effect [OF assms(1), of k2]
    show thesis
    proof (cases "check_keyboard params k2")
      case (Inl a)
      then show thesis using that(1) [of "fst a" "snd a"] run kb k2 by (cases a) auto
    next
      case (Inr c)
      then obtain v k3 where k3: "check_keyboard params k2 = Inr (v, k3)" by (cases c) auto
      then have kb3: "only_kb k2 k3" using kb by simp
      have st3: "same_tasks k0 k3" by (rule same_tasks_trans [OF st2 same_tasks_only(2) [OF kb3]])
      have "kinv params k3"
        using kinv_showing [OF inv2] only_kb_fields(5) [OF kb3] by (intro same_tasks_kinv [OF inv0 st3]) simp
      moreover have "p_state (processes k3 ! current k3) = P_RUNNABLE" using st3 k0(2) by (simp add: same_tasks_def)
      ultimately show thesis using that(2) [of k3] run k2 k3 st3 by simp
    qed
  qed
qed

end
