(* ===== verification/KernelBoot.thy ===== *)
theory KernelBoot
  imports KernelThms
begin

text \<open>
  From power-on to the first process: \<open>kernel_init\<close> establishes the kernel invariant, and admitting
  a process as \<open>process_setup\<close> does keeps it. The demonstration machine at the end is the concrete
  input of the witnesses.
\<close>

section \<open>Initialisation\<close>

lemma page_of_index:
  assumes "n < NPAGES"
  shows "unat (4096 * of_nat n :: u64) = 4096 * n" "PAGENUMBER (4096 * of_nat n) = int n"
proof -
  have "unat (of_nat n :: u64) = n" using assms by (intro unat_of_nat_u64) simp
  then show u: "unat (4096 * of_nat n :: u64) = 4096 * n" using assms by (simp add: unat_mult_u64)
  then show "PAGENUMBER (4096 * of_nat n) = int n"
    using PAGENUMBER_small [of "4096 * of_nat n"] assms by simp
qed

lemma pageinfo_init_loop_effect:
  assumes "\<And>i. i \<in> set is \<Longrightarrow> i < NPAGES"
  shows "\<exists>pis. pageinfo_init_loop syms (map (\<lambda>i. 4096 * of_nat i) is) k = k\<lparr>pageinfo := pis\<rparr>
    \<and> length pis = length (pageinfo k)
    \<and> (\<forall>n < length (pageinfo k). pis ! n =
         (if n \<in> set is then initial_pageinfo syms (4096 * of_nat n) else pageinfo k ! n))"
  using assms
proof (induction "is" arbitrary: k)
  case Nil
  then show ?case by (intro exI [of _ "pageinfo k"]) simp
next
  case (Cons i "is")
  define k1 where "k1 = set_pageinfo i (initial_pageinfo syms (4096 * of_nat i)) k"
  have i: "i < NPAGES" using Cons.prems by simp
  obtain pis where pis: "pageinfo_init_loop syms (map (\<lambda>i. 4096 * of_nat i) is) k1 = k1\<lparr>pageinfo := pis\<rparr>"
    "length pis = length (pageinfo k1)"
    "\<forall>n < length (pageinfo k1). pis ! n =
         (if n \<in> set is then initial_pageinfo syms (4096 * of_nat n) else pageinfo k1 ! n)"
    using Cons.IH [of k1] Cons.prems by auto
  have "pageinfo_init_loop syms (map (\<lambda>i. 4096 * of_nat i) (i # is)) k = k\<lparr>pageinfo := pis\<rparr>"
    using pis(1) page_of_index(2) [OF i] by (simp add: k1_def set_pageinfo_def)
  then show ?case using pis(2,3) by (auto simp: k1_def set_pageinfo_def nth_list_update)
qed

lemma pageinfo_init_effect:
  assumes "length (pageinfo k) = NPAGES"
  obtains pis where "pageinfo_init syms k = k\<lparr>pageinfo := pis\<rparr>" "length pis = NPAGES"
    "\<And>n. n < NPAGES \<Longrightarrow> pis ! n = initial_pageinfo syms (4096 * of_nat n)"
proof -
  have "page_addresses 0 MEMSIZE_PHYSICAL = map (\<lambda>i. 4096 * of_nat i) [0..<NPAGES]"
    by (simp add: page_addresses_def del: upt.simps)
  then show thesis
    using pageinfo_init_loop_effect [of "[0..<NPAGES]" syms k] assms that
    by (auto simp: pageinfo_init_def simp del: upt.simps)
qed

lemma initial_pageinfo_range:
  "0 \<le> refcount (initial_pageinfo syms a)"
  "0 < refcount (initial_pageinfo syms a) \<Longrightarrow> PO_KERNEL \<le> owner (initial_pageinfo syms a)"
  "0 < refcount (initial_pageinfo syms a) \<Longrightarrow> owner (initial_pageinfo syms a) < 0"
  by (auto simp: initial_pageinfo_def Let_def to_i8_small split: if_splits)

lemma initial_pageinfo_table:
  assumes "layout_ok params" "j < 5"
  shows "initial_pageinfo params (4096 * of_nat (table_page (sym_kernel_pagetables params) j))
    = \<lparr>owner = PO_KERNEL, refcount = 1\<rparr>"
proof -
  define kp where "kp = sym_kernel_pagetables params"
  have fit: "tables_fit kp" using assms(1) by (simp add: layout_ok_def kp_def)
  define a :: u64 where "a = 4096 * of_nat (table_page kp j)"
  from fit obtain q where "unat kp = 4096 * q" by (auto simp: tables_fit_def)
  then have u: "unat a = unat kp + 4096 * j"
    using page_of_index(1) [OF table_page_number(2) [OF fit assms(2)]] by (simp add: a_def table_page_def)
  have "0x40000 \<le> unat kp" "unat kp + 20480 \<le> unat (sym_end params)" "unat (sym_end params) \<le> 0x7F000"
    using assms(1) by (auto simp: layout_ok_def kp_def word_le_nat_alt)
  then have "0x40000 \<le> unat a" "unat a < unat (sym_end params)" "unat a < 0x7F000"
    using u assms(2) by linarith+
  then have "\<not> physical_memory_isreserved a" "KERNEL_START_ADDR \<le> a \<and> a < sym_end params"
    by (auto simp: physical_memory_isreserved_def word_le_nat_alt word_less_nat_alt)
  then show ?thesis
    by (simp add: initial_pageinfo_def Let_def to_i8_small flip: kp_def a_def)
qed

lemma kernel_init_effect:
  assumes "layout_ok params" "length (pageinfo k) = NPAGES" "0 \<le> anim_showing k" "current k < NPROC"
  shows "\<exists>k'. kernel_init params k = Inr ((), k') \<and> kinv params k' \<and> processes k' = map free_proc [0..<NPROC]"
proof -
  define kp where "kp = sym_kernel_pagetables params"
  define k1 where "k1 = interrupt_init (k\<lparr>m_cpu := segments_init params (m_cpu k)\<rparr>)"
  have k1: "pageinfo k1 = pageinfo k" "anim_showing k1 = anim_showing k" "current k1 = current k"
    by (simp_all add: k1_def interrupt_init_def interrupt_mask_def outb_def Let_def)
  obtain m where m: "virtual_memory_init params (m_mem k1) = Inr (kp, m)" "kernel_tables m kp"
    using init_kernel_tables [of params "m_mem k1"] assms(1) by (auto simp: layout_ok_def kp_def)
  define k2 where "k2 = k1\<lparr>m_mem := m, kernel_pagetable := kp, m_cr3 := kp\<rparr>"
  have hw: "hardware_init params k = Inr ((), k2)"
    using m(1) by (simp add: hardware_init_def k2_def Let_def flip: k1_def)
  obtain pis where pis: "pageinfo_init params k2 = k2\<lparr>pageinfo := pis\<rparr>" "length pis = NPAGES"
    "\<And>n. n < NPAGES \<Longrightarrow> pis ! n = initial_pageinfo params (4096 * of_nat n)"
    using pageinfo_init_effect [of k2 params] assms(2) k1(1) by (auto simp: k2_def)
  define k3 where "k3 = timer_init HZ (k2\<lparr>pageinfo := pis, m_console := snd (console_clear (m_console k2)),
      m_cursorpos := fst (console_clear (m_console k2))\<rparr>)"
  define k4 where "k4 = k3\<lparr>processes := map free_proc [0..<NPROC]\<rparr>"
  have run: "kernel_init params k = Inr ((), k4)"
    by (simp add: kernel_init_def hw pis(1) Let_def split_beta k3_def k4_def del: upt.simps)
  have f: "kernel_pagetable k4 = kp" "m_mem k4 = m" "pageinfo k4 = pis" "anim_showing k4 = anim_showing k"
    "current k4 = current k" "processes k4 = map free_proc [0..<NPROC]"
    using k1 by (simp_all add: k4_def k3_def k2_def timer_init_def interrupt_mask_def outb_def Let_def del: upt.simps)
  have fit: "tables_fit kp" using assms(1) by (simp add: layout_ok_def kp_def)
  have "used (map free_proc [0..<NPROC]) = 0"
    by (simp add: used_def free_proc_def filter_map comp_def del: upt.simps)
  then have "tables_owned kp (processes k4) pis"
    using pis(3) table_page_number(2) [OF fit] initial_pageinfo_table [OF assms(1)]
    by (simp add: tables_owned_def f(6) kp_def del: upt.simps)
  moreover have "pages_ok (processes k4) pis"
    using pis(2,3) initial_pageinfo_range [of params] by (fastforce simp: pages_ok_def)
  moreover have "processes_ok kp (processes k4)"
    by (simp add: processes_ok_def f(6) free_proc_def del: upt.simps)
  ultimately have "kinv params k4"
    using f m(2) assms(3,4) by (simp add: kinv_def Let_def kp_def)
  with run f(6) show ?thesis by blast
qed

section \<open>Admitting a process\<close>

text \<open>The changes of \<open>process_setup\<close> to the tables, apart from registers and memory.\<close>

definition admit :: "nat \<Rightarrow> kstate \<Rightarrow> kstate" where
  "admit i k =
     (let n = nat (PAGENUMBER (kernel_pagetable k));
          info = pageinfo k ! n;
          k = set_pageinfo n (info\<lparr>refcount := to_i8 (refcount info + 1)\<rparr>) k
      in set_proc i ((processes k ! i)\<lparr>p_pagetable := kernel_pagetable k, p_state := P_RUNNABLE\<rparr>) k)"

lemma length_filter_insert:
  assumes "P y" "\<not> P (xs ! i)" "i < length xs"
  shows "length (filter P (xs[i := y])) = Suc (length (filter P xs))"
  using assms
proof (induction xs arbitrary: i)
  case (Cons x xs)
  then show ?case by (cases i) auto
qed simp

lemma used_le: "length ps = NPROC \<Longrightarrow> used ps \<le> NPROC"
  unfolding used_def by (metis length_filter_le)

lemma kinv_admit:
  assumes "tables_fit (sym_kernel_pagetables params)" "kinv params k" "1 \<le> i" "i < NPROC"
    "p_state (processes k ! i) = P_FREE"
  shows "kinv params (admit i k)" "p_state (processes (admit i k) ! i) = P_RUNNABLE"
proof -
  define kp where "kp = sym_kernel_pagetables params"
  define n where "n = table_page kp 0"
  define p where "p = (processes k ! i)\<lparr>p_pagetable := kp, p_state := P_RUNNABLE\<rparr>"
  have k: "kernel_pagetable k = kp" "processes_ok kp (processes k)" "pages_ok (processes k) (pageinfo k)"
    "tables_owned kp (processes k) (pageinfo k)"
    using assms(2) by (simp_all add: kinv_def Let_def kp_def)
  have len: "length (processes k) = NPROC" "length (pageinfo k) = NPAGES"
    using k(2,3) by (simp_all add: processes_ok_def pages_ok_def)
  have n: "nat (PAGENUMBER kp) = n" "n < NPAGES"
    using table_page_number [OF assms(1), of 0] by (simp_all add: n_def kp_def)
  have info: "pageinfo k ! n = \<lparr>owner = PO_KERNEL, refcount = 1 + int (used (processes k))\<rparr>"
    using k(4) by (simp add: tables_owned_def n_def)
  have "to_i8 (1 + int (used (processes k)) + 1) = 2 + int (used (processes k))"
    using used_le [OF len(1)] by (subst to_i8_small) simp_all
  then have adm: "admit i k = set_proc i p (set_pageinfo n \<lparr>owner = PO_KERNEL, refcount = 2 + int (used (processes k))\<rparr> k)"
    by (simp add: admit_def Let_def k(1) n(1) info p_def set_pageinfo_def)
  have "used ((processes k)[i := p]) = Suc (used (processes k))"
    unfolding used_def using assms(4,5) len(1) by (intro length_filter_insert) (simp_all add: p_def)
  moreover have "n \<noteq> table_page kp j" if "1 \<le> j" for j using that by (simp add: n_def table_page_def)
  ultimately have "tables_owned kp ((processes k)[i := p])
      ((pageinfo k)[n := \<lparr>owner = PO_KERNEL, refcount = 2 + int (used (processes k))\<rparr>])"
    using k(4) n(2) len(2) by (auto simp: tables_owned_def simp flip: n_def)
  moreover have "pages_ok ((processes k)[i := p])
      ((pageinfo k)[n := \<lparr>owner = PO_KERNEL, refcount = 2 + int (used (processes k))\<rparr>])"
  proof -
    have "p_state ((processes k)[i := p] ! j) \<noteq> P_FREE" if "p_state (processes k ! j) \<noteq> P_FREE" for j
      using that assms(4) len(1) by (cases "j = i") (simp_all add: p_def)
    then show ?thesis using k(3) n(2) len(2) by (auto simp: pages_ok_def nth_list_update)
  qed
  moreover have "processes_ok kp ((processes k)[i := p])"
    using k(2) assms(3,4) len(1) by (auto simp: processes_ok_def nth_list_update p_def)
  ultimately show "kinv params (admit i k)"
    using assms(2) by (simp add: adm set_proc_def set_pageinfo_def kinv_def Let_def kp_def)
  show "p_state (processes (admit i k) ! i) = P_RUNNABLE"
    using assms(4) len(1) by (simp add: adm set_proc_def set_pageinfo_def p_def)
qed

section \<open>A demonstration machine\<close>

text \<open>A kernel image with tables at 0x50000, and a machine whose devices always answer 0.\<close>

definition demo_params :: kparams where
  "demo_params = \<lparr>sym_default_int_handler = 0x40100, sym_virtual_memory_map = 0x40200,
     sym_kernel_pagetables = 0x50000, sym_gpf_int_handler = 0x40300, sym_pagefault_int_handler = 0x40340,
     sym_timer_int_handler = 0x40380, sym_sys_int_handlers = (\<lambda>i. 0x40400 + of_nat i),
     sym_kernel_task_descriptor = 0x56000, sym_segments = 0x57000, sym_interrupt_descriptors = 0x58000,
     sym_literal = (\<lambda>_. 0x48000), sym_start_data = 0x4F000, sym_end = 0x60000, ramimages = [],
     TICK_LIMIT = 0, FORCE_FORK = False\<rparr>"

definition power_on :: kstate where
  "power_on = \<lparr>m_dev = (\<lambda>io port. 0), m_io = [], m_mem = (\<lambda>a. 0), m_cr3 = 0, m_console = (\<lambda>i. 0),
     m_cursorpos = 0, interrupts_enabled = 0, parallel_initialized = False, kb_modifiers = 0,
     kb_last_escape = 0,
     m_cpu = \<lparr>segments = replicate 7 0,
       kernel_task_descriptor = \<lparr>ts_rsp = [0, 0, 0], ts_ist = replicate 7 0, ts_iomap_base = 0\<rparr>,
       interrupt_descriptors = replicate 256 no_gate, gdtr = \<lparr>pseudod_limit = 0, pseudod_base = 0\<rparr>,
       idtr = \<lparr>pseudod_limit = 0, pseudod_base = 0\<rparr>, task_register = 0, cr0 = 0\<rparr>,
     processes = [], current = 0, ticks = 0, pageinfo = replicate 512 \<lparr>owner = 0, refcount = 0\<rparr>,
     kernel_pagetable = 0, anim_last_ticks = 0, anim_showing = 1, cr2 = 0\<rparr>"

lemma demo_layout: "layout_ok demo_params"
  by (simp add: layout_ok_def tables_fit_def demo_params_def)

lemma demo_power_on: "length (pageinfo power_on) = NPAGES" "0 \<le> anim_showing power_on" "current power_on < NPROC"
  by (simp_all add: power_on_def)

lemma demo_running:
  obtains k where "kinv demo_params k" "current k = 1" "p_state (processes k ! 1) = P_RUNNABLE"
    "p_state (processes k ! 2) = P_RUNNABLE"
proof -
  obtain k0 where k0: "kinv demo_params k0" "processes k0 = map free_proc [0..<NPROC]"
    using kernel_init_effect [OF demo_layout demo_power_on] by blast
  note fit = layout_tables [OF demo_layout]
  have free: "p_state (processes k0 ! i) = P_FREE" if "i < NPROC" for i
    using that by (simp add: k0(2) free_proc_def del: upt.simps)
  note one = kinv_admit [OF fit k0(1), of 1]
  have len: "length (processes k0) = NPROC" using k0(2) by simp
  have "p_state (processes (admit 1 k0) ! 2) = P_FREE"
    using free [of 2] by (simp add: admit_def set_proc_def set_pageinfo_def Let_def)
  then have two: "kinv demo_params (admit 2 (admit 1 k0))" "p_state (processes (admit 2 (admit 1 k0)) ! 2) = P_RUNNABLE"
    using kinv_admit [OF fit one(1), of 2] free [of 1] by simp_all
  have "p_state (processes (admit 2 (admit 1 k0)) ! 1) = p_state (processes (admit 1 k0) ! 1)"
    by (simp add: admit_def [of 2] set_proc_def set_pageinfo_def Let_def)
  then have "p_state (processes (admit 2 (admit 1 k0)) ! 1) = P_RUNNABLE"
    using one(2) free [of 1] by simp
  then show thesis
    using two that [of "(admit 2 (admit 1 k0))\<lparr>current := 1\<rparr>"] by (simp add: kinv_def Let_def)
qed

end
