(* ===== verification/KernelProps.thy ===== *)
theory KernelProps
  imports KernelBoot
begin

text \<open>
  The properties of the kernel: initialisation establishes its invariant, the invariant makes its
  self-checks pass, the exception handler keeps it and returns to a runnable process, the scheduler
  is fair, page allocation is exclusive, and the system calls that applications use but the handler
  does not know end in a panic.
\<close>

section \<open>Liveness\<close>

lemma exception_returns:
  assumes "layout_ok params" "kinv params k" "p_state (processes k ! current k) = P_RUNNABLE" "handled reg"
    and "unat (reg_intno reg) = INT_PAGEFAULT \<Longrightarrow>
      \<exists>i < NPROC. i \<noteq> current k \<and> p_state (processes k ! i) = P_RUNNABLE"
  shows "\<exists>r. exception params reg k = Some r \<and> good params r"
  using assms(1-3)
proof (cases rule: exception_dispatch [of params k reg])
  case (1 st k')
  then show ?thesis by (simp add: good_def)
next
  case (2 k')
  consider "unat (reg_intno reg) \<in> {INT_TIMER, INT_SYS_GETPID, INT_SYS_YIELD, INT_SYS_PAGE_ALLOC}"
    | "unat (reg_intno reg) = INT_PAGEFAULT" "reg_err reg AND PFERR_USER \<noteq> 0"
    using assms(4) unfolding handled_def by blast
  then show ?thesis
  proof cases
    case 1
    then show ?thesis using dispatch_runnable [OF assms(1) 2(2,4) 1] 2(1) by simp
  next
    case b: 2
    obtain k1 where k1: "dispatch params reg k' = schedule params k1" "kinv params k1"
      "same_tasks (update_state (current k') P_BROKEN k') k1"
      by (rule dispatch_fault [OF assms(1) 2(2,4) b])
    obtain i where i: "i < NPROC" "i \<noteq> current k" "p_state (processes k ! i) = P_RUNNABLE"
      using assms(5) b(1) by blast
    have "p_state (processes k1 ! i) = P_RUNNABLE"
      using k1(3) 2(3) i by (simp add: same_tasks_def update_state_def set_proc_def update_regs_def Let_def)
    then show ?thesis using schedule_good [OF assms(1) k1(2) i(1)] k1(1) 2(1) by simp
  qed
qed

lemma demo_exception:
  assumes "handled reg" "unat (reg_intno reg) \<noteq> INT_PAGEFAULT"
  obtains k r where "kinv demo_params k" "p_state (processes k ! current k) = P_RUNNABLE"
    "exception demo_params reg k = Some r" "good demo_params r"
proof -
  obtain k where k: "kinv demo_params k" "current k = 1" "p_state (processes k ! 1) = P_RUNNABLE"
    by (rule demo_running)
  then have run: "p_state (processes k ! current k) = P_RUNNABLE" by simp
  obtain r where "exception demo_params reg k = Some r" "good demo_params r"
    using exception_returns [OF demo_layout k(1) run assms(1)] assms(2) by blast
  with k(1) run that show thesis by blast
qed

definition timer_regs :: x86_64_registers where
  "timer_regs = zero_registers\<lparr>reg_intno := of_nat INT_TIMER\<rparr>"

lemma timer_regs_handled: "handled timer_regs" "unat (reg_intno timer_regs) \<noteq> INT_PAGEFAULT"
  by (simp_all add: handled_def timer_regs_def zero_registers_def)

section \<open>Properties of the exception handler\<close>

text \<open>
  C4 (initialisation). From any power-on state, \<open>kernel_init\<close> succeeds and establishes the kernel
  invariant: identity-mapped page tables, kernel-owned table pages with the right reference counts,
  sixteen free process slots.
\<close>

theorem kernel_init_establishes:
  assumes "layout_ok params" and "length (pageinfo k) = NPAGES" and "0 \<le> anim_showing k"
    and "current k < NPROC"
  shows "\<exists>k'. kernel_init params k = Inr ((), k') \<and> kinv params k'
    \<and> (\<forall>i < NPROC. processes k' ! i = free_proc i)"
  using kernel_init_effect [OF assms] by (auto simp del: upt.simps)

theorem kernel_init_establishes_witness:
  "\<exists>k'. kernel_init demo_params power_on = Inr ((), k') \<and> kinv demo_params k' \<and> processes k' ! 3 = free_proc 3"
  using kernel_init_establishes [OF demo_layout demo_power_on] by auto

text \<open>
  C3 (the self-checks never fail). In every state that satisfies the invariant,
  \<open>check_virtual_memory\<close> passes all of its assertions and changes nothing.
\<close>

theorem check_virtual_memory_passes:
  assumes "layout_ok params" and "kinv params k"
  shows "check_virtual_memory params k = Inr ((), k)"
  by (rule check_virtual_memory_pass [OF assms])

theorem check_virtual_memory_passes_witness:
  "\<exists>k. current k = 1 \<and> check_virtual_memory demo_params k = Inr ((), k)"
  by (rule demo_running) (use check_virtual_memory_passes [OF demo_layout] in blast)

text \<open>
  C1 (the exception handler is safe). Entered with the invariant and a runnable current process,
  \<open>exception\<close>, if it ends, either returns to a runnable process with that process's registers and
  page table and with the invariant kept, or stops because a control key or the tick limit asked
  for it; it panics only for the system call \<open>INT_SYS_PANIC\<close>, a page fault in the kernel or an
  exception that it does not know.
  No assertion fails, no array is overrun and no format is misused on any path.
\<close>

theorem exception_safe:
  assumes "layout_ok params" and "kinv params k" and "p_state (processes k ! current k) = P_RUNNABLE"
    and "exception params reg k = Some r"
  shows "good params r \<or> (\<not> handled reg \<and> (\<exists>k'. r = Inl (Failed, k')))"
  using assms(1-3)
proof (cases rule: exception_dispatch [of params k reg])
  case (1 st k')
  then show ?thesis using assms(4) by (simp add: good_def)
next
  case (2 k')
  show ?thesis
  proof (cases "handled reg")
    case False
    then show ?thesis using dispatch_unhandled [of reg params k'] 2(1) assms(4) by auto
  next
    case True
    then consider "unat (reg_intno reg) \<in> {INT_TIMER, INT_SYS_GETPID, INT_SYS_YIELD, INT_SYS_PAGE_ALLOC}"
      | "unat (reg_intno reg) = INT_PAGEFAULT" "reg_err reg AND PFERR_USER \<noteq> 0"
      unfolding handled_def by blast
    then show ?thesis
    proof cases
      case 1
      then show ?thesis using dispatch_runnable [OF assms(1) 2(2,4) 1] 2(1) assms(4) by auto
    next
      case b: 2
      obtain k1 where "dispatch params reg k' = schedule params k1" "kinv params k1"
        using dispatch_fault [OF assms(1) 2(2,4) b] by metis
      then show ?thesis
        using schedule_loop_good [OF _ assms(1)] 2(1) assms(4) by (auto simp: schedule_def)
    qed
  qed
qed

theorem exception_safe_witness:
  "\<exists>k r. kinv demo_params k \<and> exception demo_params timer_regs k = Some r \<and> good demo_params r"
  by (rule demo_exception [OF timer_regs_handled])
    (use exception_safe [OF demo_layout] timer_regs_handled(1) in blast)

text \<open>
  C2 (the exception handler is live). For every exception that it knows the handler ends: it never
  spins in the scheduler, except after a page fault of the only runnable process.
\<close>

theorem exception_live:
  assumes "layout_ok params" and "kinv params k" and "p_state (processes k ! current k) = P_RUNNABLE"
    and "handled reg"
    and "unat (reg_intno reg) = INT_PAGEFAULT \<Longrightarrow>
      \<exists>i < NPROC. i \<noteq> current k \<and> p_state (processes k ! i) = P_RUNNABLE"
  shows "\<exists>r. exception params reg k = Some r \<and> good params r"
  by (rule exception_returns [OF assms])

theorem exception_live_witness:
  "\<exists>k r. current k = 1 \<and> exception demo_params
      (zero_registers\<lparr>reg_intno := of_nat INT_PAGEFAULT, reg_err := PFERR_USER\<rparr>) k = Some r \<and> good demo_params r"
proof -
  obtain k where k: "kinv demo_params k" "current k = 1" "p_state (processes k ! 1) = P_RUNNABLE"
    "p_state (processes k ! 2) = P_RUNNABLE"
    by (rule demo_running)
  let ?reg = "zero_registers\<lparr>reg_intno := of_nat INT_PAGEFAULT, reg_err := PFERR_USER\<rparr>"
  have "handled ?reg" by (simp add: handled_def)
  moreover have "\<exists>i < NPROC. i \<noteq> current k \<and> p_state (processes k ! i) = P_RUNNABLE"
    using k by (intro exI [of _ 2]) simp
  ultimately show ?thesis
    using exception_live [OF demo_layout k(1), of ?reg] k(2,3) by auto
qed

text \<open>
  C5 (round robin). If any process is runnable, \<open>schedule\<close> ends: it resumes the first runnable
  process after the current one in cyclic order of process numbers, with that process's saved
  registers and page table and with nothing else of the kernel's tables changed, unless a control
  key stops the machine first.
\<close>

theorem schedule_round_robin:
  assumes "layout_ok params" and "kinv params k"
    and "p_state (processes k ! ((current k + d + 1) mod NPROC)) = P_RUNNABLE"
    and "\<forall>e < d. p_state (processes k ! ((current k + e + 1) mod NPROC)) \<noteq> P_RUNNABLE"
  shows "\<exists>r. schedule params k = Some r \<and> resumed params k ((current k + d + 1) mod NPROC) r"
  using schedule_finds [OF assms(1-3)] assms(4) by blast

theorem schedule_round_robin_witness:
  "\<exists>k r. current k = 1 \<and> schedule demo_params k = Some r \<and> resumed demo_params k 2 r"
proof -
  obtain k where k: "kinv demo_params k" "current k = 1" "p_state (processes k ! 2) = P_RUNNABLE"
    by (rule demo_running)
  then show ?thesis using schedule_round_robin [OF demo_layout k(1), of 0] by (auto simp: numeral_2_eq_2)
qed

text \<open>
  C6 (page allocation). The system call \<open>sys_page_alloc\<close> succeeds exactly for a page-aligned address
  of a physical page that nobody holds. On success the page belongs to the calling process with
  reference count 1 and the call returns 0; otherwise it returns -1. No other page changes hands,
  memory (and with it every mapping) is unchanged, and the invariant is kept.
\<close>

theorem page_alloc_exclusive:
  assumes "layout_ok params" and "kinv params k" and "p_state (processes k ! current k) = P_RUNNABLE"
    and "addr = reg_rdi (p_registers (processes k ! current k))"
  shows "\<exists>k'. handle_page_alloc k = Inr ((), k') \<and> kinv params k' \<and> m_mem k' = m_mem k
    \<and> reg_rax (p_registers (processes k' ! current k)) = (if assignable addr k then 0 else - 1)
    \<and> (\<forall>n < NPAGES. pageinfo k' ! n =
         (if assignable addr k \<and> n = unat addr div 4096
          then \<lparr>owner = p_pid (processes k ! current k), refcount = 1\<rparr> else pageinfo k ! n))"
proof -
  note cur = current_ok [OF assms(2,3)]
  define k1 where "k1 = (if assignable addr k
       then set_pageinfo (unat addr div 4096) \<lparr>owner = int (current k), refcount = 1\<rparr> k else k)"
  define k' where "k' = update_regs (current k) (\<lambda>regs. regs\<lparr>reg_rax := (if assignable addr k then 0 else - 1)\<rparr>) k1"
  have run: "handle_page_alloc k = Inr ((), k')"
    using handle_page_alloc_effect [OF assms(1-3)] by (simp add: assms(4) k'_def k1_def)
  have len: "length (processes k) = NPROC" "length (pageinfo k) = NPAGES"
    using assms(2) by (simp_all add: kinv_def Let_def processes_ok_def pages_ok_def)
  have "pageinfo k' ! n = (if assignable addr k \<and> n = unat addr div 4096
          then \<lparr>owner = p_pid (processes k ! current k), refcount = 1\<rparr> else pageinfo k ! n)" if "n < NPAGES" for n
    using that len(2) cur(2)
    by (auto simp: k'_def k1_def update_regs_def set_proc_def set_pageinfo_def Let_def)
  moreover have "reg_rax (p_registers (processes k' ! current k)) = (if assignable addr k then 0 else - 1)"
    "m_mem k' = m_mem k"
    using len(1) cur(1) by (simp_all add: k'_def k1_def update_regs_def set_proc_def set_pageinfo_def Let_def)
  ultimately show ?thesis
    using run handle_page_alloc_kinv [OF assms(1-3) run] by blast
qed

lemma demo_alloc:
  obtains k where "kinv demo_params k" "current k = 1" "p_state (processes k ! current k) = P_RUNNABLE"
    "reg_rdi (p_registers (processes k ! 1)) = addr" "p_pid (processes k ! 1) = 1" "refcount (pageinfo k ! 256) = 0"
proof -
  obtain k0 where k0: "kinv demo_params k0" "current k0 = 1" "p_state (processes k0 ! 1) = P_RUNNABLE"
    by (rule demo_running)
  define k1 where "k1 = update_regs 1 (\<lambda>r. r\<lparr>reg_rdi := addr\<rparr>) k0"
  have "length (processes k0) = NPROC" using kinv_processes [OF k0(1)] by (simp add: processes_ok_def)
  then have k1: "kinv demo_params k1" "current k1 = 1" "p_state (processes k1 ! current k1) = P_RUNNABLE"
    "reg_rdi (p_registers (processes k1 ! 1)) = addr"
    using k0 kinv_update_regs [OF k0(1), of 1] by (simp_all add: k1_def update_regs_def set_proc_def Let_def)
  have pid: "p_pid (processes k1 ! 1) = 1" using current_ok [OF k1(1,3)] k1(2) by simp
  define k where "k = set_pageinfo 256 \<lparr>owner = PO_FREE, refcount = 0\<rparr> k1"
  have "length (pageinfo k1) = NPAGES" using k1(1) by (simp add: kinv_def Let_def pages_ok_def)
  moreover have "table_page (sym_kernel_pagetables demo_params) j \<noteq> 256" if "j < 5" for j
    using that by (simp add: table_page_def demo_params_def)
  ultimately have "kinv demo_params k" "refcount (pageinfo k ! 256) = 0"
    using k1(1) by (auto simp: kinv_def Let_def k_def set_pageinfo_def pages_ok_def tables_owned_def nth_list_update)
  then show thesis using k1 pid that [of k] by (simp add: k_def set_pageinfo_def)
qed

theorem page_alloc_exclusive_witness:
  "(\<exists>k k'. kinv demo_params k \<and> reg_rdi (p_registers (processes k ! 1)) = 0x100000
     \<and> handle_page_alloc k = Inr ((), k') \<and> reg_rax (p_registers (processes k' ! 1)) = 0
     \<and> pageinfo k' ! 256 = \<lparr>owner = 1, refcount = 1\<rparr> \<and> pageinfo k' ! 257 = pageinfo k ! 257) \<and>
   (\<exists>k k'. kinv demo_params k \<and> reg_rdi (p_registers (processes k ! 1)) = 0x100001
     \<and> handle_page_alloc k = Inr ((), k') \<and> reg_rax (p_registers (processes k' ! 1)) = - 1
     \<and> pageinfo k' ! 256 = pageinfo k ! 256)"
proof
  obtain k where k: "kinv demo_params k" "current k = 1" "p_state (processes k ! current k) = P_RUNNABLE"
    "reg_rdi (p_registers (processes k ! 1)) = 0x100000" "p_pid (processes k ! 1) = 1" "refcount (pageinfo k ! 256) = 0"
    by (rule demo_alloc)
  then have "assignable 0x100000 k" by (simp add: assignable_def)
  then show "\<exists>k k'. kinv demo_params k \<and> reg_rdi (p_registers (processes k ! 1)) = 0x100000
     \<and> handle_page_alloc k = Inr ((), k') \<and> reg_rax (p_registers (processes k' ! 1)) = 0
     \<and> pageinfo k' ! 256 = \<lparr>owner = 1, refcount = 1\<rparr> \<and> pageinfo k' ! 257 = pageinfo k ! 257"
    using page_alloc_exclusive [OF demo_layout k(1,3), of "0x100000"] k(1,2,4,5) by auto
next
  obtain k where k: "kinv demo_params k" "current k = 1" "p_state (processes k ! current k) = P_RUNNABLE"
    "reg_rdi (p_registers (processes k ! 1)) = 0x100001"
    by (rule demo_alloc)
  have "\<not> assignable 0x100001 k" by (simp add: assignable_def)
  then show "\<exists>k k'. kinv demo_params k \<and> reg_rdi (p_registers (processes k ! 1)) = 0x100001
     \<and> handle_page_alloc k = Inr ((), k') \<and> reg_rax (p_registers (processes k' ! 1)) = - 1
     \<and> pageinfo k' ! 256 = pageinfo k ! 256"
    using page_alloc_exclusive [OF demo_layout k(1,3), of "0x100001"] k by auto
qed

text \<open>
  C10 (fork and exit are not there). \<open>process.h\<close> offers \<open>sys_fork\<close> and \<open>sys_exit\<close> to applications, and the
  programs \<open>p-fork\<close> and \<open>p-forkexit\<close> call them, but the handler has no case for their interrupt
  numbers: the calling process takes the whole kernel down with a panic.
\<close>

theorem fork_exit_panic:
  assumes "layout_ok params" and "kinv params k" and "p_state (processes k ! current k) = P_RUNNABLE"
    and "unat (reg_intno reg) \<in> {INT_SYS_FORK, INT_SYS_EXIT}"
  shows "\<exists>st k'. exception params reg k = Some (Inl (st, k')) \<and> (st = Failed \<or> wanted_stop st)"
  using assms(1-3)
proof (cases rule: exception_dispatch [of params k reg])
  case (2 k')
  have "\<not> handled reg" using assms(4) by (auto simp: handled_def)
  with 2(1) dispatch_unhandled [of reg params k'] show ?thesis by auto
qed auto

theorem fork_exit_panic_witness:
  "\<exists>k st k'. current k = 1 \<and> (st = Failed \<or> wanted_stop st)
     \<and> exception demo_params (zero_registers\<lparr>reg_intno := of_nat INT_SYS_FORK\<rparr>) k = Some (Inl (st, k'))"
proof -
  obtain k where k: "kinv demo_params k" "current k = 1" "p_state (processes k ! 1) = P_RUNNABLE"
    by (rule demo_running)
  then show ?thesis
    using fork_exit_panic [OF demo_layout k(1), of "zero_registers\<lparr>reg_intno := of_nat INT_SYS_FORK\<rparr>"] by auto
qed

end
