(* ===== verification/Transition.thy ===== *)
theory Transition
  imports Main
begin

text \<open>
  Transition systems with two kinds of steps: the steps of the program, and the steps that the
  environment may take at any time (spurious wake-ups of waiting threads, interrupts). The locale
  \<open>terminating_system\<close> states what has to be shown of a concrete system, an invariant, a step
  that is always possible short of the final states, and a decreasing measure; its lemmas give
  the invariant on every reachable state, freedom from deadlock and termination.
\<close>

inductive reachable :: "('s \<Rightarrow> bool) \<Rightarrow> ('s \<Rightarrow> 's \<Rightarrow> bool) \<Rightarrow> ('s \<Rightarrow> 's \<Rightarrow> bool) \<Rightarrow> 's \<Rightarrow> bool"
  for start step env where
  start: "start s \<Longrightarrow> reachable start step env s"
| step: "reachable start step env s \<Longrightarrow> step s s' \<Longrightarrow> reachable start step env s'"
| env: "reachable start step env s \<Longrightarrow> env s s' \<Longrightarrow> reachable start step env s'"

locale invariant_system =
  fixes start :: "'s \<Rightarrow> bool" and step env :: "'s \<Rightarrow> 's \<Rightarrow> bool" and invar :: "'s \<Rightarrow> bool"
  assumes invar_start: "start s \<Longrightarrow> invar s"
    and invar_step: "invar s \<Longrightarrow> step s s' \<Longrightarrow> invar s'"
    and invar_env: "invar s \<Longrightarrow> env s s' \<Longrightarrow> invar s'"
begin

lemma reachable_invar: "reachable start step env s \<Longrightarrow> invar s"
  by (induction rule: reachable.induct) (auto intro: invar_start invar_step invar_env)

lemma reachable_run: "reachable start step env s \<Longrightarrow> step\<^sup>*\<^sup>* s s' \<Longrightarrow> reachable start step env s'"
  by (rotate_tac 1, induction rule: rtranclp_induct) (auto intro: reachable.step)

end

locale terminating_system = invariant_system start step env invar
  for start :: "'s \<Rightarrow> bool" and step env :: "'s \<Rightarrow> 's \<Rightarrow> bool" and invar :: "'s \<Rightarrow> bool" +
  fixes final :: "'s \<Rightarrow> bool" and meas :: "('s \<times> 's) set"
  assumes progress: "invar s \<Longrightarrow> \<not> final s \<Longrightarrow> \<exists>s'. step s s'"
    and decreases: "invar s \<Longrightarrow> step s s' \<Longrightarrow> (s', s) \<in> meas"
    and wf_meas: "wf meas"
begin

lemma no_deadlock: "reachable start step env s \<Longrightarrow> \<not> final s \<Longrightarrow> \<exists>s'. step s s'"
  using progress reachable_invar by blast

lemma steps_wf: "wf {(s', s). reachable start step env s \<and> step s s'}"
  by (rule wf_subset [OF wf_meas]) (auto intro: decreases reachable_invar)

lemma reaches_final:
  "reachable start step env s \<Longrightarrow> \<exists>s'. step\<^sup>*\<^sup>* s s' \<and> reachable start step env s' \<and> final s'"
proof (induction s rule: wf_induct_rule [OF wf_meas])
  case (1 s)
  show ?case
  proof (cases "final s")
    case False
    with 1 no_deadlock obtain s1 where s1: "step s s1" by blast
    with 1 have "(s1, s) \<in> meas" "reachable start step env s1"
      by (auto intro: decreases reachable_invar reachable.step)
    with 1 obtain s' where "step\<^sup>*\<^sup>* s1 s'" "reachable start step env s'" "final s'" by blast
    with s1 show ?thesis by (meson converse_rtranclp_into_rtranclp)
  qed (use 1 in blast)
qed

text \<open>No execution is infinite: there is no sequence of program steps without end.\<close>

lemma no_infinite_run:
  assumes "reachable start step env (f 0)"
  shows "\<exists>k. \<not> step (f k) (f (Suc k))"
proof (rule ccontr)
  assume "\<not> ?thesis"
  then have steps: "step (f k) (f (Suc k))" for k by blast
  have "reachable start step env (f k)" for k
    by (induction k) (auto intro: assms reachable.step steps)
  with steps steps_wf show False
    by (auto simp: wf_iff_no_infinite_down_chain)
qed

end

end
