(* ===== verification/Apps.thy ===== *)
theory Apps
  imports Kernel Transition
begin

text \<open>
  The applications: the system calls of \<open>process.h\<close>, the functions of \<open>process.c\<close>, and the programs
  \<open>p-allocator.c\<close>, \<open>p-fork.c\<close> and \<open>p-forkexit.c\<close>. A program runs between system calls; \<open>resume_\<dots>\<close>
  gives, from the result of the last call (the value of \<open>eax\<close>), the next call and the state in which
  the program waits for it. Memory is that of the process. The addresses of the symbol \<open>end\<close> and of
  the stack are parameters.
\<close>

section \<open>System calls\<close>

datatype syscall = Sys_getpid | Sys_yield | Sys_page_alloc u64 | Sys_fork | Sys_exit | Sys_panic u64

fun sys_int :: "syscall \<Rightarrow> nat" where
  "sys_int Sys_getpid = INT_SYS_GETPID"
| "sys_int Sys_yield = INT_SYS_YIELD"
| "sys_int (Sys_page_alloc addr) = INT_SYS_PAGE_ALLOC"
| "sys_int Sys_fork = INT_SYS_FORK"
| "sys_int Sys_exit = INT_SYS_EXIT"
| "sys_int (Sys_panic msg) = INT_SYS_PANIC"

text \<open>The registers that the kernel finds: the number of the interrupt, and the argument in \<open>rdi\<close>.\<close>

definition trap_regs :: "syscall \<Rightarrow> x86_64_registers \<Rightarrow> x86_64_registers" where
  "trap_regs c reg =
     (case c of
        Sys_page_alloc addr \<Rightarrow> reg\<lparr>reg_intno := of_nat (sys_int c), reg_rdi := addr\<rparr>
      | Sys_panic msg \<Rightarrow> reg\<lparr>reg_intno := of_nat (sys_int c), reg_rdi := msg\<rparr>
      | _ \<Rightarrow> reg\<lparr>reg_intno := of_nat (sys_int c)\<rparr>)"

section \<open>Output\<close>

definition app_color :: "int \<Rightarrow> int" where
  "app_color colorid = (if colorid < 0 then 0x0700 else [0x0E, 0x0F, 0x0C, 0x0A, 0x09] ! nat (colorid mod 5) * 256)"

definition app_printf :: "int \<Rightarrow> string \<Rightarrow> varg list \<Rightarrow> 'a machine_scheme \<Rightarrow> (unit, 'a machine_scheme) outcome" where
  "app_printf colorid fmt args s =
     bindM (con_vprintf (m_cursorpos s) (app_color colorid) fmt args s) (\<lambda>cpos s.
       Inr ((), s\<lparr>m_cursorpos := if CROW cpos \<ge> 23 then CPOS 0 0 else cpos\<rparr>))"

text \<open>
  \<open>panic\<close> formats its message into a buffer of 160 bytes on the stack, at \<open>buf\<close>, and makes sure that
  it ends with a newline; then it prints the buffer and makes the system call, as \<open>assert_fail\<close> does.
\<close>

fun put_string :: "string \<Rightarrow> u64 \<Rightarrow> memory \<Rightarrow> memory" where
  "put_string [] d m = m"
| "put_string (c # cs) d m = put_string cs (d + 1) (m(d := of_nat (of_char c)))"

fun mem_string :: "nat \<Rightarrow> memory \<Rightarrow> u64 \<Rightarrow> string" where
  "mem_string 0 m a = []"
| "mem_string (Suc n) m a = (if m a = 0 then [] else char_of (unat (m a)) # mem_string n m (a + 1))"

definition panic_message :: "u64 \<Rightarrow> string \<Rightarrow> varg list \<Rightarrow> memory \<Rightarrow> memory option" where
  "panic_message buf fmt args m =
     map_option (\<lambda>(n, m1).
       let len = n + 7 in
       if len > 0 \<and> m1 (buf + of_int (len - 1)) \<noteq> 10
       then let d = buf + of_int (len - (if len = 160 - 1 then 1 else 0)) in m1(d := 10, d + 1 := 0)
       else m1)
     (vsnprintf (put_string ''PANIC: '' buf m) (buf + 7) (160 - 7) fmt args)"

definition app_panic ::
  "u64 \<Rightarrow> string \<Rightarrow> varg list \<Rightarrow> 'a machine_scheme \<Rightarrow> (syscall, 'a machine_scheme) outcome" where
  "app_panic buf fmt args s =
     (case panic_message buf fmt args (m_mem s) of
        None \<Rightarrow> Inl (VarargMismatch, s)
      | Some m \<Rightarrow>
          bindM (con_vprintf (CPOS 23 0) 0xC000 ''%s'' [VStr (mem_string 160 m buf)] (s\<lparr>m_mem := m\<rparr>)) (\<lambda>_ s.
            Inr (Sys_panic 0, s)))"

definition app_assert_fail ::
  "string \<Rightarrow> int \<Rightarrow> string \<Rightarrow> 'a machine_scheme \<Rightarrow> (syscall, 'a machine_scheme) outcome" where
  "app_assert_fail file line msg s =
     bindM (con_vprintf (CPOS 23 0) 0xC000
        (''PANIC: %s:%d: assertion '' @ [CHR 0x27] @ ''%s'' @ [CHR 0x27] @ '' failed\<newline>'')
        [VStr file, VInt (of_int line), VStr msg] s) (\<lambda>_ s. Inr (Sys_panic 0, s))"

section \<open>The programs\<close>

abbreviation ALLOC_SLOWDOWN :: int where "ALLOC_SLOWDOWN \<equiv> 100"

definition ROUNDDOWN :: "u64 \<Rightarrow> u64 \<Rightarrow> u64" where
  "ROUNDDOWN a n = a - a mod n"

definition ROUNDUP :: "u64 \<Rightarrow> u64 \<Rightarrow> u64" where
  "ROUNDUP a n = ROUNDDOWN (a + n - 1) n"

record app_layout =
  lay_end :: u64
  lay_rsp :: u64

datatype app_pc =
    At_Start | At_Getpid | At_Loop | At_Alloc | At_Done
  | At_Fork1 | At_Fork2 | At_Check
  | At_Wait | At_Fork | At_Fork_Again | At_Getpid_Again | At_Exit

record app =
  ap_pc :: app_pc
  ap_p :: int
  ap_p1 :: int
  ap_p2 :: int
  ap_rng :: rng
  heap_top :: u64
  stack_bottom :: u64
  ap_mem :: memory

definition do_call :: "app_pc \<Rightarrow> syscall \<Rightarrow> app \<Rightarrow> app \<times> syscall" where
  "do_call pc c a = (a\<lparr>ap_pc := pc\<rparr>, c)"

text \<open>After \<open>sys_getpid\<close>: the random numbers, the heap and the stack.\<close>

definition app_setup :: "app_layout \<Rightarrow> int \<Rightarrow> app \<Rightarrow> app" where
  "app_setup lay p a =
     a\<lparr>ap_p := p, ap_rng := srand (of_int p) (ap_rng a),
       heap_top := ROUNDUP (lay_end lay) PAGESIZE, stack_bottom := ROUNDDOWN (lay_rsp lay - 1) PAGESIZE\<rparr>"

definition use_page :: "app \<Rightarrow> app" where
  "use_page a = a\<lparr>ap_mem := (ap_mem a)(heap_top a := of_int (ap_p a)), heap_top := heap_top a + PAGESIZE\<rparr>"

text \<open>One round of the allocation loop, up to its system call.\<close>

definition alloc_round :: "app \<Rightarrow> app \<times> syscall" where
  "alloc_round a =
     (let (x, r) = rand (ap_rng a); a = a\<lparr>ap_rng := r\<rparr> in
      if x mod ALLOC_SLOWDOWN < ap_p a
      then if heap_top a = stack_bottom a then do_call At_Done Sys_yield a
           else do_call At_Alloc (Sys_page_alloc (heap_top a)) a
      else do_call At_Loop Sys_yield a)"

definition resume_allocator :: "app_layout \<Rightarrow> int \<Rightarrow> app \<Rightarrow> app \<times> syscall" where
  "resume_allocator lay v a =
     (case ap_pc a of
        At_Start \<Rightarrow> do_call At_Getpid Sys_getpid a
      | At_Getpid \<Rightarrow> alloc_round (app_setup lay v a)
      | At_Loop \<Rightarrow> alloc_round a
      | At_Alloc \<Rightarrow> if v < 0 then do_call At_Done Sys_yield a else do_call At_Loop Sys_yield (use_page a)
      | _ \<Rightarrow> do_call At_Done Sys_yield a)"

text \<open>A failed assertion is its file, line and expression.\<close>

definition resume_fork :: "app_layout \<Rightarrow> int \<Rightarrow> app \<Rightarrow> (app \<times> syscall) chk" where
  "resume_fork lay v a =
     (case ap_pc a of
        At_Start \<Rightarrow> Inr (do_call At_Fork1 Sys_fork a)
      | At_Fork1 \<Rightarrow>
          bindR (check ''p-fork.c'' 13 ''p1 >= 0'' (v \<ge> 0)) (\<lambda>_. Inr (do_call At_Fork2 Sys_fork (a\<lparr>ap_p1 := v\<rparr>)))
      | At_Fork2 \<Rightarrow>
          bindR (check ''p-fork.c'' 15 ''p2 >= 0'' (v \<ge> 0)) (\<lambda>_. Inr (do_call At_Check Sys_getpid (a\<lparr>ap_p2 := v\<rparr>)))
      | At_Check \<Rightarrow>
          bindR
            (if v = 1
             then check ''p-fork.c'' 19 ''p1 != 0 && p2 != 0 && p1 != p2'' (ap_p1 a \<noteq> 0 \<and> ap_p2 a \<noteq> 0 \<and> ap_p1 a \<noteq> ap_p2 a)
             else check ''p-fork.c'' 21 ''p1 == 0 || p2 == 0'' (ap_p1 a = 0 \<or> ap_p2 a = 0))
            (\<lambda>_. Inr (do_call At_Getpid Sys_getpid a))
      | _ \<Rightarrow> Inr (resume_allocator lay v a))"

text \<open>
  \<open>p-forkexit.c\<close>. \<open>clear_message\<close> is the check of row 24 of the console, which the program shares.
  \<open>None\<close>: after \<open>sys_exit\<close> the program spins.
\<close>

definition clear_message :: "(nat \<Rightarrow> u16) \<Rightarrow> (nat \<Rightarrow> u16)" where
  "clear_message con =
     (if con (nat (CPOS 24 0)) \<noteq> 0
      then (case console_printf con (CPOS 24 0) 0 ''\<newline>'' [] of Some (_, con') \<Rightarrow> con' | None \<Rightarrow> con)
      else con)"

definition wait_round :: "app \<Rightarrow> app \<times> syscall" where
  "wait_round a =
     (let (x, r) = rand (ap_rng a); a = a\<lparr>ap_rng := r\<rparr> in
      if x mod ALLOC_SLOWDOWN = 0 then do_call At_Fork Sys_fork a else do_call At_Wait Sys_yield a)"

definition after_memory :: "app \<Rightarrow> app \<times> syscall" where
  "after_memory a =
     (let (x, r) = rand (ap_rng a); a = a\<lparr>ap_rng := r\<rparr> in
      if x mod (2 * ALLOC_SLOWDOWN) = 0 then do_call At_Exit Sys_exit a else do_call At_Done Sys_yield a)"

definition exit_round :: "app \<Rightarrow> app \<times> syscall" where
  "exit_round a =
     (let (y, r) = rand (ap_rng a); a = a\<lparr>ap_rng := r\<rparr>; x = y mod (8 * ALLOC_SLOWDOWN) in
      if x < 8 * ap_p a
      then if heap_top a = stack_bottom a then after_memory a
           else do_call At_Alloc (Sys_page_alloc (heap_top a)) a
      else if x = 8 * ap_p a then do_call At_Fork_Again Sys_fork a
      else if x = 8 * ap_p a + 1 then do_call At_Exit Sys_exit a
      else do_call At_Loop Sys_yield a)"

definition resume_forkexit ::
  "app_layout \<Rightarrow> int \<Rightarrow> (nat \<Rightarrow> u16) \<times> app \<Rightarrow> ((nat \<Rightarrow> u16) \<times> app \<times> syscall) option" where
  "resume_forkexit lay v s =
     (case s of (con, a) \<Rightarrow>
      case ap_pc a of
        At_Start \<Rightarrow> Some (con, wait_round a)
      | At_Wait \<Rightarrow> Some (con, wait_round a)
      | At_Fork \<Rightarrow> Some (con, if v = 0 then do_call At_Getpid Sys_getpid a else wait_round a)
      | At_Getpid \<Rightarrow> Some (con, exit_round (app_setup lay v a))
      | At_Loop \<Rightarrow> Some (con, exit_round a)
      | At_Alloc \<Rightarrow>
          if v < 0 then Some (con, after_memory a) else Some (clear_message con, exit_round (use_page a))
      | At_Fork_Again \<Rightarrow> Some (con, if v = 0 then do_call At_Getpid_Again Sys_getpid a else exit_round a)
      | At_Getpid_Again \<Rightarrow> Some (con, exit_round (a\<lparr>ap_p := v\<rparr>))
      | At_Done \<Rightarrow> Some (con, after_memory a)
      | _ \<Rightarrow> None)"

section \<open>The heap of p-allocator\<close>

text \<open>
  A run: after \<open>n\<close> resumptions, the state, the calls that were answered with their answers, and the
  call that is waiting. \<open>granted\<close> are the addresses of the pages that the program got.
\<close>

primrec allocator_run ::
  "app_layout \<Rightarrow> (nat \<Rightarrow> int) \<Rightarrow> app \<Rightarrow> nat \<Rightarrow> app \<times> (syscall \<times> int) list \<times> syscall option" where
  "allocator_run lay answers a 0 = (a, [], None)"
| "allocator_run lay answers a (Suc n) =
     (let (a1, tr, c) = allocator_run lay answers a n; v = answers n; (a2, c2) = resume_allocator lay v a1
      in (a2, (case c of None \<Rightarrow> tr | Some c1 \<Rightarrow> tr @ [(c1, v)]), Some c2))"

fun granted :: "(syscall \<times> int) list \<Rightarrow> u64 list" where
  "granted [] = []"
| "granted ((Sys_page_alloc addr, v) # tr) = (if v < 0 then granted tr else addr # granted tr)"
| "granted (cv # tr) = granted tr"

fun refused :: "syscall \<times> int \<Rightarrow> bool" where
  "refused (Sys_page_alloc addr, v) = (v < 0)"
| "refused cv = False"

fun allocator_call :: "syscall \<Rightarrow> bool" where
  "allocator_call Sys_getpid = True"
| "allocator_call Sys_yield = True"
| "allocator_call (Sys_page_alloc addr) = True"
| "allocator_call c = False"

lemma granted_append [simp]: "granted (tr @ tr') = granted tr @ granted tr'"
  by (induction tr rule: granted.induct) simp_all

abbreviation heap_start :: "app_layout \<Rightarrow> u64" where "heap_start lay \<equiv> ROUNDUP (lay_end lay) PAGESIZE"
abbreviation stack_page :: "app_layout \<Rightarrow> u64" where "stack_page lay \<equiv> ROUNDDOWN (lay_rsp lay - 1) PAGESIZE"

definition heap_page :: "app_layout \<Rightarrow> nat \<Rightarrow> u64" where
  "heap_page lay i = heap_start lay + PAGESIZE * of_nat i"

definition layout_fits :: "app_layout \<Rightarrow> bool" where
  "layout_fits lay \<longleftrightarrow> heap_start lay \<le> stack_page lay"

lemma ROUNDDOWN_aligned: "unat (ROUNDDOWN a PAGESIZE) mod 4096 = 0"
proof -
  have "unat (a mod PAGESIZE) = unat a mod 4096" by (simp add: unat_mod)
  moreover have "a mod PAGESIZE \<le> a" by (simp add: word_le_nat_alt unat_mod)
  ultimately have "unat (ROUNDDOWN a PAGESIZE) = unat a - unat a mod 4096" by (simp add: ROUNDDOWN_def unat_sub_u64)
  then show ?thesis by (simp add: minus_mod_eq_mult_div)
qed

lemma heap_start_aligned: "unat (heap_start lay) mod 4096 = 0"
  unfolding ROUNDUP_def by (rule ROUNDDOWN_aligned)

text \<open>The heap after \<open>k\<close> pages.\<close>

definition heap_ok :: "app_layout \<Rightarrow> memory \<Rightarrow> nat \<Rightarrow> (syscall \<times> int) list \<Rightarrow> app \<Rightarrow> bool" where
  "heap_ok lay m k tr a \<longleftrightarrow>
     heap_top a = heap_page lay k \<and> stack_bottom a = stack_page lay \<and>
     unat (heap_start lay) + 4096 * k \<le> unat (stack_page lay) \<and>
     granted tr = map (heap_page lay) [0..<k] \<and>
     ap_mem a = (\<lambda>x. if x \<in> set (granted tr) then of_int (ap_p a) else m x)"

lemma unat_heap_page:
  assumes "unat (heap_start lay) + 4096 * k \<le> unat (stack_page lay)"
  shows "unat (heap_page lay k) = unat (heap_start lay) + 4096 * k"
proof -
  have b: "unat (heap_start lay) + 4096 * k < 18446744073709551616"
    using assms unat_u64_less [of "stack_page lay"] by linarith
  then have "unat (of_nat k :: u64) = k" by (intro unat_of_nat_u64) simp
  moreover from this have "unat (PAGESIZE * of_nat k) = 4096 * k" using b by (subst unat_mult_u64) simp_all
  ultimately show ?thesis using b unfolding heap_page_def by (subst unat_add_u64) simp_all
qed

text \<open>There is room for one more page, if the heap has not met the stack.\<close>

lemma heap_room:
  assumes "heap_ok lay m k tr a" "heap_top a \<noteq> stack_bottom a"
  shows "unat (heap_start lay) + 4096 * Suc k \<le> unat (stack_page lay)"
proof -
  have k: "unat (heap_start lay) + 4096 * k \<le> unat (stack_page lay)" using assms(1) by (simp add: heap_ok_def)
  have "heap_page lay k \<noteq> stack_page lay" using assms by (simp add: heap_ok_def)
  then have ne: "unat (heap_start lay) + 4096 * k \<noteq> unat (stack_page lay)"
    using unat_heap_page [OF k] by (simp add: u64_eq_iff_unat)
  obtain x y where xy: "unat (heap_start lay) = 4096 * x" "unat (stack_page lay) = 4096 * y"
    using heap_start_aligned [of lay] ROUNDDOWN_aligned [of "lay_rsp lay - 1"] by (metis mod_0_imp_dvd dvd_def)
  have "4096 * (x + k) \<le> 4096 * y" "4096 * (x + k) \<noteq> 4096 * y" using k ne unfolding xy by simp_all
  then have "Suc (x + k) \<le> y" by simp
  then have "4096 * Suc (x + k) \<le> 4096 * y" by (rule mult_le_mono2)
  then show ?thesis unfolding xy by simp
qed

lemma heap_ok_use_page:
  assumes "heap_ok lay m k tr a" "heap_top a \<noteq> stack_bottom a" "0 \<le> v"
  shows "heap_ok lay m (Suc k) (tr @ [(Sys_page_alloc (heap_top a), v)]) (use_page a)"
  using assms heap_room [OF assms(1,2)]
  by (auto simp: heap_ok_def use_page_def heap_page_def algebra_simps)

text \<open>The invariant of a run, by the place where the program waits.\<close>

definition allocator_inv ::
  "app_layout \<Rightarrow> memory \<Rightarrow> app \<times> (syscall \<times> int) list \<times> syscall option \<Rightarrow> bool" where
  "allocator_inv lay m s =
     (case s of (a, tr, c) \<Rightarrow>
        list_all (\<lambda>(c, v). allocator_call c) tr \<and>
        (case ap_pc a of
           At_Start \<Rightarrow> tr = [] \<and> c = None \<and> ap_mem a = m
         | At_Getpid \<Rightarrow> tr = [] \<and> c = Some Sys_getpid \<and> ap_mem a = m
         | At_Loop \<Rightarrow> c = Some Sys_yield \<and> list_ex refused tr = False \<and> (\<exists>k. heap_ok lay m k tr a)
         | At_Alloc \<Rightarrow> c = Some (Sys_page_alloc (heap_top a)) \<and> list_ex refused tr = False
             \<and> heap_top a \<noteq> stack_bottom a \<and> (\<exists>k. heap_ok lay m k tr a)
         | At_Done \<Rightarrow> c = Some Sys_yield \<and> (\<exists>k. heap_ok lay m k tr a)
         | _ \<Rightarrow> False))"

lemma heap_ok_cong:
  "heap_ok lay m k tr a \<Longrightarrow> heap_top a' = heap_top a \<Longrightarrow> stack_bottom a' = stack_bottom a \<Longrightarrow> ap_mem a' = ap_mem a
    \<Longrightarrow> ap_p a' = ap_p a \<Longrightarrow> granted tr' = granted tr \<Longrightarrow> heap_ok lay m k tr' a'"
  unfolding heap_ok_def by metis

lemma alloc_round_inv:
  assumes "heap_ok lay m k tr a" "alloc_round a = (a', c)"
    and "list_all (\<lambda>(c, v). allocator_call c) tr" "list_ex refused tr = False"
  shows "allocator_inv lay m (a', tr, Some c)"
proof -
  obtain x r where xr: "rand (ap_rng a) = (x, r)" by fastforce
  have "heap_ok lay m k tr (a\<lparr>ap_rng := r, ap_pc := pc\<rparr>)" for pc
    by (rule heap_ok_cong [OF assms(1)]) simp_all
  then have "\<exists>k. heap_ok lay m k tr (a\<lparr>ap_rng := r, ap_pc := pc\<rparr>)" for pc by blast
  then show ?thesis
    using assms(2-4) xr by (auto simp: alloc_round_def do_call_def allocator_inv_def Let_def split: if_splits)
qed

lemma allocator_inv_step:
  assumes "layout_fits lay" "allocator_inv lay m (a, tr, c)" "resume_allocator lay v a = (a', c')"
  shows "allocator_inv lay m (a', (case c of None \<Rightarrow> tr | Some c1 \<Rightarrow> tr @ [(c1, v)]), Some c')"
proof (cases "ap_pc a")
  case At_Start
  then show ?thesis using assms by (auto simp: allocator_inv_def resume_allocator_def do_call_def)
next
  case At_Getpid
  then have t: "tr = []" "c = Some Sys_getpid" "ap_mem a = m" using assms(2) by (auto simp: allocator_inv_def)
  have "heap_ok lay m 0 [(Sys_getpid, v)] (app_setup lay v a)"
    using assms(1) t by (simp add: heap_ok_def app_setup_def heap_page_def layout_fits_def word_le_nat_alt)
  from alloc_round_inv [OF this, of a' c'] show ?thesis
    using At_Getpid assms(3) t by (simp add: resume_allocator_def)
next
  case At_Loop
  then obtain k where t: "c = Some Sys_yield" "list_ex refused tr = False" "heap_ok lay m k tr a"
      "list_all (\<lambda>(c, v). allocator_call c) tr"
    using assms(2) by (auto simp: allocator_inv_def)
  have "heap_ok lay m k (tr @ [(Sys_yield, v)]) a" by (rule heap_ok_cong [OF t(3)]) simp_all
  from alloc_round_inv [OF this, of a' c'] show ?thesis
    using At_Loop assms(3) t by (simp add: resume_allocator_def)
next
  case At_Alloc
  then obtain k where t: "c = Some (Sys_page_alloc (heap_top a))" "list_ex refused tr = False"
      "heap_top a \<noteq> stack_bottom a" "heap_ok lay m k tr a" "list_all (\<lambda>(c, v). allocator_call c) tr"
    using assms(2) by (auto simp: allocator_inv_def)
  show ?thesis
  proof (cases "v < 0")
    case True
    have "heap_ok lay m k (tr @ [(Sys_page_alloc (heap_top a), v)]) (a\<lparr>ap_pc := At_Done\<rparr>)"
      by (rule heap_ok_cong [OF t(4)]) (use True in simp_all)
    then show ?thesis
      using At_Alloc assms(3) t True by (auto simp: resume_allocator_def allocator_inv_def do_call_def)
  next
    case False
    then have "heap_ok lay m (Suc k) (tr @ [(Sys_page_alloc (heap_top a), v)]) (use_page a)"
      using heap_ok_use_page [OF t(4,3)] by simp
    then have "heap_ok lay m (Suc k) (tr @ [(Sys_page_alloc (heap_top a), v)]) ((use_page a)\<lparr>ap_pc := At_Loop\<rparr>)"
      by (rule heap_ok_cong) simp_all
    then show ?thesis
      using At_Alloc assms(3) t False by (auto simp: resume_allocator_def allocator_inv_def do_call_def)
  qed
next
  case At_Done
  then obtain k where t: "c = Some Sys_yield" "heap_ok lay m k tr a" "list_all (\<lambda>(c, v). allocator_call c) tr"
    using assms(2) by (auto simp: allocator_inv_def)
  have "heap_ok lay m k (tr @ [(Sys_yield, v)]) (a\<lparr>ap_pc := At_Done\<rparr>)" by (rule heap_ok_cong [OF t(2)]) simp_all
  then show ?thesis using At_Done assms(3) t by (auto simp: resume_allocator_def allocator_inv_def do_call_def)
qed (use assms(2) in \<open>auto simp: allocator_inv_def\<close>)

text \<open>The run as a transition system: a step for every answer of the kernel.\<close>

inductive allocator_step ::
  "app_layout \<Rightarrow> app \<times> (syscall \<times> int) list \<times> syscall option \<Rightarrow> app \<times> (syscall \<times> int) list \<times> syscall option \<Rightarrow> bool"
  for lay where
  answer: "resume_allocator lay v a = (a', c') \<Longrightarrow>
     allocator_step lay (a, tr, c) (a', (case c of None \<Rightarrow> tr | Some c1 \<Rightarrow> tr @ [(c1, v)]), Some c')"

inductive_cases allocator_stepE: "allocator_step lay s s'"

definition allocator_start :: "app_layout \<Rightarrow> memory \<Rightarrow> app \<times> (syscall \<times> int) list \<times> syscall option \<Rightarrow> bool" where
  "allocator_start lay m s =
     (case s of (a, tr, c) \<Rightarrow> layout_fits lay \<and> ap_pc a = At_Start \<and> ap_mem a = m \<and> tr = [] \<and> c = None)"

interpretation allocator: invariant_system "allocator_start lay m" "allocator_step lay" "\<lambda>s s'. False"
    "\<lambda>s. layout_fits lay \<and> allocator_inv lay m s" for lay m
proof unfold_locales
  fix s assume "allocator_start lay m s"
  then show "layout_fits lay \<and> allocator_inv lay m s" by (auto simp: allocator_start_def allocator_inv_def)
next
  fix s s' assume "layout_fits lay \<and> allocator_inv lay m s" "allocator_step lay s s'"
  then show "layout_fits lay \<and> allocator_inv lay m s'" by (auto elim!: allocator_stepE intro: allocator_inv_step)
qed simp

lemma allocator_run_reachable:
  assumes "layout_fits lay" "ap_pc a = At_Start"
  shows "reachable (allocator_start lay (ap_mem a)) (allocator_step lay) (\<lambda>s s'. False) (allocator_run lay answers a n)"
proof (induction n)
  case 0
  show ?case using assms by (intro reachable.start) (simp add: allocator_start_def)
next
  case (Suc n)
  obtain a1 tr c where r: "allocator_run lay answers a n = (a1, tr, c)" by (metis prod_cases3)
  obtain a2 c2 where s: "resume_allocator lay (answers n) a1 = (a2, c2)" by fastforce
  show ?case using reachable.step [OF Suc [unfolded r] allocator_step.answer [OF s]] r s by simp
qed

lemmas allocator_run_inv = allocator.reachable_invar [OF allocator_run_reachable, THEN conjunct2]

section \<open>The buffer of panic\<close>

lemma put_string_outside: "\<not> in_range d (length cs) a \<Longrightarrow> length cs < 18446744073709551616 \<Longrightarrow> put_string cs d m a = m a"
proof (induction cs arbitrary: d m)
  case (Cons c cs)
  have "a \<noteq> d" using Cons.prems(1) by (auto simp: in_range_def)
  moreover have "\<not> in_range (d + 1) (length cs) a"
  proof -
    have "unat (a - d) \<noteq> 0" using \<open>a \<noteq> d\<close> by (simp add: unat_eq_0)
    then have "unat (a - d - 1) = unat (a - d) - 1" by (simp add: unat_minus_one unat_eq_0)
    then show ?thesis using Cons.prems(1) by (auto simp: in_range_def diff_diff_eq)
  qed
  ultimately have "put_string cs (d + 1) (m(d := of_nat (of_char c))) a = (m(d := of_nat (of_char c))) a"
    using Cons.prems(2) by (intro Cons.IH) simp_all
  with \<open>a \<noteq> d\<close> show ?case unfolding put_string.simps by (simp only: fun_upd_apply if_False simp_thms)
qed simp

lemma in_range_offset: "in_range (buf + of_nat j) n a \<Longrightarrow> j + n \<le> N \<Longrightarrow> N < 18446744073709551616 \<Longrightarrow> in_range buf N a"
proof -
  assume r: "in_range (buf + of_nat j) n a" and b: "j + n \<le> N" "N < 18446744073709551616"
  have "a - buf = (a - (buf + of_nat j)) + of_nat j" by simp
  moreover have "unat (of_nat j :: u64) = j" using b by (intro unat_of_nat_u64) simp
  moreover from this have "unat (a - (buf + of_nat j)) + unat (of_nat j :: u64) < 18446744073709551616"
    using r b unfolding in_range_def by linarith
  ultimately have "unat (a - buf) = unat (a - (buf + of_nat j)) + j" by (metis unat_add_u64)
  then show ?thesis using r b by (simp add: in_range_def)
qed

text \<open>The message stays inside the buffer, and its terminator is in the buffer too.\<close>

lemma panic_message_fits:
  assumes "panic_message buf fmt args m = Some m'" "unat buf + 160 \<le> 18446744073709551616"
    and "printer_vprintf trace_putc [] 0 fmt args = Some out"
  shows "(\<exists>j < 160. m' (buf + of_nat j) = 0) \<and> (\<forall>a. \<not> in_range buf 160 a \<longrightarrow> m' a = m a)"
proof -
  let ?m0 = "put_string ''PANIC: '' buf m"
  define k where "k = min (length out) 152"
  have b7: "unat (buf + 7) = unat buf + 7" using assms(2) by (intro unat_add_u64 [of buf 7, simplified]) simp
  obtain m1 where v: "vsnprintf ?m0 (buf + 7) 153 fmt args = Some (c_int (of_nat k), m1)"
      "m1 (buf + 7 + of_nat k) = 0" "\<And>a. \<not> in_range (buf + 7) 153 a \<Longrightarrow> m1 a = ?m0 a"
    using vsnprintf_prefix [of 153 "buf + 7" fmt args out k ?m0] assms(2,3) b7 k_def by auto
  have k: "k \<le> 152" "c_int (of_nat k) = int k"
  proof -
    show "k \<le> 152" by (simp add: k_def)
    then show "c_int (of_nat k) = int k" by (simp add: c_int_small unat_of_nat_u64)
  qed
  have far: "m1 a = m a" if "\<not> in_range buf 160 a" for a
  proof -
    have "\<not> in_range (buf + of_nat 7) 153 a" "\<not> in_range (buf + of_nat 0) 7 a"
      using that in_range_offset [of buf 7 153 a 160] in_range_offset [of buf 0 7 a 160] by auto
    then have out: "\<not> in_range (buf + 7) 153 a" "\<not> in_range buf 7 a" by simp_all
    have len: "length ''PANIC: '' = 7" by simp
    have "?m0 a = m a" by (rule put_string_outside, unfold len) (rule out(2), simp)
    with v(3) [OF out(1)] show ?thesis by (rule trans)
  qed
  let ?l = "int k + 7"
  show ?thesis
  proof (cases "m1 (buf + of_int (?l - 1)) \<noteq> 10")
    case False
    then have "m' = m1" using assms(1) v(1) k by (simp add: panic_message_def Let_def)
    moreover have "m1 (buf + of_nat (k + 7)) = 0" using v(2) by (simp add: algebra_simps)
    ultimately show ?thesis using far k by (intro conjI exI [of _ "k + 7"]) simp_all
  next
    case True
    define e where "e = (if k = 152 then 158 else k + 7)"
    have d: "buf + of_int (?l - (if ?l = 160 - 1 then 1 else 0)) = buf + of_nat e" by (simp add: e_def)
    have e: "e \<le> 158" using k by (auto simp: e_def)
    have m': "m' = m1(buf + of_nat e := 10, buf + of_nat (Suc e) := 0)"
      using assms(1) v(1) k True d by (simp add: panic_message_def Let_def algebra_simps)
    have "m' a = m a" if "\<not> in_range buf 160 a" for a
    proof -
      have r: "in_range buf 160 (buf + of_nat j)" if "j < 160" for j
        using that by (simp add: in_range_def unat_of_nat_u64)
      have "a \<noteq> buf + of_nat e" "a \<noteq> buf + of_nat (Suc e)"
        using that r [of e] r [of "Suc e"] e by (auto simp del: of_nat_Suc)
      then show ?thesis using far [OF that] by (simp add: m')
    qed
    then show ?thesis using e by (intro conjI exI [of _ "Suc e"]) (simp_all add: m')
  qed
qed

end
