(* ===== verification/AppsProps.thy ===== *)
theory AppsProps
  imports Apps KernelProps
begin

text \<open>The application \<open>p-allocator\<close> on the kernel.\<close>

lemma allocator_call_handled: "allocator_call c \<Longrightarrow> handled (trap_regs c reg)"
  by (cases c) (simp_all add: trap_regs_def handled_def)

lemma allocator_call_no_fault: "unat (reg_intno (trap_regs c reg)) \<noteq> INT_PAGEFAULT"
  by (cases c) (simp_all add: trap_regs_def)

lemma allocator_pending:
  assumes "allocator_inv lay m (a, tr, c)" "c = Some call"
  shows "allocator_call call"
  using assms by (cases "ap_pc a") (auto simp: allocator_inv_def)

lemma allocator_heap:
  assumes "layout_fits lay" "allocator_inv lay m (a, tr, c)"
  shows "\<exists>k. granted tr = map (heap_page lay) [0..<k] \<and> unat (heap_start lay) + 4096 * k \<le> unat (stack_page lay)
      \<and> ap_mem a = (\<lambda>x. if x \<in> set (granted tr) then of_int (ap_p a) else m x)
      \<and> (\<forall>addr. c = Some (Sys_page_alloc addr) \<longrightarrow> addr = heap_page lay k \<and> unat addr + 4096 \<le> unat (stack_page lay))"
proof -
  consider "tr = []" "ap_mem a = m" "\<forall>addr. c \<noteq> Some (Sys_page_alloc addr)"
    | k where "heap_ok lay m k tr a" "\<And>addr. c = Some (Sys_page_alloc addr) \<Longrightarrow> addr = heap_top a \<and> heap_top a \<noteq> stack_bottom a"
    using assms(2) by (cases "ap_pc a") (auto simp: allocator_inv_def)
  then show ?thesis
  proof cases
    case 1
    with assms(1) show ?thesis by (intro exI [of _ 0]) (simp add: layout_fits_def word_le_nat_alt)
  next
    case (2 k)
    have "addr = heap_page lay k \<and> unat addr + 4096 \<le> unat (stack_page lay)" if "c = Some (Sys_page_alloc addr)" for addr
      using 2(1) 2(2) [OF that] heap_room [OF 2(1)] unat_heap_page [of lay k] by (simp add: heap_ok_def)
    with 2(1) show ?thesis by (intro exI [of _ k]) (simp add: heap_ok_def)
  qed
qed

text \<open>
  C11 (the allocator application). Whatever the kernel answers, \<open>p-allocator\<close> asks for the pages from
  the end of its program upwards, in order and each at most once, and never for the page of its
  stack; it writes its number to the first byte of exactly the pages that it was given; after a
  refusal it only yields. Every system call that it makes is one that the kernel knows: the
  exception handler returns to a runnable process with the invariant kept.
\<close>

theorem allocator_safe:
  assumes "layout_fits lay" and "ap_pc a = At_Start" and "allocator_run lay answers a n = (a', tr, c)"
  shows "(\<exists>k. granted tr = map (heap_page lay) [0..<k] \<and> unat (heap_start lay) + 4096 * k \<le> unat (stack_page lay)
      \<and> ap_mem a' = (\<lambda>x. if x \<in> set (granted tr) then of_int (ap_p a') else ap_mem a x)
      \<and> (\<forall>addr. c = Some (Sys_page_alloc addr) \<longrightarrow> addr = heap_page lay k \<and> unat addr + 4096 \<le> unat (stack_page lay)))
    \<and> (list_ex refused tr \<longrightarrow> c = Some Sys_yield)
    \<and> (\<forall>call (params :: 'b kparams_scheme) ks reg. c = Some call \<and> layout_ok params \<and> kinv params ks
         \<and> p_state (processes ks ! current ks) = P_RUNNABLE \<longrightarrow>
         (\<exists>r. exception params (trap_regs call reg) ks = Some r \<and> good params r))"
proof -
  have inv: "allocator_inv lay (ap_mem a) (a', tr, c)"
    using allocator_run_inv [OF assms(1,2), of answers n] assms(3) by simp
  have "list_ex refused tr \<longrightarrow> c = Some Sys_yield"
    using inv by (cases "ap_pc a'") (auto simp: allocator_inv_def)
  moreover have "\<exists>r. exception params (trap_regs call reg) ks = Some r \<and> good params r"
    if "c = Some call" "layout_ok params" "kinv params ks" "p_state (processes ks ! current ks) = P_RUNNABLE"
    for call and params :: "'b kparams_scheme" and ks reg
    using exception_returns [OF that(2-4) allocator_call_handled [OF allocator_pending [OF inv that(1)]]]
      allocator_call_no_fault by blast
  ultimately show ?thesis using allocator_heap [OF assms(1) inv] by blast
qed

text \<open>A run of process 100 whose second request is refused.\<close>

definition demo_app :: app where
  "demo_app = \<lparr>ap_pc = At_Start, ap_p = 0, ap_p1 = 0, ap_p2 = 0, ap_rng = \<lparr>rand_seed_set = False, rand_seed = 0\<rparr>,
     heap_top = 0, stack_bottom = 0, ap_mem = (\<lambda>x. 0)\<rparr>"

definition demo_lay :: app_layout where
  "demo_lay = \<lparr>lay_end = 0x100123, lay_rsp = 0x200000\<rparr>"

definition demo_answers :: "nat \<Rightarrow> int" where
  "demo_answers n = (if n = 1 then 100 else if n = 4 then - 1 else 0)"

lemma demo_lay_pages: "heap_start demo_lay = 0x101000" "stack_page demo_lay = 0x1FF000"
  by (simp_all add: demo_lay_def ROUNDUP_def ROUNDDOWN_def)

lemma demo_allocator_trace:
  "snd (allocator_run demo_lay demo_answers demo_app 6) =
     ([(Sys_getpid, 100), (Sys_page_alloc 0x101000, 0), (Sys_yield, 0), (Sys_page_alloc 0x102000, - 1), (Sys_yield, 0)],
      Some Sys_yield)"
  by code_simp

theorem allocator_safe_witness:
  "\<exists>a'. fst (allocator_run demo_lay demo_answers demo_app 6) = a' \<and> ap_mem a' 0x101000 = of_int (ap_p a') \<and> ap_mem a' 0x102000 = 0
     \<and> (\<exists>ks r. kinv demo_params ks \<and> exception demo_params (trap_regs Sys_yield zero_registers) ks = Some r \<and> good demo_params r)"
proof -
  obtain ks where ks: "kinv demo_params ks" "current ks = 1" "p_state (processes ks ! 1) = P_RUNNABLE"
    by (rule demo_running)
  obtain a' tr c where r: "allocator_run demo_lay demo_answers demo_app 6 = (a', tr, c)" by (metis prod_cases3)
  have t: "granted tr = [0x101000]" "c = Some Sys_yield" using demo_allocator_trace unfolding r by auto
  have "layout_fits demo_lay" "ap_pc demo_app = At_Start" "ap_mem demo_app = (\<lambda>x. 0)"
    unfolding layout_fits_def demo_lay_pages by (simp_all add: demo_app_def)
  then have "ap_mem a' = (\<lambda>x. if x \<in> set (granted tr) then of_int (ap_p a') else 0)"
    "\<exists>r. exception demo_params (trap_regs Sys_yield zero_registers) ks = Some r \<and> good demo_params r"
    using allocator_safe [where 'b = unit, OF _ _ r] ks demo_layout t(2) by auto
  then show ?thesis using r t(1) ks(1) by auto
qed

end
