(* ===== verification/Libc.thy ===== *)
theory Libc
  imports Prelude
begin

text \<open>
  What the user-space programs use of the C standard library, on C strings as character lists
  without the terminating zero: character classes, comparisons, conversions between text and
  \<open>int\<close>, bounded copies with \<open>snprintf\<close>, reading lines with \<open>fgets\<close> and splitting with
  \<open>strtok\<close>. (The kernel's own string library, on memory, is the theory \<open>CLib\<close>.)
\<close>

named_theorems libc_simps

section \<open>Characters\<close>

definition isspace :: "char \<Rightarrow> bool" where
  "isspace c \<longleftrightarrow> c \<in> {CHR 0x20, CHR 0x09, CHR 0x0A, CHR 0x0B, CHR 0x0C, CHR 0x0D}"

definition isdigit :: "char \<Rightarrow> bool" where
  "isdigit c \<longleftrightarrow> (48::nat) \<le> of_char c \<and> of_char c \<le> (57::nat)"

definition tolower :: "char \<Rightarrow> char" where
  "tolower c = (if (65::nat) \<le> of_char c \<and> of_char c \<le> (90::nat) then char_of ((of_char c :: nat) + 32) else c)"

text \<open>\<open>strcasecmp(a, b) == 0\<close>, and \<open>strncmp(s, lit, strlen(lit)) == 0\<close> for a literal.\<close>

definition strcaseeq :: "string \<Rightarrow> string \<Rightarrow> bool" where
  "strcaseeq a b \<longleftrightarrow> map tolower a = map tolower b"

definition has_prefix :: "string \<Rightarrow> string \<Rightarrow> bool" where
  "has_prefix lit s \<longleftrightarrow> take (length lit) s = lit"

section \<open>Numbers\<close>

fun digits_val :: "nat \<Rightarrow> string \<Rightarrow> nat" where
  "digits_val acc [] = acc"
| "digits_val acc (c # cs) = (if isdigit c then digits_val (10 * acc + (of_char c - 48)) cs else acc)"

definition atoi_value :: "string \<Rightarrow> int" where
  "atoi_value s =
     (case dropWhile isspace s of
        [] \<Rightarrow> 0
      | c # r \<Rightarrow>
          if c = CHR ''-'' then - int (digits_val 0 r)
          else if c = CHR ''+'' then int (digits_val 0 r)
          else int (digits_val 0 (c # r)))"

definition int_ok :: "int \<Rightarrow> bool" where
  "int_ok n \<longleftrightarrow> - 2147483648 \<le> n \<and> n \<le> 2147483647"

text \<open>The behaviour of \<open>atoi\<close> is undefined (\<open>None\<close>) when the number is not an \<open>int\<close>.\<close>

definition atoi :: "string \<Rightarrow> int option" where
  "atoi s = (if int_ok (atoi_value s) then Some (atoi_value s) else None)"

definition dec_digit :: "nat \<Rightarrow> char" where
  "dec_digit d = ''0123456789'' ! d"

fun show_nat :: "nat \<Rightarrow> string" where
  "show_nat n = (if n < 10 then [dec_digit n] else show_nat (n div 10) @ [dec_digit (n mod 10)])"

declare show_nat.simps [simp del]

text \<open>The conversion \<open>%d\<close>.\<close>

definition show_int :: "int \<Rightarrow> string" where
  "show_int n = (if n < 0 then CHR ''-'' # show_nat (nat (- n)) else show_nat (nat n))"

section \<open>Buffers and files\<close>

text \<open>The string in a buffer of \<open>n\<close> bytes after \<open>snprintf(buf, n, "%s", v)\<close>.\<close>

definition snprintf_s :: "nat \<Rightarrow> string \<Rightarrow> string" where
  "snprintf_s n v = take (n - 1) v"

text \<open>
  \<open>fgets\<close> into a buffer of \<open>n\<close> bytes: at most \<open>n - 1\<close> characters, ending after a newline; the
  characters it stored and the rest of the file. The C string in the buffer ends at the first zero.
\<close>

fun fgets_chars :: "nat \<Rightarrow> string \<Rightarrow> string \<times> string" where
  "fgets_chars 0 s = ([], s)"
| "fgets_chars (Suc n) [] = ([], [])"
| "fgets_chars (Suc n) (c # s) =
     (if c = CHR 0x0A then ([c], s) else (let (l, r) = fgets_chars n s in (c # l, r)))"

definition c_string :: "string \<Rightarrow> string" where
  "c_string s = takeWhile (\<lambda>c. c \<noteq> CHR 0x00) s"

text \<open>\<open>strtok\<close> with one delimiter: the next token and what is left for the next call.\<close>

definition strtok :: "char \<Rightarrow> string \<Rightarrow> (string \<times> string) option" where
  "strtok d s =
     (let t = dropWhile (\<lambda>c. c = d) s in
      if t = [] then None else Some (takeWhile (\<lambda>c. c \<noteq> d) t, tl (dropWhile (\<lambda>c. c \<noteq> d) t)))"

section \<open>Facts\<close>

lemma dec_digits:
  "\<forall>d\<in>set [0..<10]. isdigit (dec_digit d) \<and> (of_char (dec_digit d) :: nat) = 48 + d"
  by code_simp

lemma isdigit_digit [simp, libc_simps]: "d < 10 \<Longrightarrow> isdigit (dec_digit d)"
  by (rule bspec [OF dec_digits, THEN conjunct1]) (simp only: set_upt atLeastLessThan_iff zero_le simp_thms)

lemma of_char_digit [simp, libc_simps]: "d < 10 \<Longrightarrow> (of_char (dec_digit d) :: nat) = 48 + d"
  by (rule bspec [OF dec_digits, THEN conjunct2]) (simp only: set_upt atLeastLessThan_iff zero_le simp_thms)

lemma digits_val_append:
  "\<forall>c\<in>set s. isdigit c \<Longrightarrow> digits_val acc (s @ t) = digits_val (digits_val acc s) t"
  by (induction s arbitrary: acc) auto

lemma show_nat_digits: "c \<in> set (show_nat n) \<Longrightarrow> isdigit c"
proof (induction n rule: show_nat.induct)
  case (1 n)
  from "1.prems" show ?case
    by (subst (asm) show_nat.simps) (use "1.IH" in \<open>auto split: if_splits\<close>)
qed

lemma digits_val_show_nat [simp]: "digits_val 0 (show_nat n) = n"
proof (induction n rule: show_nat.induct)
  case (1 n)
  show ?case
  proof (cases "n < 10")
    case False
    then have "digits_val 0 (show_nat n) = digits_val (digits_val 0 (show_nat (n div 10))) [dec_digit (n mod 10)]"
      by (subst show_nat.simps) (simp add: digits_val_append show_nat_digits)
    with 1 False show ?thesis by simp
  qed (simp add: show_nat.simps [of n])
qed

lemma show_nat_not_Nil [simp]: "show_nat n \<noteq> []"
  by (subst show_nat.simps) simp

lemma isdigit_not_space: "isdigit c \<Longrightarrow> \<not> isspace c"
  by (auto simp: isdigit_def isspace_def)

lemma show_nat_Cons: obtains c r where "show_nat n = c # r" "isdigit c" "\<not> isspace c" "c \<noteq> CHR ''-''" "c \<noteq> CHR ''+''"
proof -
  obtain c r where cr: "show_nat n = c # r" by (cases "show_nat n") auto
  then have "isdigit c" using show_nat_digits [of c n] by simp
  with cr show thesis using isdigit_not_space by (intro that [of c r]) (auto simp: isdigit_def)
qed

lemma atoi_value_show_int: "atoi_value (show_int n) = n"
proof (cases "n < 0")
  case True
  then show ?thesis by (simp add: atoi_value_def show_int_def isspace_def)
next
  case False
  obtain c r where cr: "show_nat (nat n) = c # r" "\<not> isspace c" "c \<noteq> CHR ''-''" "c \<noteq> CHR ''+''"
    by (rule show_nat_Cons)
  then have "atoi_value (show_int n) = int (digits_val 0 (show_nat (nat n)))"
    using False unfolding atoi_value_def show_int_def by simp
  with False show ?thesis by simp
qed

lemma atoi_show_int [simp, libc_simps]: "int_ok n \<Longrightarrow> atoi (show_int n) = Some n"
  by (simp add: atoi_def atoi_value_show_int)

lemma atoi_int_ok: "atoi s = Some n \<Longrightarrow> int_ok n"
  by (auto simp: atoi_def split: if_splits)

lemma length_snprintf_s: "0 < n \<Longrightarrow> length (snprintf_s n v) < n"
  by (auto simp: snprintf_s_def)

lemma snprintf_s_fits [simp, libc_simps]: "length v < n \<Longrightarrow> snprintf_s n v = v"
  by (simp add: snprintf_s_def)

lemma fgets_chars_split: "fgets_chars n s = (l, r) \<Longrightarrow> s = l @ r \<and> length l \<le> n"
  by (induction n s arbitrary: l r rule: fgets_chars.induct) (auto split: if_splits prod.splits)

lemma fgets_chars_progress: "fgets_chars (Suc n) (c # s) = (l, r) \<Longrightarrow> length r < length (c # s)"
  using fgets_chars_split [of "Suc n" "c # s" l r] by (auto split: if_splits prod.splits)

lemma fgets_chars_line:
  "CHR 0x0A \<notin> set s \<Longrightarrow> length s < n \<Longrightarrow> fgets_chars n (s @ CHR 0x0A # t) = (s @ [CHR 0x0A], t)"
proof (induction s arbitrary: n)
  case Nil then show ?case by (cases n) simp_all
next
  case (Cons c s)
  then obtain m where "n = Suc m" by (cases n) auto
  with Cons show ?case by auto
qed

end
