(* ===== verification/RoundRobin.thy ===== *)
theory RoundRobin
  imports Libc
begin

text \<open>
  The round-robin scheduler of \<open>assignments/a2/scheduling_rr/main.c\<close> (the copy under
  \<open>labs/lab3\<close> is the same file): reading the input, the scheduler loop of \<open>main\<close> with its
  three inner searches, the accounting of finished threads and the final report.

  This theory holds what the scheduler computes when every granted slice is consumed as
  granted; the theory \<open>RoundRobinThreads\<close> holds the real program, in which worker threads
  consume the slices under a mutex and two condition variables, and shows that it computes
  the same.

  \<^item> the \<open>int\<close> variables are mathematical integers. \<open>times_fit\<close> says of an input that its last arrival
    plus its bursts, and the sum of the largest possible turnaround times, are \<open>int\<close> values; the
    theorems on the schedule assume it, and show that then every value the program computes is an
    \<open>int\<close>, so that the C arithmetic does not overflow. Input that is accepted and does not fit
    overflows in C (undefined behaviour): an arrival at 2147483647 with a burst of 1 is the least;
  \<^item> the arrays of ten cells are lists of the cells that are filled, one per thread;
  \<^item> a loop that may not end is a partial function whose value is then \<open>None\<close>.
\<close>

section \<open>Input\<close>

record Input =
  in_threads :: nat
  in_q :: int
  in_at :: "int list"
  in_bt :: "int list"

datatype input_error = Bad_Threads | Bad_Arrival | Bad_Burst | Bad_Quantum

text \<open>
  One call of \<open>scanf("%d", ...)\<close> takes the next token of the input: \<open>Some n\<close> when it converts,
  \<open>None\<close> when it does not; at the end of the input it does not convert either.
\<close>

definition scan_int :: "int option list \<Rightarrow> int option \<times> int option list" where
  "scan_int ts = (case ts of [] \<Rightarrow> (None, []) | None # _ \<Rightarrow> (None, ts) | Some n # r \<Rightarrow> (Some n, r))"

fun read_times :: "nat \<Rightarrow> Input \<Rightarrow> int option list \<Rightarrow> input_error + Input \<times> int option list" where
  "read_times 0 inp ts = Inr (inp, ts)"
| "read_times (Suc k) inp ts =
     (case scan_int ts of
        (None, _) \<Rightarrow> Inl Bad_Arrival
      | (Some a, ts1) \<Rightarrow>
          (case scan_int ts1 of
             (None, _) \<Rightarrow> Inl Bad_Burst
           | (Some b, ts2) \<Rightarrow>
               if b \<le> 0 then Inl Bad_Burst
               else read_times k (inp\<lparr>in_at := in_at inp @ [a], in_bt := in_bt inp @ [b]\<rparr>) ts2))"

definition read_input :: "int option list \<Rightarrow> input_error + Input" where
  "read_input ts =
     (case scan_int ts of
        (None, _) \<Rightarrow> Inl Bad_Threads
      | (Some n, ts1) \<Rightarrow>
          if n < 1 \<or> 10 < n then Inl Bad_Threads
          else
            bindR (read_times (nat n) \<lparr>in_threads = nat n, in_q = 0, in_at = [], in_bt = []\<rparr> ts1)
              (\<lambda>(inp, ts2).
                 case scan_int ts2 of
                   (None, _) \<Rightarrow> Inl Bad_Quantum
                 | (Some qq, _) \<Rightarrow> if qq \<le> 0 then Inl Bad_Quantum else Inr (inp\<lparr>in_q := qq\<rparr>)))"

text \<open>What a well-formed input is: what \<open>main\<close> has checked once it has read all of it.\<close>

definition input_ok :: "Input \<Rightarrow> bool" where
  "input_ok inp \<longleftrightarrow>
     1 \<le> in_threads inp \<and> in_threads inp \<le> 10 \<and> 0 < in_q inp \<and>
     length (in_at inp) = in_threads inp \<and> length (in_bt inp) = in_threads inp \<and> (\<forall>b\<in>set (in_bt inp). 0 < b)"

section \<open>The scheduler loop\<close>

record sched =
  rr_rem :: "int list"
  rr_finish :: "int list"
  rr_now :: int
  rr_finished :: nat
  rr_i :: nat

definition init_sched :: "Input \<Rightarrow> sched" where
  "init_sched inp =
     \<lparr>rr_rem = in_bt inp, rr_finish = replicate (in_threads inp) (- 1), rr_now = 0, rr_finished = 0, rr_i = 0\<rparr>"

definition runnable :: "Input \<Rightarrow> 'a sched_scheme \<Rightarrow> nat \<Rightarrow> bool" where
  "runnable inp s k \<longleftrightarrow> 0 < rr_rem s ! k \<and> in_at inp ! k \<le> rr_now s"

text \<open>The do-while search; the result is \<open>picked\<close> and the value \<open>i\<close> is left with.\<close>

partial_function (option) pick_loop ::
  "Input \<Rightarrow> 'a sched_scheme \<Rightarrow> nat \<Rightarrow> nat \<Rightarrow> (int \<times> nat) option" where
  "pick_loop inp s start_i j =
     (if runnable inp s j then Some (int j, j)
      else
        let j' = (j + 1) mod in_threads inp in
        if j' \<noteq> start_i then pick_loop inp s start_i j' else Some (- 1, j'))"

definition next_arrival :: "Input \<Rightarrow> 'a sched_scheme \<Rightarrow> int" where
  "next_arrival inp s =
     fold (\<lambda>k na. if 0 < rr_rem s ! k then (if na = - 1 \<or> in_at inp ! k < na then in_at inp ! k else na) else na)
       [0..<in_threads inp] (- 1)"

definition jump_time :: "Input \<Rightarrow> 'a sched_scheme \<Rightarrow> 'a sched_scheme" where
  "jump_time inp s = (if rr_now s < next_arrival inp s then s\<lparr>rr_now := next_arrival inp s\<rparr> else s)"

definition grant_of :: "Input \<Rightarrow> 'a sched_scheme \<Rightarrow> nat \<Rightarrow> int" where
  "grant_of inp s p = (if rr_rem s ! p < in_q inp then rr_rem s ! p else in_q inp)"

definition account :: "Input \<Rightarrow> nat \<Rightarrow> int \<Rightarrow> 'a sched_scheme \<Rightarrow> 'a sched_scheme" where
  "account inp p consumed s =
     (let t = rr_now s + consumed;
          s1 = s\<lparr>rr_now := t\<rparr>;
          s2 = (if rr_rem s1 ! p = 0 \<and> rr_finish s1 ! p = - 1
                then s1\<lparr>rr_finish := (rr_finish s1)[p := t], rr_finished := rr_finished s1 + 1\<rparr> else s1)
      in s2\<lparr>rr_i := (p + 1) mod in_threads inp\<rparr>)"

definition consume :: "nat \<Rightarrow> int \<Rightarrow> 'a sched_scheme \<Rightarrow> 'a sched_scheme" where
  "consume p sl s = s\<lparr>rr_rem := (rr_rem s)[p := rr_rem s ! p - sl]\<rparr>"

text \<open>One round of the outer loop, the granted slice consumed as granted.\<close>

definition rr_round :: "Input \<Rightarrow> sched \<Rightarrow> sched option" where
  "rr_round inp s =
     (case pick_loop inp s (rr_i s) (rr_i s) of
        None \<Rightarrow> None
      | Some (picked, j) \<Rightarrow>
          if picked = - 1 then Some (jump_time inp (s\<lparr>rr_i := j\<rparr>))
          else
            let p = nat picked; g = grant_of inp s p in
            Some (account inp p g (consume p g (s\<lparr>rr_i := j\<rparr>))))"

partial_function (option) rr_schedule :: "Input \<Rightarrow> sched \<Rightarrow> sched option" where
  "rr_schedule inp s =
     (if rr_finished s < in_threads inp
      then (case rr_round inp s of None \<Rightarrow> None | Some s' \<Rightarrow> rr_schedule inp s')
      else Some s)"

section \<open>The report\<close>

definition turnaround :: "Input \<Rightarrow> 'a sched_scheme \<Rightarrow> nat \<Rightarrow> int" where
  "turnaround inp s p = rr_finish s ! p - in_at inp ! p"

definition waiting :: "Input \<Rightarrow> 'a sched_scheme \<Rightarrow> nat \<Rightarrow> int" where
  "waiting inp s p =
     (let wt = turnaround inp s p - in_bt inp ! p in if wt < 0 then 0 else wt)"

text \<open>
  The rows of the table, the two totals (\<open>total_tat\<close>, \<open>total_wt\<close>) that are divided by the
  number of threads when they are printed.
\<close>

fun report_loop :: "Input \<Rightarrow> 'a sched_scheme \<Rightarrow> nat list \<Rightarrow> int \<Rightarrow> int \<Rightarrow>
    (nat \<times> int \<times> int \<times> int) list \<times> int \<times> int" where
  "report_loop inp s [] total_tat total_wt = ([], total_tat, total_wt)"
| "report_loop inp s (p # ps) total_tat total_wt =
     (let tat = turnaround inp s p; wt = waiting inp s p;
          (rows, tot) = report_loop inp s ps (total_tat + tat) (total_wt + wt)
      in ((p + 1, in_bt inp ! p, tat, wt) # rows, tot))"

definition report :: "Input \<Rightarrow> 'a sched_scheme \<Rightarrow> (nat \<times> int \<times> int \<times> int) list \<times> int \<times> int" where
  "report inp s = report_loop inp s [0..<in_threads inp] 0 0"

section \<open>The search for the next thread\<close>

text \<open>
  The reference definition of the search: the first runnable thread in the cyclic order that
  starts at \<open>i\<close>.
\<close>

definition cyclic_from :: "nat \<Rightarrow> nat \<Rightarrow> nat list" where
  "cyclic_from n k = map (\<lambda>d. (k + d) mod n) [0..<n]"

definition pick_spec :: "Input \<Rightarrow> 'a sched_scheme \<Rightarrow> int \<times> nat" where
  "pick_spec inp s =
     (case find (runnable inp s) (cyclic_from (in_threads inp) (rr_i s)) of
        Some j \<Rightarrow> (int j, j) | None \<Rightarrow> (- 1, rr_i s))"

lemma mod_add_wrap: "k < n \<Longrightarrow> d \<le> n \<Longrightarrow> (k + d) mod n = (if k + d < n then k + d else k + d - (n::nat))"
  by (auto simp: mod_if)

lemma pick_loop_suffix:
  assumes "k < in_threads inp" "d < in_threads inp"
  shows "pick_loop inp s k ((k + d) mod in_threads inp) =
           Some (case find (runnable inp s) (map (\<lambda>d. (k + d) mod in_threads inp) [d..<in_threads inp]) of
                   Some j \<Rightarrow> (int j, j) | None \<Rightarrow> (- 1, k))"
  using assms(2)
proof (induction "in_threads inp - d" arbitrary: d)
  case 0 then show ?case by simp
next
  case (Suc m)
  let ?n = "in_threads inp" and ?j = "(k + d) mod in_threads inp"
  have up: "[d..<?n] = d # [Suc d..<?n]" using Suc.prems by (rule upt_conv_Cons)
  have nx: "(?j + 1) mod ?n = (k + Suc d) mod ?n" by (simp add: mod_simps)
  have eq: "(k + Suc d) mod ?n = k \<longleftrightarrow> Suc d = ?n"
    using assms(1) Suc.prems mod_add_wrap [of k ?n "Suc d"] by (auto split: if_splits)
  show ?case
  proof (cases "runnable inp s ?j \<or> Suc d = ?n")
    case True
    then show ?thesis using nx eq
      by (subst pick_loop.simps) (auto simp: up Let_def)
  next
    case False
    with Suc.prems have "pick_loop inp s k ((k + Suc d) mod ?n) =
        Some (case find (runnable inp s) (map (\<lambda>d. (k + d) mod ?n) [Suc d..<?n]) of
                Some j \<Rightarrow> (int j, j) | None \<Rightarrow> (- 1, k))"
      using Suc.hyps by (intro Suc.hyps(1)) auto
    with False nx eq show ?thesis
      by (subst pick_loop.simps) (simp add: up Let_def)
  qed
qed

lemma pick_loop_spec:
  "rr_i s < in_threads inp \<Longrightarrow> pick_loop inp s (rr_i s) (rr_i s) = Some (pick_spec inp s)"
  using pick_loop_suffix [of "rr_i s" inp 0 s] by (simp add: pick_spec_def cyclic_from_def)

lemma set_cyclic_from: "k < n \<Longrightarrow> set (cyclic_from n k) = {..<n}"
proof -
  assume k: "k < n"
  have "j \<in> (\<lambda>d. (k + d) mod n) ` {0..<n}" if "j < n" for j
  proof (rule image_eqI)
    show "j = (k + (if k \<le> j then j - k else j + n - k)) mod n" using k that by simp
  qed (use k that in auto)
  then show ?thesis using k by (auto simp: cyclic_from_def)
qed

text \<open>The two outcomes of the search.\<close>

lemma pick_spec_cases:
  assumes "rr_i s < in_threads inp"
  obtains (picked) p where "pick_spec inp s = (int p, p)" "p < in_threads inp" "runnable inp s p"
    | (idle) "pick_spec inp s = (- 1, rr_i s)" "\<forall>p < in_threads inp. \<not> runnable inp s p"
proof (cases "find (runnable inp s) (cyclic_from (in_threads inp) (rr_i s))")
  case None
  then have "\<forall>p < in_threads inp. \<not> runnable inp s p"
    using set_cyclic_from [OF assms] by (auto simp: find_None_iff)
  with None show thesis by (intro idle) (simp_all add: pick_spec_def)
next
  case (Some p)
  then have "runnable inp s p" "p \<in> set (cyclic_from (in_threads inp) (rr_i s))"
    by (auto simp: find_Some_iff)
  with Some show thesis using set_cyclic_from [OF assms] picked
    by (auto simp: pick_spec_def)
qed

section \<open>Invariant of the loop\<close>

definition last_arrival :: "Input \<Rightarrow> int" where
  "last_arrival inp = Max (insert 0 (set (in_at inp)))"

definition thread_ok :: "Input \<Rightarrow> 'a sched_scheme \<Rightarrow> nat \<Rightarrow> bool" where
  "thread_ok inp s k \<longleftrightarrow>
     0 \<le> rr_rem s ! k \<and> rr_rem s ! k \<le> in_bt inp ! k \<and>
     (rr_rem s ! k < in_bt inp ! k \<longrightarrow>
        max 0 (in_at inp ! k) + (in_bt inp ! k - rr_rem s ! k) \<le> rr_now s) \<and>
     (if 0 < rr_rem s ! k then rr_finish s ! k = - 1
      else max 0 (in_at inp ! k) + in_bt inp ! k \<le> rr_finish s ! k \<and> rr_finish s ! k \<le> rr_now s)"

definition rr_ok :: "Input \<Rightarrow> 'a sched_scheme \<Rightarrow> bool" where
  "rr_ok inp s \<longleftrightarrow>
     length (rr_rem s) = in_threads inp \<and> length (rr_finish s) = in_threads inp \<and>
     0 \<le> rr_now s \<and> rr_i s < in_threads inp \<and>
     rr_finished s = card {k. k < in_threads inp \<and> rr_rem s ! k = 0} \<and>
     (\<forall>k < in_threads inp. thread_ok inp s k) \<and>
     rr_now s + sum_list (rr_rem s) \<le> last_arrival inp + sum_list (in_bt inp)"

lemma at_le_last_arrival:
  "length (in_at inp) = in_threads inp \<Longrightarrow> k < in_threads inp \<Longrightarrow> in_at inp ! k \<le> last_arrival inp"
  by (auto simp: last_arrival_def intro!: Max_ge)

lemma init_sched_ok: "input_ok inp \<Longrightarrow> rr_ok inp (init_sched inp)"
  by (force simp: input_ok_def rr_ok_def init_sched_def thread_ok_def last_arrival_def
      in_set_conv_nth intro!: Max_ge)

lemma sum_list_update_int:
  "k < length xs \<Longrightarrow> sum_list (xs[k := v]) = sum_list xs - xs ! k + (v::int)"
  by (induction xs arbitrary: k) (auto split: nat.splits)

text \<open>Everything the model reads of the remaining times lies inside the arrays.\<close>

lemma sum_rem_nonneg: "rr_ok inp s \<Longrightarrow> 0 \<le> sum_list (rr_rem s)"
  by (force simp: rr_ok_def thread_ok_def in_set_conv_nth intro!: sum_list_nonneg)

lemma unfinished_exists:
  assumes "rr_ok inp s" "rr_finished s < in_threads inp"
  shows "\<exists>k < in_threads inp. 0 < rr_rem s ! k"
proof (rule ccontr)
  assume "\<not> ?thesis"
  then have "{k. k < in_threads inp \<and> rr_rem s ! k = 0} = {..<in_threads inp}"
    using assms(1) by (force simp: rr_ok_def thread_ok_def)
  with assms show False by (simp add: rr_ok_def)
qed

subsection \<open>A slice keeps the invariant\<close>

lemma grant_of_bounds:
  "0 < in_q inp \<Longrightarrow> 0 < rr_rem s ! p \<Longrightarrow>
     0 < grant_of inp s p \<and> grant_of inp s p \<le> rr_rem s ! p \<and> grant_of inp s p \<le> in_q inp"
  by (auto simp: grant_of_def)

lemma card_zero_update:
  assumes "p < length xs" "xs ! p \<noteq> (0::int)"
  shows "card {k. k < length xs \<and> xs[p := v] ! k = 0} =
           card {k. k < length xs \<and> xs ! k = 0} + (if v = 0 then 1 else 0)"
proof -
  have "{k. k < length xs \<and> xs[p := v] ! k = 0} =
          {k. k < length xs \<and> xs ! k = 0} \<union> (if v = 0 then {p} else {})"
    using assms by (auto simp: nth_list_update split: if_splits)
  then show ?thesis using assms by simp
qed

lemma slice_ok:
  assumes ok: "rr_ok inp s" and inp: "input_ok inp" and p: "p < in_threads inp"
    and r: "runnable inp s p" and g: "0 < g" "g \<le> rr_rem s ! p"
  shows "rr_ok inp (account inp p g (consume p g s))"
proof -
  have len: "length (rr_rem s) = in_threads inp" "length (rr_finish s) = in_threads inp"
    using ok by (simp_all add: rr_ok_def)
  have t: "thread_ok inp s k" if "k < in_threads inp" for k
    using ok that by (simp add: rr_ok_def)
  have now: "0 \<le> rr_now s" using ok by (simp add: rr_ok_def)
  have nz: "rr_rem s ! p \<noteq> 0" and fin: "rr_finish s ! p = - 1"
    using r t [OF p] by (auto simp: runnable_def thread_ok_def)
  have cardp: "card {k. k < in_threads inp \<and> (rr_rem s)[p := rr_rem s ! p - g] ! k = 0} =
      rr_finished s + (if rr_rem s ! p = g then 1 else 0)"
    using card_zero_update [of p "rr_rem s" "rr_rem s ! p - g"] nz p ok by (simp add: rr_ok_def)
  have thr: "thread_ok inp (account inp p g (consume p g s)) k" if k: "k < in_threads inp" for k
    using t [OF k] t [OF p] len p k g r fin now
    by (auto simp: thread_ok_def account_def consume_def runnable_def Let_def nth_list_update)
  show ?thesis
    unfolding rr_ok_def using thr len cardp p g ok
    by (auto simp: account_def consume_def Let_def fin rr_ok_def sum_list_update_int)
qed

subsection \<open>Idle time\<close>

lemma next_arrival_fold:
  assumes "\<forall>k\<in>set ks. 0 < rr_rem s ! k \<longrightarrow> 0 \<le> in_at inp ! k"
    and "r = fold (\<lambda>k na. if 0 < rr_rem s ! k
            then (if na = - 1 \<or> in_at inp ! k < na then in_at inp ! k else na) else na) ks na"
  shows "r = na \<and> (\<forall>k\<in>set ks. 0 < rr_rem s ! k \<longrightarrow> na \<noteq> - 1 \<and> na \<le> in_at inp ! k) \<or>
         (\<exists>k\<in>set ks. 0 < rr_rem s ! k \<and> r = in_at inp ! k \<and> (na = - 1 \<or> r < na)) \<and>
           (\<forall>k\<in>set ks. 0 < rr_rem s ! k \<longrightarrow> r \<le> in_at inp ! k)"
  using assms
proof (induction ks arbitrary: na)
  case Nil then show ?case by simp
next
  case (Cons k ks)
  have pre: "\<forall>k\<in>set ks. 0 < rr_rem s ! k \<longrightarrow> 0 \<le> in_at inp ! k"
    and at: "0 < rr_rem s ! k \<longrightarrow> 0 \<le> in_at inp ! k"
    using Cons.prems(1) by simp_all
  show ?case
  proof (cases "0 < rr_rem s ! k \<and> (na = - 1 \<or> in_at inp ! k < na)")
    case False
    then have "r = fold (\<lambda>k na. if 0 < rr_rem s ! k
        then (if na = - 1 \<or> in_at inp ! k < na then in_at inp ! k else na) else na) ks na"
      using Cons.prems(2) by auto
    from Cons.IH [OF pre this] pre False show ?thesis by (elim disjE) auto
  next
    case True
    then have "r = fold (\<lambda>k na. if 0 < rr_rem s ! k
        then (if na = - 1 \<or> in_at inp ! k < na then in_at inp ! k else na) else na) ks (in_at inp ! k)"
      using Cons.prems(2) by simp
    from Cons.IH [OF pre this] True at show ?thesis by (elim disjE) auto
  qed
qed

lemma next_arrival_earliest:
  assumes ok: "rr_ok inp s" and unf: "rr_finished s < in_threads inp"
    and idle: "\<forall>p < in_threads inp. \<not> runnable inp s p"
  shows "rr_now s < next_arrival inp s"
    and "\<exists>k < in_threads inp. 0 < rr_rem s ! k \<and> next_arrival inp s = in_at inp ! k"
    and "\<forall>k < in_threads inp. 0 < rr_rem s ! k \<longrightarrow> next_arrival inp s \<le> in_at inp ! k"
proof -
  have late: "rr_now s < in_at inp ! k" if "k < in_threads inp" "0 < rr_rem s ! k" for k
    using idle that by (auto simp: runnable_def)
  have nn: "0 \<le> rr_now s" using ok by (simp add: rr_ok_def)
  obtain k where k: "k < in_threads inp" "0 < rr_rem s ! k" using unfinished_exists [OF ok unf] by blast
  have pre: "\<forall>k\<in>set [0..<in_threads inp]. 0 < rr_rem s ! k \<longrightarrow> 0 \<le> in_at inp ! k"
    using late nn by force
  from next_arrival_fold [OF pre next_arrival_def [of inp s]] k
  have *: "(\<exists>k < in_threads inp. 0 < rr_rem s ! k \<and> next_arrival inp s = in_at inp ! k) \<and>
      (\<forall>k < in_threads inp. 0 < rr_rem s ! k \<longrightarrow> next_arrival inp s \<le> in_at inp ! k)"
    by auto
  then show "\<exists>k < in_threads inp. 0 < rr_rem s ! k \<and> next_arrival inp s = in_at inp ! k"
    and "\<forall>k < in_threads inp. 0 < rr_rem s ! k \<longrightarrow> next_arrival inp s \<le> in_at inp ! k"
    by simp_all
  with * late show "rr_now s < next_arrival inp s" by auto
qed

lemma jump_time_ok:
  assumes ok: "rr_ok inp s" and inp: "input_ok inp" and unf: "rr_finished s < in_threads inp"
    and idle: "\<forall>p < in_threads inp. \<not> runnable inp s p"
  shows "rr_ok inp (jump_time inp s)" and "\<exists>p < in_threads inp. runnable inp (jump_time inp s) p"
proof -
  note na = next_arrival_earliest [OF ok unf idle]
  from na(2) obtain k where k: "k < in_threads inp" "0 < rr_rem s ! k" "next_arrival inp s = in_at inp ! k"
    by blast
  have le: "next_arrival inp s \<le> last_arrival inp"
    using at_le_last_arrival [of inp k] k inp by (simp add: input_ok_def)
  have rem: "sum_list (rr_rem s) \<le> sum_list (in_bt inp)"
    using ok inp by (auto simp: rr_ok_def thread_ok_def input_ok_def sum_list_sum_nth intro!: sum_mono)
  show "rr_ok inp (jump_time inp s)"
    using ok na(1) le rem by (force simp: jump_time_def rr_ok_def thread_ok_def)
  show "\<exists>p < in_threads inp. runnable inp (jump_time inp s) p"
    using k na(1) by (auto simp: jump_time_def runnable_def)
qed

section \<open>Termination and correctness of the loop\<close>

definition rr_measure :: "Input \<Rightarrow> sched \<Rightarrow> nat" where
  "rr_measure inp s =
     2 * nat (sum_list (rr_rem s)) + (if \<exists>p < in_threads inp. runnable inp s p then 0 else 1)"

text \<open>The two forms a round takes, with what each keeps.\<close>

lemma rr_round_cases:
  assumes ok: "rr_ok inp s" and inp: "input_ok inp" and unf: "rr_finished s < in_threads inp"
  obtains (slice) p where "pick_loop inp s (rr_i s) (rr_i s) = Some (int p, p)"
      "p < in_threads inp" "runnable inp s p"
      "rr_round inp s = Some (account inp p (grant_of inp s p) (consume p (grant_of inp s p) s))"
    | (idle) "pick_loop inp s (rr_i s) (rr_i s) = Some (- 1, rr_i s)"
      "\<forall>p < in_threads inp. \<not> runnable inp s p" "rr_round inp s = Some (jump_time inp s)"
proof -
  have i: "rr_i s < in_threads inp" using ok by (simp add: rr_ok_def)
  from i show thesis
  proof (cases rule: pick_spec_cases)
    case (picked p)
    have "account inp p g (consume p g (s\<lparr>rr_i := p\<rparr>)) = account inp p g (consume p g s)" for g
      by (simp add: account_def consume_def Let_def)
    with picked show ?thesis
      by (intro slice [of p]) (simp_all add: rr_round_def pick_loop_spec [OF i] Let_def)
  next
    case idle
    then show ?thesis
      by (intro that(2)) (simp_all add: rr_round_def pick_loop_spec [OF i])
  qed
qed

lemma rr_round_progress:
  assumes ok: "rr_ok inp s" and inp: "input_ok inp" and unf: "rr_finished s < in_threads inp"
  shows "\<exists>s'. rr_round inp s = Some s' \<and> rr_ok inp s' \<and> rr_measure inp s' < rr_measure inp s"
  using ok inp unf
proof (cases rule: rr_round_cases)
  case (slice p)
  let ?g = "grant_of inp s p" and ?s' = "account inp p (grant_of inp s p) (consume p (grant_of inp s p) s)"
  have g: "0 < ?g" "?g \<le> rr_rem s ! p"
    using grant_of_bounds [of inp s p] inp slice(3) by (simp_all add: input_ok_def runnable_def)
  have ok': "rr_ok inp ?s'" using slice_ok [OF ok inp slice(2,3) g] .
  have "sum_list (rr_rem ?s') = sum_list (rr_rem s) - ?g"
    using slice(2) ok by (simp add: account_def consume_def Let_def sum_list_update_int rr_ok_def)
  then have "rr_measure inp ?s' < rr_measure inp s"
    using sum_rem_nonneg [OF ok'] sum_rem_nonneg [OF ok] slice g by (auto simp: rr_measure_def)
  with ok' slice(4) show ?thesis by blast
next
  case idle
  note j = jump_time_ok [OF ok inp unf idle(2)]
  have "rr_rem (jump_time inp s) = rr_rem s" by (simp add: jump_time_def)
  with j idle show ?thesis by (auto simp: rr_measure_def)
qed

lemma rr_schedule_returns:
  assumes "rr_ok inp s" "input_ok inp"
  shows "\<exists>s'. rr_schedule inp s = Some s' \<and> rr_ok inp s' \<and> rr_finished s' = in_threads inp"
  using assms(1)
proof (induction "rr_measure inp s" arbitrary: s rule: less_induct)
  case less
  show ?case
  proof (cases "rr_finished s < in_threads inp")
    case True
    from rr_round_progress [OF less.prems assms(2) this] obtain s' where
      "rr_round inp s = Some s'" "rr_ok inp s'" "rr_measure inp s' < rr_measure inp s" by blast
    with less.hyps [of s'] True show ?thesis by (subst rr_schedule.simps) auto
  next
    case False
    have "card {k. k < in_threads inp \<and> rr_rem s ! k = 0} \<le> card {..<in_threads inp}"
      by (rule card_mono) auto
    then have "rr_finished s \<le> in_threads inp" using less.prems by (simp add: rr_ok_def)
    with False less.prems show ?thesis by (subst rr_schedule.simps) auto
  qed
qed

section \<open>Which inputs are accepted\<close>

fun time_tokens :: "int list \<Rightarrow> int list \<Rightarrow> int option list" where
  "time_tokens (a # as) (b # bs) = Some a # Some b # time_tokens as bs"
| "time_tokens as bs = []"

lemma scan_int_eq_Some [simp]: "scan_int ts = (Some n, r) \<longleftrightarrow> ts = Some n # r"
  by (auto simp: scan_int_def split: list.splits option.splits)

lemma scan_int_Cons [simp]: "scan_int (Some n # r) = (Some n, r)"
  by (simp add: scan_int_def)

lemma read_times_accepts:
  assumes "length as = k" "length bs = k" "\<forall>b\<in>set bs. 0 < b"
  shows "read_times k inp (time_tokens as bs @ r) =
           Inr (inp\<lparr>in_at := in_at inp @ as, in_bt := in_bt inp @ bs\<rparr>, r)"
  using assms
proof (induction as bs arbitrary: k inp rule: time_tokens.induct)
  case (1 a as b bs)
  then obtain k' where "k = Suc k'" "length as = k'" "length bs = k'" by (cases k) auto
  with 1 show ?case by simp
qed auto

lemma read_times_sound:
  "read_times k inp ts = Inr (inp', r) \<Longrightarrow>
     \<exists>as bs. length as = k \<and> length bs = k \<and> (\<forall>b\<in>set bs. 0 < b) \<and> ts = time_tokens as bs @ r \<and>
       inp' = inp\<lparr>in_at := in_at inp @ as, in_bt := in_bt inp @ bs\<rparr>"
proof (induction k arbitrary: inp ts)
  case 0
  then show ?case by (auto intro!: exI [of _ "[]"])
next
  case (Suc k)
  from Suc.prems obtain a b t where t: "ts = Some a # Some b # t" "0 < b"
    "read_times k (inp\<lparr>in_at := in_at inp @ [a], in_bt := in_bt inp @ [b]\<rparr>) t = Inr (inp', r)"
    by (auto split: prod.splits option.splits if_splits)
  from Suc.IH [OF t(3)] obtain as bs where "length as = k" "length bs = k" "\<forall>b\<in>set bs. 0 < b"
    "t = time_tokens as bs @ r" "inp' = inp\<lparr>in_at := in_at inp @ a # as, in_bt := in_bt inp @ b # bs\<rparr>"
    by auto
  with t show ?case by (intro exI [of _ "a # as"] exI [of _ "b # bs"]) simp
qed

text \<open>
  C26 (accepted input). The program goes on past its prompts exactly when the input is a thread
  count from 1 to 10, that many pairs of an arrival time and a positive burst time, and a positive
  quantum; the record it then holds is the one those numbers spell, and it is well formed.
\<close>

theorem read_input_accepts:
  "read_input ts = Inr inp \<longleftrightarrow>
     input_ok inp \<and>
     (\<exists>r. ts = Some (int (in_threads inp)) # time_tokens (in_at inp) (in_bt inp) @ Some (in_q inp) # r)"
proof
  assume "read_input ts = Inr inp"
  then obtain n t1 where n: "ts = Some n # t1" "1 \<le> n" "n \<le> 10"
    and b: "bindR (read_times (nat n) \<lparr>in_threads = nat n, in_q = 0, in_at = [], in_bt = []\<rparr> t1)
          (\<lambda>(inp, ts2). case scan_int ts2 of (None, _) \<Rightarrow> Inl Bad_Quantum
             | (Some qq, _) \<Rightarrow> if qq \<le> 0 then Inl Bad_Quantum else Inr (inp\<lparr>in_q := qq\<rparr>)) = Inr inp"
    by (cases "scan_int ts") (auto simp: read_input_def split: option.splits if_splits)
  from b obtain inp1 t2 where
    r: "read_times (nat n) \<lparr>in_threads = nat n, in_q = 0, in_at = [], in_bt = []\<rparr> t1 = Inr (inp1, t2)"
    and l: "(case scan_int t2 of (None, _) \<Rightarrow> Inl Bad_Quantum
             | (Some qq, _) \<Rightarrow> if qq \<le> 0 then Inl Bad_Quantum else Inr (inp1\<lparr>in_q := qq\<rparr>)) = Inr inp"
    by (auto simp: bindR_eq_Inr)
  from l obtain qq rest where "t2 = Some qq # rest" "0 < qq" "inp = inp1\<lparr>in_q := qq\<rparr>"
    by (cases "scan_int t2") (auto split: option.splits if_splits)
  with read_times_sound [OF r] n show
    "input_ok inp \<and> (\<exists>r. ts = Some (int (in_threads inp)) # time_tokens (in_at inp) (in_bt inp) @ Some (in_q inp) # r)"
    by (auto simp: input_ok_def)
next
  assume a: "input_ok inp \<and>
     (\<exists>r. ts = Some (int (in_threads inp)) # time_tokens (in_at inp) (in_bt inp) @ Some (in_q inp) # r)"
  then obtain r where
    ts: "ts = Some (int (in_threads inp)) # time_tokens (in_at inp) (in_bt inp) @ Some (in_q inp) # r" by blast
  from a have "input_ok inp" ..
  then show "read_input ts = Inr inp"
    by (simp add: read_input_def ts input_ok_def read_times_accepts)
qed

section \<open>Properties of the schedule\<close>

text \<open>
  C25 (search for the next thread). From a loop state the do-while search ends, and it finds the
  first runnable thread in cyclic order from the round-robin pointer, or leaves the pointer where
  it was and reports that there is none.
\<close>

theorem pick_loop_equiv:
  "rr_i s < in_threads inp \<Longrightarrow> pick_loop inp s (rr_i s) (rr_i s) = Some (pick_spec inp s)"
  by (rule pick_loop_spec)

theorem pick_loop_equiv_witness:
  "pick_loop \<lparr>in_threads = 3, in_q = 2, in_at = [0, 5, 1], in_bt = [3, 4, 2]\<rparr>
     \<lparr>rr_rem = [1, 4, 2], rr_finish = [- 1, - 1, - 1], rr_now = 2, rr_finished = 0, rr_i = 1\<rparr> 1 1 =
     Some (2, 2)"
  using pick_loop_equiv [of "\<lparr>rr_rem = [1, 4, 2], rr_finish = [- 1, - 1, - 1], rr_now = 2, rr_finished = 0, rr_i = 1\<rparr>"
      "\<lparr>in_threads = 3, in_q = 2, in_at = [0, 5, 1], in_bt = [3, 4, 2]\<rparr>"]
  by (simp add: pick_spec_def cyclic_from_def runnable_def upt_rec)

lemma report_loop_totals:
  "\<forall>p\<in>set ps. waiting inp s p = turnaround inp s p - in_bt inp ! p \<Longrightarrow>
     snd (report_loop inp s ps t w) =
       (t + (\<Sum>p\<leftarrow>ps. turnaround inp s p), w + (\<Sum>p\<leftarrow>ps. turnaround inp s p) - (\<Sum>p\<leftarrow>ps. in_bt inp ! p))"
  by (induction ps arbitrary: t w) (auto simp: Let_def case_prod_beta)

lemma report_loop_rows:
  "fst (report_loop inp s ps t w) =
     map (\<lambda>p. (p + 1, in_bt inp ! p, turnaround inp s p, waiting inp s p)) ps"
  by (induction ps arbitrary: t w) (auto simp: Let_def case_prod_beta)

lemma thread_times:
  assumes "rr_ok inp s" "input_ok inp" "rr_finished s = in_threads inp" "p < in_threads inp"
  shows "rr_rem s ! p = 0"
    and "max 0 (in_at inp ! p) + in_bt inp ! p \<le> rr_finish s ! p"
    and "rr_finish s ! p \<le> last_arrival inp + sum_list (in_bt inp)"
    and "waiting inp s p = turnaround inp s p - in_bt inp ! p"
proof -
  have "{k. k < in_threads inp \<and> rr_rem s ! k = 0} = {..<in_threads inp}"
    using assms(1,3) by (intro card_subset_eq) (auto simp: rr_ok_def)
  with assms(4) show z: "rr_rem s ! p = 0" by blast
  with assms show "max 0 (in_at inp ! p) + in_bt inp ! p \<le> rr_finish s ! p"
    by (auto simp: rr_ok_def thread_ok_def)
  then show "waiting inp s p = turnaround inp s p - in_bt inp ! p"
    by (simp add: waiting_def turnaround_def Let_def)
  have "rr_finish s ! p \<le> rr_now s" using z assms by (auto simp: rr_ok_def thread_ok_def)
  with sum_rem_nonneg [OF assms(1)] assms(1)
  show "rr_finish s ! p \<le> last_arrival inp + sum_list (in_bt inp)" by (simp add: rr_ok_def)
qed

section \<open>Times that fit\<close>

text \<open>Several rounds of the loop.\<close>

fun rr_rounds :: "nat \<Rightarrow> Input \<Rightarrow> sched \<Rightarrow> sched option" where
  "rr_rounds 0 inp s = Some s"
| "rr_rounds (Suc k) inp s = (case rr_round inp s of None \<Rightarrow> None | Some s' \<Rightarrow> rr_rounds k inp s')"

text \<open>
  No thread finishes after the last arrival plus all bursts. The input fits if this is an \<open>int\<close> and so
  is the sum of the turnaround times of threads that all finish then.
\<close>

definition last_finish :: "Input \<Rightarrow> int" where
  "last_finish inp = last_arrival inp + sum_list (in_bt inp)"

definition times_fit :: "Input \<Rightarrow> bool" where
  "times_fit inp \<longleftrightarrow>
     (\<forall>a\<in>set (in_at inp). int_ok a) \<and> last_finish inp \<le> 2147483647 \<and>
     (\<Sum>a\<leftarrow>in_at inp. last_finish inp - a) \<le> 2147483647"

text \<open>The variables of the scheduler are \<open>int\<close> values.\<close>

definition sched_int :: "Input \<Rightarrow> sched \<Rightarrow> bool" where
  "sched_int inp s \<longleftrightarrow>
     int_ok (rr_now s) \<and> (\<forall>p < in_threads inp. int_ok (rr_rem s ! p) \<and> int_ok (rr_finish s ! p))"

lemma sched_int_ok:
  assumes "rr_ok inp s" "input_ok inp" "times_fit inp"
  shows "sched_int inp s"
proof -
  have now: "0 \<le> rr_now s" "rr_now s \<le> 2147483647" "sum_list (rr_rem s) \<le> 2147483647"
    using assms(1,3) sum_rem_nonneg [OF assms(1)] by (auto simp: rr_ok_def times_fit_def last_finish_def)
  have "rr_rem s ! p \<le> sum_list (rr_rem s)" if "p < in_threads inp" for p
    using assms(1) that by (intro member_le_sum_list) (force simp: rr_ok_def thread_ok_def in_set_conv_nth)+
  with now assms(1) show ?thesis
    by (force simp: sched_int_def int_ok_def rr_ok_def thread_ok_def split: if_splits)
qed

text \<open>After the last thread has finished a further round would change nothing.\<close>

lemma rr_round_ok:
  assumes "rr_ok inp s" "input_ok inp"
  shows "\<exists>s'. rr_round inp s = Some s' \<and> rr_ok inp s'"
proof (cases "rr_finished s < in_threads inp")
  case True
  then show ?thesis using rr_round_progress [OF assms] by blast
next
  case False
  have "card {k. k < in_threads inp \<and> rr_rem s ! k = 0} = card {..<in_threads inp}"
    using False assms(1) card_mono [of "{..<in_threads inp}" "{k. k < in_threads inp \<and> rr_rem s ! k = 0}"]
    by (auto simp: rr_ok_def)
  then have "{k. k < in_threads inp \<and> rr_rem s ! k = 0} = {..<in_threads inp}"
    by (intro card_subset_eq) auto
  then have z: "rr_rem s ! k = 0" if "k < in_threads inp" for k using that by blast
  have i: "rr_i s < in_threads inp" using assms(1) by (simp add: rr_ok_def)
  from i show ?thesis
  proof (cases rule: pick_spec_cases)
    case (picked p)
    with z show ?thesis by (simp add: runnable_def)
  next
    case idle
    have "next_arrival inp s = - 1"
      unfolding next_arrival_def by (rule fold_invariant [where P = "\<lambda>na. na = - 1" and Q = "\<lambda>k. k < in_threads inp"]) (auto simp: z)
    then have "jump_time inp s = s" using assms(1) by (simp add: jump_time_def rr_ok_def)
    with idle assms(1) show ?thesis by (simp add: rr_round_def pick_loop_spec [OF i])
  qed
qed

lemma rr_rounds_ok:
  "rr_ok inp s \<Longrightarrow> input_ok inp \<Longrightarrow> \<exists>s'. rr_rounds d inp s = Some s' \<and> rr_ok inp s'"
proof (induction d arbitrary: s)
  case (Suc d)
  then obtain s' where "rr_round inp s = Some s'" "rr_ok inp s'" using rr_round_ok by blast
  with Suc show ?case by simp
qed simp

lemma rr_rounds_int:
  assumes "rr_ok inp s" "input_ok inp" "times_fit inp" "rr_rounds d inp s = Some s'"
  shows "sched_int inp s'"
  using rr_rounds_ok [OF assms(1,2), of d] sched_int_ok [OF _ assms(2,3)] assms(4) by auto

text \<open>Sums of some of the turnaround times.\<close>

lemma partial_turnaround:
  assumes "rr_ok inp s" "input_ok inp" "rr_finished s = in_threads inp" "times_fit inp" "k \<le> in_threads inp"
  shows "0 \<le> (\<Sum>p\<leftarrow>[0..<k]. waiting inp s p)" "(\<Sum>p\<leftarrow>[0..<k]. waiting inp s p) \<le> (\<Sum>p\<leftarrow>[0..<k]. turnaround inp s p)"
    "(\<Sum>p\<leftarrow>[0..<k]. turnaround inp s p) \<le> 2147483647"
proof -
  note t = thread_times [OF assms(1-3)]
  have len: "length (in_at inp) = in_threads inp" "length (in_bt inp) = in_threads inp"
    using assms(2) by (simp_all add: input_ok_def)
  have bt: "0 < in_bt inp ! p" if "p < in_threads inp" for p using assms(2) that by (simp add: input_ok_def)
  have le: "0 \<le> waiting inp s p \<and> waiting inp s p \<le> turnaround inp s p \<and> turnaround inp s p \<le> last_finish inp - in_at inp ! p
      \<and> 0 \<le> last_finish inp - in_at inp ! p" if "p < in_threads inp" for p
    using t(2-4) [OF that] bt [OF that] by (auto simp: turnaround_def last_finish_def)
  show "0 \<le> (\<Sum>p\<leftarrow>[0..<k]. waiting inp s p)" using le assms(5) by (intro sum_list_nonneg) auto
  show "(\<Sum>p\<leftarrow>[0..<k]. waiting inp s p) \<le> (\<Sum>p\<leftarrow>[0..<k]. turnaround inp s p)"
    using le assms(5) by (intro sum_list_mono) auto
  have "(\<Sum>p\<leftarrow>[0..<k]. turnaround inp s p) \<le> (\<Sum>p\<leftarrow>[0..<k]. last_finish inp - in_at inp ! p)"
    using le assms(5) by (intro sum_list_mono) auto
  also have "\<dots> = (\<Sum>p<k. last_finish inp - in_at inp ! p)"
    by (simp add: sum_list_distinct_conv_sum_set atLeast0LessThan)
  also have "\<dots> \<le> (\<Sum>p<in_threads inp. last_finish inp - in_at inp ! p)"
    using le assms(5) by (intro sum_mono2) auto
  also have "\<dots> = (\<Sum>a\<leftarrow>in_at inp. last_finish inp - a)"
    using len(1) by (simp add: sum_list_sum_nth atLeast0LessThan)
  finally show "(\<Sum>p\<leftarrow>[0..<k]. turnaround inp s p) \<le> 2147483647" using assms(4) by (simp add: times_fit_def)
qed

lemma report_loop_sums:
  "snd (report_loop inp s ps t w) = (t + (\<Sum>p\<leftarrow>ps. turnaround inp s p), w + (\<Sum>p\<leftarrow>ps. waiting inp s p))"
  by (induction ps arbitrary: t w) (auto simp: Let_def case_prod_beta)

lemma report_int:
  assumes "rr_ok inp s" "input_ok inp" "rr_finished s = in_threads inp" "times_fit inp" "k \<le> in_threads inp"
  shows "case snd (report_loop inp s [0..<k] 0 0) of (total_tat, total_wt) \<Rightarrow> int_ok total_tat \<and> int_ok total_wt"
  using partial_turnaround [OF assms] by (simp add: report_loop_sums int_ok_def)

lemma times_int:
  assumes "rr_ok inp s" "input_ok inp" "rr_finished s = in_threads inp" "times_fit inp" "p < in_threads inp"
  shows "int_ok (turnaround inp s p)" "int_ok (turnaround inp s p - in_bt inp ! p)"
proof -
  have "[0..<Suc p] = [0..<p] @ [p]" by simp
  moreover have "0 \<le> (\<Sum>q\<leftarrow>[0..<p]. turnaround inp s q)"
    using partial_turnaround(1,2) [OF assms(1-4), of p] assms(5) by simp
  ultimately have "turnaround inp s p \<le> 2147483647"
    using partial_turnaround(3) [OF assms(1-4), of "Suc p"] assms(5) by simp
  moreover have "0 \<le> turnaround inp s p - in_bt inp ! p" "0 < in_bt inp ! p"
    using thread_times(2) [OF assms(1-3,5)] assms(2,5) by (simp_all add: turnaround_def input_ok_def)
  ultimately show "int_ok (turnaround inp s p)" "int_ok (turnaround inp s p - in_bt inp ! p)"
    by (simp_all add: int_ok_def)
qed

text \<open>
  C23 (the schedule is complete). On a well-formed input whose times fit, the scheduler loop ends;
  then every thread has received its whole burst, has finished no earlier than its arrival (and
  time 0) plus its burst, and no later than the last arrival plus the sum of all bursts, so nobody
  idles while there is work; the clamp of negative waiting times never acts, and the two totals of
  the report differ by exactly the sum of the bursts. No computation overflows: the clock, the
  remaining and the finish times after any number of rounds, the turnaround and waiting times and
  the running totals of the report are all \<open>int\<close> values.
\<close>

theorem rr_schedule_correct:
  assumes "input_ok inp" and "times_fit inp"
  shows "\<exists>s. rr_schedule inp (init_sched inp) = Some s \<and>
      (\<forall>p < in_threads inp. rr_rem s ! p = 0 \<and>
         max 0 (in_at inp ! p) + in_bt inp ! p \<le> rr_finish s ! p \<and>
         rr_finish s ! p \<le> last_arrival inp + sum_list (in_bt inp) \<and>
         waiting inp s p = turnaround inp s p - in_bt inp ! p \<and> 0 \<le> waiting inp s p \<and>
         int_ok (turnaround inp s p) \<and> int_ok (turnaround inp s p - in_bt inp ! p)) \<and>
      0 \<le> rr_now s \<and> rr_now s \<le> last_arrival inp + sum_list (in_bt inp) \<and>
      (case report inp s of (rows, total_tat, total_wt) \<Rightarrow>
         length rows = in_threads inp \<and> total_tat - total_wt = sum_list (in_bt inp)) \<and>
      (\<forall>k \<le> in_threads inp. case snd (report_loop inp s [0..<k] 0 0) of
         (total_tat, total_wt) \<Rightarrow> int_ok total_tat \<and> int_ok total_wt) \<and>
      (\<forall>d. \<exists>s'. rr_rounds d inp (init_sched inp) = Some s' \<and> sched_int inp s')"
proof -
  from rr_schedule_returns [OF init_sched_ok [OF assms(1)] assms(1)] obtain s where
    s: "rr_schedule inp (init_sched inp) = Some s" "rr_ok inp s" "rr_finished s = in_threads inp" by blast
  note t = thread_times [OF s(2) assms(1) s(3)]
  have now: "0 \<le> rr_now s \<and> rr_now s \<le> last_arrival inp + sum_list (in_bt inp)"
    using s(2) sum_rem_nonneg [OF s(2)] by (simp add: rr_ok_def)
  have w: "in_bt inp ! p \<le> turnaround inp s p" if "p < in_threads inp" for p
    using t(2) [OF that] by (simp add: turnaround_def)
  have len: "length (in_bt inp) = in_threads inp" using assms by (simp add: input_ok_def)
  have "map ((!) (in_bt inp)) [0..<in_threads inp] = in_bt inp" using len by (metis map_nth)
  then have "(\<Sum>p\<leftarrow>[0..<in_threads inp]. in_bt inp ! p) = sum_list (in_bt inp)" by simp
  then have rep: "case report inp s of (rows, total_tat, total_wt) \<Rightarrow>
         length rows = in_threads inp \<and> total_tat - total_wt = sum_list (in_bt inp)"
    using report_loop_totals [of "[0..<in_threads inp]" inp s 0 0] t
      report_loop_rows [of inp s "[0..<in_threads inp]" 0 0]
    by (auto simp: report_def split: prod.splits)
  have "\<exists>s'. rr_rounds d inp (init_sched inp) = Some s' \<and> sched_int inp s'" for d
    using rr_rounds_ok [OF init_sched_ok [OF assms(1)] assms(1), of d] sched_int_ok [OF _ assms] by blast
  with s t now w rep times_int [OF s(2) assms(1) s(3) assms(2)] report_int [OF s(2) assms(1) s(3) assms(2)]
  show ?thesis by (intro exI [of _ s]) simp
qed

theorem rr_schedule_correct_witness:
  "\<exists>s. rr_schedule \<lparr>in_threads = 2, in_q = 2, in_at = [0, 1], in_bt = [3, 2]\<rparr>
         (init_sched \<lparr>in_threads = 2, in_q = 2, in_at = [0, 1], in_bt = [3, 2]\<rparr>) = Some s \<and>
       rr_finish s ! 0 \<le> 6 \<and> 3 \<le> rr_finish s ! 1 \<and> int_ok (turnaround
         \<lparr>in_threads = 2, in_q = 2, in_at = [0, 1], in_bt = [3, 2]\<rparr> s 1)"
proof -
  let ?inp = "\<lparr>in_threads = 2, in_q = 2, in_at = [0, 1], in_bt = [3, 2]\<rparr>"
  have inp: "input_ok ?inp" by (simp add: input_ok_def)
  have last: "last_arrival ?inp = 1" by (simp add: last_arrival_def)
  have fit: "times_fit ?inp" by (simp add: times_fit_def last_finish_def last int_ok_def)
  obtain s where s: "rr_schedule ?inp (init_sched ?inp) = Some s"
    "\<forall>p < in_threads ?inp. max 0 (in_at ?inp ! p) + in_bt ?inp ! p \<le> rr_finish s ! p \<and>
       rr_finish s ! p \<le> last_arrival ?inp + sum_list (in_bt ?inp) \<and> int_ok (turnaround ?inp s p)"
    using rr_schedule_correct [OF inp fit] by blast
  have "0 < in_threads ?inp" "1 < in_threads ?inp" by simp_all
  with s(2) have "rr_finish s ! 0 \<le> 6" "3 \<le> rr_finish s ! 1" "int_ok (turnaround ?inp s 1)"
    unfolding last by fastforce+
  with s(1) show ?thesis by blast
qed

section \<open>Fairness\<close>

text \<open>The distance of a thread from the round-robin pointer.\<close>

definition turn_distance :: "nat \<Rightarrow> nat \<Rightarrow> nat \<Rightarrow> nat" where
  "turn_distance n k p = (if k \<le> p then p - k else p + n - k)"

lemma cyclic_from_turn:
  "k < n \<Longrightarrow> p < n \<Longrightarrow> cyclic_from n k ! turn_distance n k p = p \<and> turn_distance n k p < n"
  by (auto simp: cyclic_from_def turn_distance_def)

lemma turn_distance_mod: "k < n \<Longrightarrow> d < n \<Longrightarrow> turn_distance n k ((k + d) mod n) = d"
  by (auto simp: turn_distance_def mod_add_wrap)

text \<open>The search never passes a runnable thread.\<close>

lemma pick_before:
  assumes pick: "pick_spec inp s = (int j, j)" and k: "rr_i s < in_threads inp"
    and p: "p < in_threads inp" "runnable inp s p" and j: "j < in_threads inp"
  shows "turn_distance (in_threads inp) (rr_i s) j \<le> turn_distance (in_threads inp) (rr_i s) p"
proof (rule ccontr)
  let ?n = "in_threads inp" and ?c = "cyclic_from (in_threads inp) (rr_i s)"
  assume less: "\<not> ?thesis"
  have "find (runnable inp s) ?c = Some j"
    using pick by (auto simp: pick_spec_def split: option.splits)
  then obtain d where d: "d < length ?c" "?c ! d = j" "\<forall>e<d. \<not> runnable inp s (?c ! e)"
    by (auto simp: find_Some_iff)
  have "turn_distance ?n (rr_i s) j = d"
    using turn_distance_mod [OF k, of d] d by (auto simp: cyclic_from_def)
  with less have "turn_distance ?n (rr_i s) p < d" by simp
  with d(3) have "\<not> runnable inp s (?c ! turn_distance ?n (rr_i s) p)" by blast
  with cyclic_from_turn [OF k p(1)] p(2) show False by simp
qed

lemma turn_distance_step:
  assumes "k < n" "j < n" "p < n" "j \<noteq> p" "turn_distance n k j \<le> turn_distance n k p"
  shows "turn_distance n ((j + 1) mod n) p < turn_distance n k p"
  using assms by (auto simp: turn_distance_def mod_Suc split: if_splits)

lemma rr_fair_distance:
  assumes "rr_ok inp s" "input_ok inp" "p < in_threads inp" "runnable inp s p"
  shows "\<exists>d s'. d \<le> turn_distance (in_threads inp) (rr_i s) p \<and> rr_rounds d inp s = Some s' \<and>
      pick_loop inp s' (rr_i s') (rr_i s') = Some (int p, p) \<and> rr_rem s' ! p = rr_rem s ! p \<and>
      rr_now s' \<le> rr_now s + int d * in_q inp"
  using assms(1,4)
proof (induction "turn_distance (in_threads inp) (rr_i s) p" arbitrary: s rule: less_induct)
  case less
  have k: "rr_i s < in_threads inp" using less.prems(1) by (simp add: rr_ok_def)
  have "card {k. k < in_threads inp \<and> rr_rem s ! k = 0} < card {..<in_threads inp}"
  proof (rule psubset_card_mono)
    have "p \<notin> {k. k < in_threads inp \<and> rr_rem s ! k = 0}"
      using less.prems(2) by (simp add: runnable_def)
    with assms(3) show "{k. k < in_threads inp \<and> rr_rem s ! k = 0} \<subset> {..<in_threads inp}" by blast
  qed simp
  then have unf: "rr_finished s < in_threads inp" using less.prems(1) by (simp add: rr_ok_def)
  from less.prems(1) assms(2) unf show ?case
  proof (cases rule: rr_round_cases)
    case idle
    with assms(3) less.prems(2) show ?thesis by blast
  next
    case (slice j)
    show ?thesis
    proof (cases "j = p")
      case True
      with slice(1) show ?thesis by (intro exI [of _ 0] exI [of _ s]) simp
    next
      case False
      let ?g = "grant_of inp s j" and ?s' = "account inp j (grant_of inp s j) (consume j (grant_of inp s j) s)"
      have g: "0 < ?g" "?g \<le> rr_rem s ! j" "?g \<le> in_q inp"
        using grant_of_bounds [of inp s j] assms(2) slice(3) by (simp_all add: input_ok_def runnable_def)
      have ok': "rr_ok inp ?s'" using slice_ok [OF less.prems(1) assms(2) slice(2,3) g(1,2)] .
      have eff: "rr_now ?s' = rr_now s + ?g" "rr_i ?s' = (j + 1) mod in_threads inp" "rr_rem ?s' ! p = rr_rem s ! p"
        using False by (simp_all add: account_def consume_def Let_def)
      have run': "runnable inp ?s' p" using less.prems(2) eff g by (simp add: runnable_def)
      have spec: "pick_spec inp s = (int j, j)" using slice(1) pick_loop_spec [OF k] by simp
      have closer: "turn_distance (in_threads inp) (rr_i ?s') p < turn_distance (in_threads inp) (rr_i s) p"
        unfolding eff
        by (rule turn_distance_step [OF k slice(2) assms(3) False
              pick_before [OF spec k assms(3) less.prems(2) slice(2)]])
      from less.hyps [OF closer ok' run'] obtain d s' where
        ds: "d \<le> turn_distance (in_threads inp) (rr_i ?s') p" "rr_rounds d inp ?s' = Some s'"
          "pick_loop inp s' (rr_i s') (rr_i s') = Some (int p, p)" "rr_rem s' ! p = rr_rem ?s' ! p"
          "rr_now s' \<le> rr_now ?s' + int d * in_q inp" by blast
      have "rr_now s' \<le> rr_now s + int (Suc d) * in_q inp" using ds(5) eff(1) g(3) by (simp add: algebra_simps)
      with ds closer slice(4) eff show ?thesis by (intro exI [of _ "Suc d"] exI [of _ s']) simp
    qed
  qed
qed

text \<open>
  C24 (round-robin fairness). When the times of the input fit, a thread that has arrived and still
  has work is given the processor after at most \<open>threads - 1\<close> slices of other threads, that is,
  within \<open>(threads - 1) * q\<close> time units, whatever the others still have to do; until then its own
  remaining time is untouched, and the clock and the times of all threads stay \<open>int\<close> values.
\<close>

theorem rr_fair:
  assumes "rr_ok inp s" and "input_ok inp" and "times_fit inp" and "p < in_threads inp" and "runnable inp s p"
  shows "\<exists>d s'. d < in_threads inp \<and> rr_rounds d inp s = Some s' \<and>
      pick_loop inp s' (rr_i s') (rr_i s') = Some (int p, p) \<and> rr_rem s' ! p = rr_rem s ! p \<and>
      rr_now s' - rr_now s \<le> (int (in_threads inp) - 1) * in_q inp \<and>
      (\<forall>e \<le> d. \<exists>s''. rr_rounds e inp s = Some s'' \<and> sched_int inp s'')"
proof -
  from rr_fair_distance [OF assms(1,2,4,5)] obtain d s' where
    ds: "d \<le> turn_distance (in_threads inp) (rr_i s) p" "rr_rounds d inp s = Some s'"
      "pick_loop inp s' (rr_i s') (rr_i s') = Some (int p, p)" "rr_rem s' ! p = rr_rem s ! p"
      "rr_now s' \<le> rr_now s + int d * in_q inp" by blast
  have d: "d < in_threads inp"
    using ds(1) cyclic_from_turn [of "rr_i s" "in_threads inp" p] assms by (simp add: rr_ok_def)
  then have "int d * in_q inp \<le> (int (in_threads inp) - 1) * in_q inp"
    using assms(2) by (intro mult_right_mono) (auto simp: input_ok_def)
  moreover have "\<exists>s''. rr_rounds e inp s = Some s'' \<and> sched_int inp s''" for e
    using rr_rounds_ok [OF assms(1,2), of e] sched_int_ok [OF _ assms(2,3)] by blast
  ultimately show ?thesis using d ds by (intro exI [of _ d] exI [of _ s']) simp
qed

theorem rr_fair_witness:
  "\<exists>d s'. d < 3 \<and>
     rr_rounds d \<lparr>in_threads = 3, in_q = 2, in_at = [0, 0, 0], in_bt = [3, 4, 2]\<rparr>
       (init_sched \<lparr>in_threads = 3, in_q = 2, in_at = [0, 0, 0], in_bt = [3, 4, 2]\<rparr>) = Some s' \<and>
     rr_rem s' ! 2 = 2 \<and> rr_now s' \<le> 4"
proof -
  let ?inp = "\<lparr>in_threads = 3, in_q = 2, in_at = [0, 0, 0], in_bt = [3, 4, 2]\<rparr>"
  have inp: "input_ok ?inp" by (simp add: input_ok_def)
  have fit: "times_fit ?inp" by (simp add: times_fit_def last_finish_def last_arrival_def int_ok_def)
  have run: "runnable ?inp (init_sched ?inp) 2" by (simp add: runnable_def init_sched_def)
  from rr_fair [OF init_sched_ok [OF inp] inp fit _ run] show ?thesis
    by (auto simp: init_sched_def)
qed

text \<open>The bound is needed: the clock of the model leaves the range of \<open>int\<close> on an accepted input.\<close>

lemma accepted_overflow:
  fixes inp :: Input
  defines "inp \<equiv> \<lparr>in_threads = 1, in_q = 1, in_at = [2147483647], in_bt = [1]\<rparr>"
  shows "input_ok inp" "\<exists>s. rr_schedule inp (init_sched inp) = Some s \<and> \<not> int_ok (rr_now s)"
proof -
  show inp: "input_ok inp" by (simp add: inp_def input_ok_def)
  from rr_schedule_returns [OF init_sched_ok [OF inp] inp] obtain s where
    s: "rr_schedule inp (init_sched inp) = Some s" "rr_ok inp s" "rr_finished s = in_threads inp" by blast
  have "max 0 (in_at inp ! 0) + in_bt inp ! 0 \<le> rr_finish s ! 0"
    using thread_times(2) [OF s(2) inp s(3), of 0] by (simp add: inp_def)
  moreover have "rr_finish s ! 0 \<le> rr_now s"
    using s(2) thread_times(1) [OF s(2) inp s(3), of 0] by (auto simp: rr_ok_def thread_ok_def inp_def)
  ultimately show "\<exists>s. rr_schedule inp (init_sched inp) = Some s \<and> \<not> int_ok (rr_now s)"
    using s(1) by (intro exI [of _ s]) (simp add: inp_def int_ok_def)
qed

end
