(* ===== verification/RoundRobinThreads.thy ===== *)
theory RoundRobinThreads
  imports RoundRobin Transition
begin

text \<open>
  The threads of \<open>assignments/a2/scheduling_rr/main.c\<close>: the main thread, which creates the
  workers and runs the scheduler loop, and one worker \<open>rr_thread\<close> per simulated thread. They
  share the variables of \<open>main\<close> under the mutex \<open>mtx\<close> and wait on the condition variables
  \<open>cv_turn\<close> (workers) and \<open>cv_done\<close> (main thread).

  A step is the code of one thread between two synchronisation operations; all shared variables
  are accessed with the mutex held, so a finer interleaving has no further behaviours. A thread
  that waits on a condition variable has released the mutex; a signal or broadcast moves it to a
  \<open>Woken\<close> program point, from which it goes on once it has the mutex again. A wait may also end
  without a signal, as POSIX allows: those steps are the environment's.
\<close>

section \<open>State\<close>

datatype tid = Sched | Worker nat

datatype sched_pc = S_Create nat | S_Started | S_Pick | S_Slice | S_Slice_Wait | S_Slice_Woken
  | S_Join nat | S_Done | S_Failed

datatype worker_pc = W_Start | W_Check | W_Start_Wait | W_Start_Woken | W_Loop | W_Turn_Wait
  | W_Turn_Woken | W_Work int | W_Commit int | W_Done

record rr = sched +
  rr_mtx :: "tid option"
  rr_turn_id :: int
  rr_grant :: int
  rr_consumed :: int
  rr_slice_done :: bool
  rr_all_started :: bool
  rr_stop :: bool
  rr_picked :: nat
  rr_spc :: sched_pc
  rr_wpc :: "worker_pc list"

definition init_rr :: "Input \<Rightarrow> rr" where
  "init_rr inp =
     \<lparr>rr_rem = in_bt inp, rr_finish = replicate (in_threads inp) (- 1), rr_now = 0, rr_finished = 0, rr_i = 0,
      rr_mtx = None, rr_turn_id = - 1, rr_grant = 0, rr_consumed = 0, rr_slice_done = False,
      rr_all_started = False, rr_stop = False, rr_picked = 0, rr_spc = S_Create 0, rr_wpc = []\<rparr>"

section \<open>Steps\<close>

fun wake :: "worker_pc \<Rightarrow> worker_pc" where
  "wake W_Start_Wait = W_Start_Woken"
| "wake W_Turn_Wait = W_Turn_Woken"
| "wake pc = pc"

definition broadcast_turn :: "rr \<Rightarrow> rr" where
  "broadcast_turn s = s\<lparr>rr_wpc := map wake (rr_wpc s)\<rparr>"

definition signal_done :: "rr \<Rightarrow> rr" where
  "signal_done s = (if rr_spc s = S_Slice_Wait then s\<lparr>rr_spc := S_Slice_Woken\<rparr> else s)"

definition sched_lock :: "sched_pc \<Rightarrow> rr \<Rightarrow> rr option" where
  "sched_lock pc s = (if rr_mtx s = None then Some (s\<lparr>rr_mtx := Some Sched, rr_spc := pc\<rparr>) else None)"

definition worker_goto :: "nat \<Rightarrow> worker_pc \<Rightarrow> rr \<Rightarrow> rr" where
  "worker_goto k pc s = s\<lparr>rr_wpc := (rr_wpc s)[k := pc]\<rparr>"

definition worker_lock :: "nat \<Rightarrow> worker_pc \<Rightarrow> rr \<Rightarrow> rr option" where
  "worker_lock k pc s =
     (if rr_mtx s = None then Some (worker_goto k pc (s\<lparr>rr_mtx := Some (Worker k)\<rparr>)) else None)"

definition worker_unlock :: "nat \<Rightarrow> worker_pc \<Rightarrow> rr \<Rightarrow> rr" where
  "worker_unlock k pc s = worker_goto k pc (s\<lparr>rr_mtx := None\<rparr>)"

definition sched_step :: "(nat \<Rightarrow> bool) \<Rightarrow> Input \<Rightarrow> rr \<Rightarrow> rr option" where
  "sched_step create_ok inp s =
     (case rr_spc s of
        S_Create k \<Rightarrow>
          if k < in_threads inp then
            if create_ok k then Some (s\<lparr>rr_wpc := rr_wpc s @ [W_Start], rr_spc := S_Create (k + 1)\<rparr>)
            else Some (s\<lparr>rr_spc := S_Failed\<rparr>)
          else sched_lock S_Started s
      | S_Started \<Rightarrow> Some (broadcast_turn (s\<lparr>rr_all_started := True, rr_spc := S_Pick\<rparr>))
      | S_Pick \<Rightarrow>
          if rr_finished s < in_threads inp then
            (case pick_loop inp s (rr_i s) (rr_i s) of
               None \<Rightarrow> None
             | Some (picked, j) \<Rightarrow>
                 let s1 = s\<lparr>rr_i := j\<rparr> in
                 if picked = - 1 then Some (jump_time inp s1)
                 else Some (broadcast_turn (s1\<lparr>rr_turn_id := picked, rr_picked := nat picked,
                         rr_grant := grant_of inp s1 (nat picked), rr_slice_done := False, rr_spc := S_Slice\<rparr>)))
          else Some ((broadcast_turn (s\<lparr>rr_stop := True\<rparr>))\<lparr>rr_mtx := None, rr_spc := S_Join 0\<rparr>)
      | S_Slice \<Rightarrow>
          if rr_slice_done s then Some ((account inp (rr_picked s) (rr_consumed s) s)\<lparr>rr_spc := S_Pick\<rparr>)
          else Some (s\<lparr>rr_mtx := None, rr_spc := S_Slice_Wait\<rparr>)
      | S_Slice_Wait \<Rightarrow> None
      | S_Slice_Woken \<Rightarrow> sched_lock S_Slice s
      | S_Join k \<Rightarrow>
          if k < in_threads inp then
            if rr_wpc s ! k = W_Done then Some (s\<lparr>rr_spc := S_Join (k + 1)\<rparr>) else None
          else Some (s\<lparr>rr_spc := S_Done\<rparr>)
      | S_Done \<Rightarrow> None
      | S_Failed \<Rightarrow> None)"

definition worker_slice :: "nat \<Rightarrow> rr \<Rightarrow> int" where
  "worker_slice k s =
     (let sl = rr_grant s; sl = (if sl \<le> 0 then 1 else sl) in if rr_rem s ! k < sl then rr_rem s ! k else sl)"

definition worker_step :: "nat \<Rightarrow> rr \<Rightarrow> rr option" where
  "worker_step k s =
     (if length (rr_wpc s) \<le> k \<or> rr_spc s = S_Failed then None
      else case rr_wpc s ! k of
        W_Start \<Rightarrow> worker_lock k W_Check s
      | W_Check \<Rightarrow>
          Some (if rr_all_started s then worker_goto k W_Loop s else worker_unlock k W_Start_Wait s)
      | W_Start_Wait \<Rightarrow> None
      | W_Start_Woken \<Rightarrow> worker_lock k W_Check s
      | W_Loop \<Rightarrow>
          Some (if \<not> rr_stop s \<and> rr_turn_id s \<noteq> int k then worker_unlock k W_Turn_Wait s
                else if rr_stop s then worker_unlock k W_Done s
                else if rr_rem s ! k \<le> 0 then
                  signal_done (s\<lparr>rr_consumed := 0, rr_turn_id := - 1, rr_slice_done := True\<rparr>)
                else worker_unlock k (W_Work (worker_slice k s)) s)
      | W_Turn_Wait \<Rightarrow> None
      | W_Turn_Woken \<Rightarrow> worker_lock k W_Loop s
      | W_Work sl \<Rightarrow> worker_lock k (W_Commit sl) s
      | W_Commit sl \<Rightarrow>
          Some (worker_goto k W_Loop (signal_done ((consume k sl s)
                  \<lparr>rr_consumed := sl, rr_turn_id := - 1, rr_slice_done := True\<rparr>)))
      | W_Done \<Rightarrow> None)"

text \<open>One step of the program; a wait that ends without a signal.\<close>

inductive rr_step :: "(nat \<Rightarrow> bool) \<Rightarrow> Input \<Rightarrow> rr \<Rightarrow> rr \<Rightarrow> bool" for create_ok inp where
  by_sched: "sched_step create_ok inp s = Some s' \<Longrightarrow> rr_step create_ok inp s s'"
| by_worker: "worker_step k s = Some s' \<Longrightarrow> rr_step create_ok inp s s'"

inductive spurious :: "rr \<Rightarrow> rr \<Rightarrow> bool" where
  spurious_sched: "rr_spc s = S_Slice_Wait \<Longrightarrow> spurious s (s\<lparr>rr_spc := S_Slice_Woken\<rparr>)"
| spurious_worker: "k < length (rr_wpc s) \<Longrightarrow> rr_wpc s ! k \<in> {W_Start_Wait, W_Turn_Wait} \<Longrightarrow>
    rr_spc s \<noteq> S_Failed \<Longrightarrow> spurious s (worker_goto k (wake (rr_wpc s ! k)) s)"

inductive_cases rr_stepE: "rr_step create_ok inp s s'"

definition rr_final :: "rr \<Rightarrow> bool" where
  "rr_final s \<longleftrightarrow> rr_spc s = S_Done \<or> rr_spc s = S_Failed"

abbreviation rr_reachable :: "(nat \<Rightarrow> bool) \<Rightarrow> Input \<Rightarrow> rr \<Rightarrow> bool" where
  "rr_reachable create_ok inp \<equiv> reachable (\<lambda>s. s = init_rr inp) (rr_step create_ok inp) spurious"

section \<open>Invariant\<close>

text \<open>The scheduling state alone, and what the sequential scheduler makes of it.\<close>

definition core :: "'a sched_scheme \<Rightarrow> sched" where
  "core s = \<lparr>rr_rem = rr_rem s, rr_finish = rr_finish s, rr_now = rr_now s,
      rr_finished = rr_finished s, rr_i = rr_i s\<rparr>"

definition on_course :: "Input \<Rightarrow> sched \<Rightarrow> bool" where
  "on_course inp c \<longleftrightarrow> rr_ok inp c \<and> rr_schedule inp c = rr_schedule inp (init_sched inp)"

text \<open>Who holds the mutex.\<close>

fun w_holds :: "worker_pc \<Rightarrow> bool" where
  "w_holds W_Check = True"
| "w_holds W_Loop = True"
| "w_holds (W_Commit sl) = True"
| "w_holds pc = False"

definition mutex_ok :: "rr \<Rightarrow> bool" where
  "mutex_ok s \<longleftrightarrow>
     (rr_mtx s = Some Sched \<longleftrightarrow> rr_spc s \<in> {S_Started, S_Pick, S_Slice}) \<and>
     (\<forall>k. rr_mtx s = Some (Worker k) \<longrightarrow> k < length (rr_wpc s)) \<and>
     (\<forall>k < length (rr_wpc s). w_holds (rr_wpc s ! k) \<longleftrightarrow> rr_mtx s = Some (Worker k))"

text \<open>Where a worker may be; in particular nobody sleeps through its own turn or the end.\<close>

fun worker_ok :: "rr \<Rightarrow> nat \<Rightarrow> worker_pc \<Rightarrow> bool" where
  "worker_ok s k W_Start_Wait = (\<not> rr_all_started s)"
| "worker_ok s k W_Loop = rr_all_started s"
| "worker_ok s k W_Turn_Woken = rr_all_started s"
| "worker_ok s k W_Turn_Wait = (rr_all_started s \<and> \<not> rr_stop s \<and> rr_turn_id s \<noteq> int k)"
| "worker_ok s k (W_Work sl) =
     (rr_all_started s \<and> \<not> rr_stop s \<and> rr_turn_id s = int k \<and> sl = rr_grant s)"
| "worker_ok s k (W_Commit sl) =
     (rr_all_started s \<and> \<not> rr_stop s \<and> rr_turn_id s = int k \<and> sl = rr_grant s)"
| "worker_ok s k W_Done = rr_stop s"
| "worker_ok s k pc = True"

text \<open>What the main thread knows at each of its program points.\<close>

definition granted :: "Input \<Rightarrow> rr \<Rightarrow> bool" where
  "granted inp s \<longleftrightarrow>
     rr_picked s < in_threads inp \<and> rr_turn_id s = int (rr_picked s) \<and>
     runnable inp (core s) (rr_picked s) \<and> rr_grant s = grant_of inp (core s) (rr_picked s) \<and>
     length (rr_rem s) = in_threads inp \<and> rr_ok inp (core s) \<and>
     on_course inp (account inp (rr_picked s) (rr_grant s) (consume (rr_picked s) (rr_grant s) (core s)))"

definition collected :: "Input \<Rightarrow> rr \<Rightarrow> bool" where
  "collected inp s \<longleftrightarrow> rr_turn_id s = - 1 \<and> 0 \<le> sum_list (rr_rem s) \<and>
     on_course inp (account inp (rr_picked s) (rr_consumed s) (core s))"

fun sched_ok :: "Input \<Rightarrow> rr \<Rightarrow> sched_pc \<Rightarrow> bool" where
  "sched_ok inp s (S_Create k) \<longleftrightarrow> k \<le> in_threads inp \<and> length (rr_wpc s) = k \<and>
     \<not> rr_all_started s \<and> \<not> rr_stop s \<and> rr_turn_id s = - 1 \<and> on_course inp (core s)"
| "sched_ok inp s S_Started \<longleftrightarrow> length (rr_wpc s) = in_threads inp \<and>
     \<not> rr_all_started s \<and> \<not> rr_stop s \<and> rr_turn_id s = - 1 \<and> on_course inp (core s)"
| "sched_ok inp s S_Pick \<longleftrightarrow> length (rr_wpc s) = in_threads inp \<and>
     rr_all_started s \<and> \<not> rr_stop s \<and> rr_turn_id s = - 1 \<and> on_course inp (core s)"
| "sched_ok inp s S_Slice \<longleftrightarrow> length (rr_wpc s) = in_threads inp \<and>
     rr_all_started s \<and> \<not> rr_stop s \<and> (if rr_slice_done s then collected inp s else granted inp s)"
| "sched_ok inp s S_Slice_Woken \<longleftrightarrow> length (rr_wpc s) = in_threads inp \<and>
     rr_all_started s \<and> \<not> rr_stop s \<and> (if rr_slice_done s then collected inp s else granted inp s)"
| "sched_ok inp s S_Slice_Wait \<longleftrightarrow> length (rr_wpc s) = in_threads inp \<and>
     rr_all_started s \<and> \<not> rr_stop s \<and> \<not> rr_slice_done s \<and> granted inp s"
| "sched_ok inp s (S_Join k) \<longleftrightarrow> length (rr_wpc s) = in_threads inp \<and> k \<le> in_threads inp \<and>
     rr_all_started s \<and> rr_stop s \<and> rr_turn_id s = - 1 \<and> on_course inp (core s) \<and>
     rr_finished s = in_threads inp \<and> (\<forall>j<k. rr_wpc s ! j = W_Done)"
| "sched_ok inp s S_Done \<longleftrightarrow> length (rr_wpc s) = in_threads inp \<and>
     rr_all_started s \<and> rr_stop s \<and> rr_turn_id s = - 1 \<and> on_course inp (core s) \<and>
     rr_finished s = in_threads inp \<and> (\<forall>j<in_threads inp. rr_wpc s ! j = W_Done)"
| "sched_ok inp s S_Failed \<longleftrightarrow> True"

definition workers_ok :: "rr \<Rightarrow> bool" where
  "workers_ok s \<longleftrightarrow> (\<forall>k < length (rr_wpc s). worker_ok s k (rr_wpc s ! k))"

definition rr_inv :: "Input \<Rightarrow> rr \<Rightarrow> bool" where
  "rr_inv inp s \<longleftrightarrow> rr_spc s = S_Failed \<or>
     mutex_ok s \<and> workers_ok s \<and> sched_ok inp s (rr_spc s)"

subsection \<open>The scheduling state under the other fields\<close>

lemma core_simps [simp]:
  "core (s\<lparr>rr_mtx := a\<rparr>) = core s" "core (s\<lparr>rr_turn_id := b\<rparr>) = core s"
  "core (s\<lparr>rr_grant := c\<rparr>) = core s" "core (s\<lparr>rr_consumed := d\<rparr>) = core s"
  "core (s\<lparr>rr_slice_done := e\<rparr>) = core s" "core (s\<lparr>rr_all_started := f\<rparr>) = core s"
  "core (s\<lparr>rr_stop := g\<rparr>) = core s" "core (s\<lparr>rr_picked := h\<rparr>) = core s"
  "core (s\<lparr>rr_spc := pc\<rparr>) = core s" "core (s\<lparr>rr_wpc := ws\<rparr>) = core s"
  by (simp_all add: core_def)

lemma core_fields [simp]:
  "rr_rem (core s) = rr_rem s" "rr_finish (core s) = rr_finish s" "rr_now (core s) = rr_now s"
  "rr_finished (core s) = rr_finished s" "rr_i (core s) = rr_i s"
  by (simp_all add: core_def)

lemma core_ops [simp]:
  "core (account inp p g s) = account inp p g (core s)"
  "core (consume p g s) = consume p g (core s)"
  "core (jump_time inp s) = jump_time inp (core s)"
  by (simp_all add: core_def account_def consume_def jump_time_def next_arrival_def Let_def)

lemma core_reads: "runnable inp (core s) = runnable inp s" "grant_of inp (core s) = grant_of inp s"
  by (simp_all add: runnable_def grant_of_def fun_eq_iff)

lemma pick_loop_core:
  assumes "rr_i s < in_threads inp"
  shows "pick_loop inp s (rr_i s) (rr_i s) = pick_loop inp (core s) (rr_i s) (rr_i s)"
  using assms pick_loop_spec [of s inp] pick_loop_spec [of "core s" inp]
  by (simp add: pick_spec_def core_reads split: option.split)

lemma thread_fields [simp]:
  "rr_mtx (account inp p g s) = rr_mtx s" "rr_wpc (account inp p g s) = rr_wpc s"
  "rr_turn_id (account inp p g s) = rr_turn_id s" "rr_all_started (account inp p g s) = rr_all_started s"
  "rr_stop (account inp p g s) = rr_stop s" "rr_grant (account inp p g s) = rr_grant s"
  "rr_rem (account inp p g t) = rr_rem t"
  "rr_mtx (consume p g s) = rr_mtx s" "rr_wpc (consume p g s) = rr_wpc s" "rr_spc (consume p g s) = rr_spc s"
  "rr_turn_id (consume p g s) = rr_turn_id s" "rr_all_started (consume p g s) = rr_all_started s"
  "rr_stop (consume p g s) = rr_stop s" "rr_grant (consume p g s) = rr_grant s" "rr_picked (consume p g s) = rr_picked s"
  "rr_mtx (jump_time inp s) = rr_mtx s" "rr_wpc (jump_time inp s) = rr_wpc s" "rr_spc (jump_time inp s) = rr_spc s"
  "rr_turn_id (jump_time inp s) = rr_turn_id s" "rr_all_started (jump_time inp s) = rr_all_started s"
  "rr_stop (jump_time inp s) = rr_stop s" "rr_grant (jump_time inp s) = rr_grant s" "rr_rem (jump_time inp t) = rr_rem t"
  by (simp_all add: account_def consume_def jump_time_def Let_def)

lemma slice_simps [simp]:
  "granted inp (s\<lparr>rr_mtx := a\<rparr>) = granted inp s" "granted inp (s\<lparr>rr_spc := pc\<rparr>) = granted inp s"
  "granted inp (s\<lparr>rr_wpc := ws\<rparr>) = granted inp s"
  "collected inp (s\<lparr>rr_mtx := a\<rparr>) = collected inp s" "collected inp (s\<lparr>rr_spc := pc\<rparr>) = collected inp s"
  "collected inp (s\<lparr>rr_wpc := ws\<rparr>) = collected inp s"
  by (simp_all add: granted_def collected_def)

lemma worker_ok_cong:
  assumes "rr_all_started s = rr_all_started s'" "rr_stop s = rr_stop s'"
    "rr_turn_id s = rr_turn_id s'" "rr_grant s = rr_grant s'"
  shows "worker_ok s k pc = worker_ok s' k pc"
  using assms by (cases pc) auto

lemma worker_ok_simps [simp]:
  "worker_ok (s\<lparr>rr_mtx := a\<rparr>) = worker_ok s" "worker_ok (s\<lparr>rr_consumed := d\<rparr>) = worker_ok s"
  "worker_ok (s\<lparr>rr_slice_done := e\<rparr>) = worker_ok s" "worker_ok (s\<lparr>rr_picked := h\<rparr>) = worker_ok s"
  "worker_ok (s\<lparr>rr_spc := p\<rparr>) = worker_ok s" "worker_ok (s\<lparr>rr_wpc := ws\<rparr>) = worker_ok s"
  "worker_ok (s\<lparr>rr_i := j\<rparr>) = worker_ok s"
  "worker_ok (account inp t g s) = worker_ok s" "worker_ok (consume t g s) = worker_ok s"
  "worker_ok (jump_time inp s) = worker_ok s"
  by (intro ext worker_ok_cong; simp)+

lemma w_holds_wake [simp]: "w_holds (wake pc) = w_holds pc"
  by (cases pc) auto

section \<open>The main thread keeps the invariant\<close>

lemma on_course_slice:
  assumes "on_course inp c" "input_ok inp" "rr_finished c < in_threads inp"
    and "pick_loop inp c (rr_i c) (rr_i c) = Some (int p, p)" "p < in_threads inp" "runnable inp c p"
  shows "on_course inp (account inp p (grant_of inp c p) (consume p (grant_of inp c p) c))"
proof -
  let ?g = "grant_of inp c p" and ?c' = "account inp p (grant_of inp c p) (consume p (grant_of inp c p) c)"
  have g: "0 < ?g" "?g \<le> rr_rem c ! p"
    using grant_of_bounds [of inp c p] assms(2,6) by (simp_all add: input_ok_def runnable_def)
  have "rr_ok inp ?c'" using assms g by (intro slice_ok) (simp_all add: on_course_def)
  moreover have "account inp p ?g (consume p ?g (c\<lparr>rr_i := p\<rparr>)) = ?c'"
    by (simp add: account_def consume_def Let_def)
  then have "rr_schedule inp c = rr_schedule inp ?c'"
    using assms(3,4) by (subst rr_schedule.simps) (simp add: rr_round_def Let_def)
  ultimately show ?thesis using assms(1) by (simp add: on_course_def)
qed

lemma on_course_jump:
  assumes "on_course inp c" "input_ok inp" "rr_finished c < in_threads inp"
    and "pick_loop inp c (rr_i c) (rr_i c) = Some (- 1, rr_i c)" "\<forall>p < in_threads inp. \<not> runnable inp c p"
  shows "on_course inp (jump_time inp c)"
proof -
  have "rr_ok inp (jump_time inp c)" using assms by (intro jump_time_ok) (simp_all add: on_course_def)
  moreover have "rr_schedule inp c = rr_schedule inp (jump_time inp c)"
    using assms(3,4) by (subst rr_schedule.simps) (simp add: rr_round_def)
  ultimately show ?thesis using assms(1) by (simp add: on_course_def)
qed

lemma workers_ok_broadcast:
  assumes "workers_ok s" "rr_all_started s'" "rr_wpc s' = map wake (rr_wpc s)"
    and "rr_stop s \<longrightarrow> rr_stop s'" and "rr_turn_id s = - 1"
  shows "workers_ok s'"
  unfolding workers_ok_def
proof (intro allI impI)
  fix k assume k: "k < length (rr_wpc s')"
  with assms(1,3) have "worker_ok s k (rr_wpc s ! k)" by (simp add: workers_ok_def)
  with assms k show "worker_ok s' k (rr_wpc s' ! k)"
    by (cases "rr_wpc s ! k") auto
qed

lemma mutex_ok_broadcast:
  "mutex_ok s \<Longrightarrow> rr_wpc s' = map wake (rr_wpc s) \<Longrightarrow> rr_mtx s' = rr_mtx s \<Longrightarrow>
     (rr_spc s' \<in> {S_Started, S_Pick, S_Slice}) = (rr_spc s \<in> {S_Started, S_Pick, S_Slice}) \<Longrightarrow> mutex_ok s'"
  by (simp add: mutex_ok_def)

lemma sched_create_inv:
  assumes "rr_inv inp s" "rr_spc s = S_Create k" "sched_step create_ok inp s = Some s'"
  shows "rr_inv inp s'"
  using assms
  by (auto simp: rr_inv_def sched_step_def sched_lock_def mutex_ok_def workers_ok_def
      nth_append less_Suc_eq split: if_splits)

lemma sched_started_inv:
  assumes "rr_inv inp s" "rr_spc s = S_Started" "sched_step create_ok inp s = Some s'"
  shows "rr_inv inp s'"
proof -
  have s': "s' = broadcast_turn (s\<lparr>rr_all_started := True, rr_spc := S_Pick\<rparr>)"
    using assms by (simp add: sched_step_def)
  have wk: "workers_ok s" and mx: "mutex_ok s" and ok: "sched_ok inp s S_Started"
    using assms by (auto simp: rr_inv_def)
  have "workers_ok s'"
    using ok by (intro workers_ok_broadcast [OF wk]) (auto simp: s' broadcast_turn_def)
  moreover have "mutex_ok s'"
    using assms(2) by (intro mutex_ok_broadcast [OF mx]) (auto simp: s' broadcast_turn_def)
  ultimately show ?thesis using ok by (simp add: rr_inv_def s' broadcast_turn_def)
qed

lemma sched_pick_inv:
  assumes "rr_inv inp s" "input_ok inp" "rr_spc s = S_Pick" "sched_step create_ok inp s = Some s'"
  shows "rr_inv inp s'"
proof -
  have wk: "workers_ok s" and mx: "mutex_ok s" and ok: "sched_ok inp s S_Pick"
    using assms(1,3) by (auto simp: rr_inv_def)
  have gd: "on_course inp (core s)" and i: "rr_i s < in_threads inp" and ok0: "rr_ok inp (core s)"
    using ok by (auto simp: on_course_def rr_ok_def)
  show ?thesis
  proof (cases "rr_finished s < in_threads inp")
    case False
    have "card {k. k < in_threads inp \<and> rr_rem s ! k = 0} \<le> card {..<in_threads inp}"
      by (rule card_mono) auto
    with False ok0 have fin: "rr_finished s = in_threads inp" by (simp add: rr_ok_def)
    have s': "s' = (broadcast_turn (s\<lparr>rr_stop := True\<rparr>))\<lparr>rr_mtx := None, rr_spc := S_Join 0\<rparr>"
      using assms(3,4) False by (simp add: sched_step_def)
    have "workers_ok s'"
      using wk ok by (intro workers_ok_broadcast [OF wk]) (auto simp: s' broadcast_turn_def)
    moreover have "mutex_ok s'"
      using mx assms(3) by (simp add: mutex_ok_def s' broadcast_turn_def)
    ultimately show ?thesis using ok fin by (simp add: rr_inv_def s' broadcast_turn_def)
  next
    case True
    then have True': "rr_finished (core s) < in_threads inp" by simp
    from ok0 assms(2) True' show ?thesis
    proof (cases rule: rr_round_cases)
      case idle
      then have "on_course inp (jump_time inp (core s))" using on_course_jump [OF gd assms(2) True'] by simp
      moreover have "s' = jump_time inp s"
        using assms(3,4) True idle pick_loop_core [OF i] by (simp add: sched_step_def)
      ultimately show ?thesis using wk mx ok assms(3)
        by (auto simp: rr_inv_def workers_ok_def mutex_ok_def)
    next
      case (slice p)
      let ?s1 = "s\<lparr>rr_i := p\<rparr>"
      have "s' = broadcast_turn (?s1\<lparr>rr_turn_id := int p, rr_picked := p, rr_grant := grant_of inp ?s1 p,
               rr_slice_done := False, rr_spc := S_Slice\<rparr>)"
        using assms(3,4) True slice pick_loop_core [OF i] by (simp add: sched_step_def Let_def)
      moreover have "grant_of inp ?s1 p = grant_of inp (core s) p" by (simp add: grant_of_def)
      ultimately have s': "s' = broadcast_turn (?s1\<lparr>rr_turn_id := int p, rr_picked := p,
          rr_grant := grant_of inp (core s) p, rr_slice_done := False, rr_spc := S_Slice\<rparr>)" by simp
      have c: "core ?s1 = (core s)\<lparr>rr_i := p\<rparr>" by (simp add: core_def)
      have "account inp p g (consume p g ((core s)\<lparr>rr_i := p\<rparr>)) = account inp p g (consume p g (core s))" for g
        by (simp add: account_def consume_def Let_def)
      moreover have "on_course inp (account inp p (grant_of inp (core s) p) (consume p (grant_of inp (core s) p) (core s)))"
        using on_course_slice [OF gd assms(2) True'] slice by simp
      moreover have "rr_ok inp ((core s)\<lparr>rr_i := p\<rparr>)" "runnable inp ((core s)\<lparr>rr_i := p\<rparr>) p"
        "grant_of inp ((core s)\<lparr>rr_i := p\<rparr>) p = grant_of inp (core s) p"
        using ok0 slice by (auto simp: rr_ok_def thread_ok_def runnable_def grant_of_def)
      ultimately have "granted inp s'"
        using slice(2) ok0 by (simp add: granted_def s' broadcast_turn_def c rr_ok_def)
      moreover have "workers_ok s'"
        using ok by (intro workers_ok_broadcast [OF wk]) (auto simp: s' broadcast_turn_def)
      moreover have "mutex_ok s'"
        using assms(3) by (intro mutex_ok_broadcast [OF mx]) (auto simp: s' broadcast_turn_def)
      ultimately show ?thesis using ok by (simp add: rr_inv_def s' broadcast_turn_def)
    qed
  qed
qed

lemma sched_slice_inv:
  assumes "rr_inv inp s" "rr_spc s = S_Slice" "sched_step create_ok inp s = Some s'"
  shows "rr_inv inp s'"
proof -
  have wk: "workers_ok s" and mx: "mutex_ok s" and ok: "sched_ok inp s S_Slice"
    using assms(1,2) by (auto simp: rr_inv_def)
  show ?thesis
  proof (cases "rr_slice_done s")
    case True
    then have "s' = (account inp (rr_picked s) (rr_consumed s) s)\<lparr>rr_spc := S_Pick\<rparr>"
      using assms(2,3) by (simp add: sched_step_def)
    with True wk mx ok assms(2) show ?thesis
      by (simp add: rr_inv_def workers_ok_def mutex_ok_def collected_def)
  next
    case False
    then have s': "s' = s\<lparr>rr_mtx := None, rr_spc := S_Slice_Wait\<rparr>"
      using assms(2,3) by (simp add: sched_step_def)
    have "mutex_ok s'" using mx assms(2) by (auto simp: s' mutex_ok_def)
    with False wk ok show ?thesis
      by (simp add: rr_inv_def workers_ok_def s')
  qed
qed

lemma sched_woken_inv:
  assumes "rr_inv inp s" "rr_spc s = S_Slice_Woken" "sched_step create_ok inp s = Some s'"
  shows "rr_inv inp s'"
proof -
  have s': "s' = s\<lparr>rr_mtx := Some Sched, rr_spc := S_Slice\<rparr>" and free: "rr_mtx s = None"
    using assms(2,3) by (auto simp: sched_step_def sched_lock_def split: if_splits)
  have wk: "workers_ok s" and mx: "mutex_ok s" and ok: "sched_ok inp s S_Slice_Woken"
    using assms(1,2) by (auto simp: rr_inv_def)
  have "mutex_ok s'" using mx free by (simp add: s' mutex_ok_def)
  with wk ok show ?thesis by (simp add: rr_inv_def s' workers_ok_def)
qed

lemma sched_join_inv:
  assumes "rr_inv inp s" "rr_spc s = S_Join k" "sched_step create_ok inp s = Some s'"
  shows "rr_inv inp s'"
proof -
  have wk: "workers_ok s" and mx: "mutex_ok s" and ok: "sched_ok inp s (S_Join k)"
    using assms(1,2) by (auto simp: rr_inv_def)
  obtain pc where s': "s' = s\<lparr>rr_spc := pc\<rparr>" "pc = S_Done \<and> k = in_threads inp \<or>
      pc = S_Join (k + 1) \<and> k < in_threads inp \<and> rr_wpc s ! k = W_Done"
    using assms(2,3) ok by (auto simp: sched_step_def split: if_splits)
  have "mutex_ok s'" using mx assms(2) s' by (auto simp: mutex_ok_def)
  with wk ok s' show ?thesis by (auto simp: rr_inv_def workers_ok_def less_Suc_eq)
qed

lemma sched_step_inv:
  assumes "rr_inv inp s" "input_ok inp" "sched_step create_ok inp s = Some s'"
  shows "rr_inv inp s'"
proof (cases "rr_spc s")
  case (S_Create k) with assms show ?thesis by (blast intro: sched_create_inv)
next
  case S_Started with assms show ?thesis by (blast intro: sched_started_inv)
next
  case S_Pick with assms show ?thesis by (blast intro: sched_pick_inv)
next
  case S_Slice with assms show ?thesis by (blast intro: sched_slice_inv)
next
  case S_Slice_Woken with assms show ?thesis by (blast intro: sched_woken_inv)
next
  case (S_Join k) with assms show ?thesis by (blast intro: sched_join_inv)
qed (use assms in \<open>simp_all add: sched_step_def\<close>)

section \<open>The workers keep the invariant\<close>

lemma workers_okD: "workers_ok s \<Longrightarrow> k < length (rr_wpc s) \<Longrightarrow> rr_wpc s ! k = pc \<Longrightarrow> worker_ok s k pc"
  by (auto simp: workers_ok_def)

lemma workers_ok_goto:
  assumes "workers_ok s" "rr_wpc s' = (rr_wpc s)[k := pc]" "worker_ok s' k pc"
    and "\<And>j pc. j \<noteq> k \<Longrightarrow> worker_ok s j pc \<Longrightarrow> worker_ok s' j pc"
  shows "workers_ok s'"
  unfolding workers_ok_def
proof (intro allI impI)
  fix j assume j: "j < length (rr_wpc s')"
  show "worker_ok s' j (rr_wpc s' ! j)"
  proof (cases "j = k")
    case False
    then have "rr_wpc s' ! j = rr_wpc s ! j" using assms(2) by simp
    with False j assms show ?thesis by (simp add: workers_ok_def)
  qed (use assms j in simp)
qed

lemma mutex_okD:
  "mutex_ok s \<Longrightarrow> k < length (rr_wpc s) \<Longrightarrow> rr_wpc s ! k = pc \<Longrightarrow> w_holds pc \<Longrightarrow> rr_mtx s = Some (Worker k)"
  by (auto simp: mutex_ok_def)

lemma mutex_ok_lock:
  assumes "mutex_ok s" "k < length (rr_wpc s)" "rr_mtx s = None" "w_holds pc"
    and "rr_wpc s' = (rr_wpc s)[k := pc]" "rr_mtx s' = Some (Worker k)" "rr_spc s' = rr_spc s"
  shows "mutex_ok s'"
  using assms by (auto simp: mutex_ok_def nth_list_update)

lemma mutex_ok_move:
  assumes "mutex_ok s" "k < length (rr_wpc s)" "w_holds (rr_wpc s ! k)"
    and "rr_wpc s' = (rr_wpc s)[k := pc]" "rr_mtx s' = (if w_holds pc then rr_mtx s else None)"
    and "rr_spc s' = rr_spc s \<or> rr_spc s = S_Slice_Wait \<and> rr_spc s' = S_Slice_Woken"
  shows "mutex_ok s'"
proof -
  have m: "rr_mtx s = Some (Worker k)" using assms(1-3) by (simp add: mutex_ok_def)
  then have "rr_spc s \<notin> {S_Started, S_Pick, S_Slice}" using assms(1) by (auto simp: mutex_ok_def)
  with assms m show ?thesis by (auto simp: mutex_ok_def nth_list_update split: if_splits)
qed

lemma sched_ok_goto:
  assumes "sched_ok inp s pc" "rr_wpc s ! k \<noteq> W_Done"
    and "core s' = core s" "rr_wpc s' = (rr_wpc s)[k := w]" "rr_turn_id s' = rr_turn_id s"
    "rr_all_started s' = rr_all_started s" "rr_stop s' = rr_stop s" "rr_slice_done s' = rr_slice_done s"
    "rr_grant s' = rr_grant s" "rr_consumed s' = rr_consumed s" "rr_picked s' = rr_picked s"
  shows "sched_ok inp s' pc"
proof -
  have r: "rr_rem s' = rr_rem s" "rr_finished s' = rr_finished s" using assms(3) by (simp_all add: core_def)
  have "rr_wpc s' ! j = W_Done" if "rr_wpc s ! j = W_Done" for j
    using that assms(2,4) by (metis nth_list_update_neq)
  with assms r show ?thesis by (cases pc) (auto simp: granted_def collected_def)
qed

text \<open>The turn is given only during a slice that is not yet consumed.\<close>

lemma turn_granted:
  assumes "rr_inv inp s" "rr_spc s \<noteq> S_Failed" "rr_turn_id s = int k" "\<not> rr_stop s"
  shows "granted inp s" "rr_picked s = k" "\<not> rr_slice_done s"
    "rr_spc s \<in> {S_Slice, S_Slice_Wait, S_Slice_Woken}"
  using assms by (cases "rr_spc s"; auto simp: rr_inv_def granted_def collected_def split: if_splits)+

lemma granted_slice:
  assumes "granted inp s" "input_ok inp"
  shows "worker_slice (rr_picked s) s = rr_grant s" "0 < rr_grant s" "0 < rr_rem s ! rr_picked s"
    "rr_grant s \<le> rr_rem s ! rr_picked s"
proof -
  have r: "0 < rr_rem s ! rr_picked s" using assms(1) by (simp add: granted_def runnable_def)
  with assms grant_of_bounds [of inp "core s" "rr_picked s"]
  have "0 < rr_grant s" "rr_grant s \<le> rr_rem s ! rr_picked s" by (simp_all add: granted_def input_ok_def)
  with r show "worker_slice (rr_picked s) s = rr_grant s" "0 < rr_grant s" "0 < rr_rem s ! rr_picked s"
    "rr_grant s \<le> rr_rem s ! rr_picked s" by (simp_all add: worker_slice_def Let_def)
qed

lemma worker_lock_inv:
  assumes "rr_inv inp s" "rr_spc s \<noteq> S_Failed" "k < length (rr_wpc s)" "worker_lock k pc s = Some s'"
    and "w_holds pc" "worker_ok s k (rr_wpc s ! k) \<Longrightarrow> worker_ok s k pc" "rr_wpc s ! k \<noteq> W_Done"
  shows "rr_inv inp s'"
proof -
  have s': "s' = s\<lparr>rr_mtx := Some (Worker k), rr_wpc := (rr_wpc s)[k := pc]\<rparr>" and free: "rr_mtx s = None"
    using assms(4) by (auto simp: worker_lock_def worker_goto_def split: if_splits)
  have i: "mutex_ok s" "workers_ok s" "sched_ok inp s (rr_spc s)" using assms(1,2) by (auto simp: rr_inv_def)
  have "workers_ok s'" using assms i by (intro workers_ok_goto [OF i(2)]) (auto simp: s' workers_ok_def)
  moreover have "mutex_ok s'" by (rule mutex_ok_lock [OF i(1) assms(3) free assms(5)]) (simp_all add: s')
  moreover have "sched_ok inp s' (rr_spc s')"
    unfolding s' by (simp, rule sched_ok_goto [OF i(3) assms(7)]) simp_all
  ultimately show ?thesis by (simp add: rr_inv_def)
qed

lemma worker_move_inv:
  assumes "rr_inv inp s" "rr_spc s \<noteq> S_Failed" "k < length (rr_wpc s)" "w_holds (rr_wpc s ! k)"
    and "worker_ok s k pc" "s' = (if w_holds pc then worker_goto k pc s else worker_unlock k pc s)"
  shows "rr_inv inp s'"
proof -
  have i: "mutex_ok s" "workers_ok s" "sched_ok inp s (rr_spc s)" using assms(1,2) by (auto simp: rr_inv_def)
  have w: "rr_wpc s' = (rr_wpc s)[k := pc]" "rr_spc s' = rr_spc s" "rr_mtx s' = (if w_holds pc then rr_mtx s else None)"
    "worker_ok s' = worker_ok s"
    using assms(6) by (simp_all add: worker_goto_def worker_unlock_def)
  have "workers_ok s'" using assms(5) by (intro workers_ok_goto [OF i(2) w(1)]) (simp_all add: w)
  moreover have "mutex_ok s'" by (rule mutex_ok_move [OF i(1) assms(3,4) w(1,3)]) (simp add: w)
  moreover have "rr_wpc s ! k \<noteq> W_Done" using assms(4) by auto
  then have "sched_ok inp s' (rr_spc s')"
    unfolding w(2) by (rule sched_ok_goto [OF i(3)])
      (use assms(6) in \<open>simp_all add: worker_goto_def worker_unlock_def\<close>)
  ultimately show ?thesis by (simp add: rr_inv_def)
qed

lemma worker_commit_inv:
  assumes "rr_inv inp s" "rr_spc s \<noteq> S_Failed" "k < length (rr_wpc s)" "rr_wpc s ! k = W_Commit sl"
    and "s' = worker_goto k W_Loop (signal_done ((consume k sl s)
                  \<lparr>rr_consumed := sl, rr_turn_id := - 1, rr_slice_done := True\<rparr>))"
  shows "rr_inv inp s'"
proof -
  have i: "mutex_ok s" "workers_ok s" "sched_ok inp s (rr_spc s)" using assms(1,2) by (auto simp: rr_inv_def)
  have "worker_ok s k (W_Commit sl)" by (rule workers_okD [OF i(2) assms(3,4)])
  then have w: "rr_all_started s" "\<not> rr_stop s" "rr_turn_id s = int k" "sl = rr_grant s" by simp_all
  note t = turn_granted [OF assms(1,2) w(3,2)]
  have "rr_mtx s = Some (Worker k)" by (rule mutex_okD [OF i(1) assms(3,4)]) simp
  then have spc: "rr_spc s \<in> {S_Slice_Wait, S_Slice_Woken}" using t(4) i(1) by (auto simp: mutex_ok_def)
  then have spc': "rr_spc s' = S_Slice_Woken"
    by (auto simp: assms(5) signal_done_def worker_goto_def)
  have f: "rr_wpc s' = (rr_wpc s)[k := W_Loop]" "rr_mtx s' = rr_mtx s" "rr_turn_id s' = - 1"
    "rr_all_started s' = rr_all_started s" "rr_stop s' = rr_stop s" "rr_slice_done s'" "rr_consumed s' = sl"
    "rr_picked s' = rr_picked s" "core s' = consume k sl (core s)"
    by (auto simp: assms(5) signal_done_def worker_goto_def)
  have g: "on_course inp (account inp k sl (consume k sl (core s)))"
    using t(1) unfolding granted_def t(2) w(4) by blast
  have "rr_rem s' = rr_rem (account inp k sl (consume k sl (core s)))" using f(9) by (metis core_fields(1) thread_fields(7))
  then have "0 \<le> sum_list (rr_rem s')" using sum_rem_nonneg g by (fastforce simp: on_course_def)
  then have "collected inp s'" using g t(2) by (simp add: collected_def f)
  moreover have "worker_ok s' j pc" if "j \<noteq> k" "worker_ok s j pc" for j pc
    using that w(3) f by (cases pc) auto
  then have "workers_ok s'" using w(1) by (intro workers_ok_goto [OF i(2) f(1)]) (simp_all add: f)
  moreover have "mutex_ok s'"
    using spc spc' by (intro mutex_ok_move [OF i(1) assms(3) _ f(1)]) (auto simp: assms(4) f)
  moreover have "length (rr_wpc s) = in_threads inp" using spc i(3) by auto
  ultimately show ?thesis using w by (simp add: rr_inv_def spc' f)
qed

lemma worker_loop_inv:
  assumes "rr_inv inp s" "input_ok inp" "rr_spc s \<noteq> S_Failed" "k < length (rr_wpc s)"
    and "rr_wpc s ! k = W_Loop" "worker_step k s = Some s'"
  shows "rr_inv inp s'"
proof -
  have "workers_ok s" using assms(1,3) by (simp add: rr_inv_def)
  then have "worker_ok s k W_Loop" by (rule workers_okD [OF _ assms(4,5)])
  then have st: "rr_all_started s" by simp
  have h: "w_holds (rr_wpc s ! k)" using assms(5) by simp
  note move = worker_move_inv [OF assms(1,3,4) h]
  consider "\<not> rr_stop s" "rr_turn_id s \<noteq> int k" | "rr_stop s" | "\<not> rr_stop s" "rr_turn_id s = int k" by blast
  then show ?thesis
  proof cases
    case 1
    with assms st show ?thesis by (intro move [of W_Turn_Wait]) (simp_all add: worker_step_def)
  next
    case 2
    with assms st show ?thesis by (intro move [of W_Done]) (simp_all add: worker_step_def)
  next
    case 3
    note t = turn_granted [OF assms(1,3) 3(2) 3(1)]
    note g = granted_slice [OF t(1) assms(2), unfolded t(2)]
    from 3 g st assms show ?thesis
      by (intro move [of "W_Work (rr_grant s)"]) (simp_all add: worker_step_def)
  qed
qed

lemma worker_step_inv:
  assumes "rr_inv inp s" "input_ok inp" "worker_step k s = Some s'"
  shows "rr_inv inp s'"
proof -
  have nf: "rr_spc s \<noteq> S_Failed" and k: "k < length (rr_wpc s)"
    using assms(3) by (auto simp: worker_step_def split: if_splits)
  then have w: "worker_ok s k (rr_wpc s ! k)" using assms(1) by (simp add: rr_inv_def workers_ok_def)
  note st = assms(3) [unfolded worker_step_def] and lock = worker_lock_inv [OF assms(1) nf k]
    and move = worker_move_inv [OF assms(1) nf k]
  show ?thesis
  proof (cases "rr_wpc s ! k")
    case W_Start with st nf k show ?thesis by (intro lock [of W_Check]) simp_all
  next
    case W_Check
    show ?thesis
    proof (cases "rr_all_started s")
      case True with W_Check st nf k show ?thesis by (intro move [of W_Loop]) simp_all
    next
      case False with W_Check st nf k show ?thesis by (intro move [of W_Start_Wait]) simp_all
    qed
  next
    case W_Start_Woken with st nf k show ?thesis by (intro lock [of W_Check]) simp_all
  next
    case W_Loop show ?thesis by (rule worker_loop_inv [OF assms(1,2) nf k W_Loop assms(3)])
  next
    case W_Turn_Woken with st nf k show ?thesis by (intro lock [of W_Loop]) simp_all
  next
    case (W_Work sl) with st nf k show ?thesis by (intro lock [of "W_Commit sl"]) simp_all
  next
    case (W_Commit sl) with st nf k show ?thesis by (intro worker_commit_inv [OF assms(1) nf k W_Commit]) simp
  qed (use st nf k in simp_all)
qed

lemma spurious_inv:
  assumes "rr_inv inp s" "spurious s s'"
  shows "rr_inv inp s'"
  using assms(2)
proof (cases rule: spurious.cases)
  case spurious_sched
  with assms(1) show ?thesis by (auto simp: rr_inv_def mutex_ok_def workers_ok_def)
next
  case (spurious_worker k)
  have i: "mutex_ok s" "workers_ok s" "sched_ok inp s (rr_spc s)" using assms(1) spurious_worker(4) by (auto simp: rr_inv_def)
  have w: "worker_ok s k (wake (rr_wpc s ! k))" using i(2) spurious_worker by (auto simp: workers_ok_def)
  have f: "rr_wpc s' = (rr_wpc s)[k := wake (rr_wpc s ! k)]" "rr_mtx s' = rr_mtx s" "rr_spc s' = rr_spc s"
    "worker_ok s' = worker_ok s"
    using spurious_worker(1) by (simp_all add: worker_goto_def)
  have "workers_ok s'" using w by (intro workers_ok_goto [OF i(2) f(1)]) (simp_all add: f)
  moreover have "mutex_ok s'" using i(1) spurious_worker(2) by (auto simp: mutex_ok_def f nth_list_update)
  moreover have "rr_wpc s ! k \<noteq> W_Done" using spurious_worker(3) by auto
  then have "sched_ok inp s' (rr_spc s')"
    unfolding f(3) by (rule sched_ok_goto [OF i(3)]) (use spurious_worker(1) in \<open>simp_all add: worker_goto_def\<close>)
  ultimately show ?thesis by (simp add: rr_inv_def)
qed

lemma init_rr_inv: "input_ok inp \<Longrightarrow> rr_inv inp (init_rr inp)"
proof -
  assume inp: "input_ok inp"
  have "core (init_rr inp) = init_sched inp" by (simp add: core_def init_rr_def init_sched_def)
  then have "on_course inp (core (init_rr inp))" using init_sched_ok [OF inp] by (simp add: on_course_def)
  then show ?thesis by (simp add: rr_inv_def mutex_ok_def workers_ok_def init_rr_def)
qed

section \<open>Progress\<close>

lemma mutex_holder_moves:
  "mutex_ok s \<Longrightarrow> rr_spc s \<noteq> S_Failed \<Longrightarrow> rr_mtx s = Some (Worker k) \<Longrightarrow> \<exists>s'. worker_step k s = Some s'"
  by (cases "rr_wpc s ! k") (auto simp: mutex_ok_def worker_step_def)

lemma free_mutex_moves:
  assumes "rr_mtx s = None" "rr_spc s \<noteq> S_Failed" "k < length (rr_wpc s)"
    and "rr_wpc s ! k \<in> {W_Start, W_Start_Woken, W_Turn_Woken} \<or> (\<exists>sl. rr_wpc s ! k = W_Work sl)"
  shows "\<exists>s'. worker_step k s = Some s'"
  using assms by (auto simp: worker_step_def worker_lock_def)

lemma rr_progress:
  assumes "rr_inv inp s" "input_ok inp" "\<not> rr_final s"
  shows "\<exists>s'. rr_step create_ok inp s s'"
proof -
  have nf: "rr_spc s \<noteq> S_Failed" "rr_spc s \<noteq> S_Done" using assms(3) by (auto simp: rr_final_def)
  have i: "mutex_ok s" "workers_ok s" "sched_ok inp s (rr_spc s)" using assms(1) nf by (auto simp: rr_inv_def)
  have sched: "\<exists>s'. rr_step create_ok inp s s'" if "sched_step create_ok inp s \<noteq> None"
    using that by (auto intro: by_sched)
  have worker: "\<exists>s'. rr_step create_ok inp s s'" if "\<exists>s'. worker_step k s = Some s'" for k
    using that by (auto intro: by_worker)
  show ?thesis
  proof (cases "rr_mtx s")
    case None
    then have asleep: "rr_wpc s ! k \<notin> {W_Check, W_Loop}" "rr_wpc s ! k \<noteq> W_Commit sl" if "k < length (rr_wpc s)" for k sl
      using i(1) that by (auto simp: mutex_ok_def)
    have moves: "\<exists>s'. rr_step create_ok inp s s'"
      if "k < length (rr_wpc s)" "rr_wpc s ! k \<notin> {W_Start_Wait, W_Turn_Wait, W_Done}" for k
      using asleep [OF that(1)] that(2) by (intro worker [of k] free_mutex_moves [OF None nf(1) that(1)]) (cases "rr_wpc s ! k"; auto)
    have w: "worker_ok s k (rr_wpc s ! k)" if "k < length (rr_wpc s)" for k
      using i(2) that by (simp add: workers_ok_def)
    show ?thesis
    proof (cases "rr_spc s")
      case S_Slice_Wait
      then have g: "granted inp s" "length (rr_wpc s) = in_threads inp" "rr_all_started s" "\<not> rr_stop s"
        using i(3) by simp_all
      then have k: "rr_picked s < length (rr_wpc s)" and t: "rr_turn_id s = int (rr_picked s)"
        by (simp_all add: granted_def)
      show ?thesis using w [OF k] g t by (intro moves [OF k]) auto
    next
      case (S_Join k)
      show ?thesis
      proof (cases "k < in_threads inp \<and> rr_wpc s ! k \<noteq> W_Done")
        case True
        then have k: "k < length (rr_wpc s)" using S_Join i(3) by simp
        show ?thesis using w [OF k] True S_Join i(3) by (intro moves [OF k]) auto
      qed (use S_Join in \<open>intro sched; auto simp: sched_step_def\<close>)
    qed (use i None nf in \<open>auto intro!: sched simp: sched_step_def sched_lock_def mutex_ok_def\<close>)
  next
    case (Some h)
    show ?thesis
    proof (cases h)
      case (Worker k)
      then show ?thesis using Some i(1) nf by (intro worker [of k] mutex_holder_moves) auto
    next
      case Sched
      then have "rr_spc s \<in> {S_Started, S_Pick, S_Slice}" using Some i(1) by (simp add: mutex_ok_def)
      moreover have "\<exists>r. pick_loop inp s (rr_i s) (rr_i s) = Some r" if "rr_spc s = S_Pick"
        using that i(3) pick_loop_spec [of s inp] by (auto simp: on_course_def rr_ok_def)
      ultimately show ?thesis by (intro sched) (auto simp: sched_step_def Let_def)
    qed
  qed
qed

section \<open>Termination\<close>

fun phase :: "Input \<Rightarrow> sched_pc \<Rightarrow> nat" where
  "phase inp (S_Create k) = in_threads inp - k + 4"
| "phase inp S_Started = 3"
| "phase inp S_Pick = 2"
| "phase inp S_Slice = 2"
| "phase inp S_Slice_Wait = 2"
| "phase inp S_Slice_Woken = 2"
| "phase inp (S_Join k) = 1"
| "phase inp S_Done = 0"
| "phase inp S_Failed = 0"

fun stage :: "Input \<Rightarrow> rr \<Rightarrow> sched_pc \<Rightarrow> nat" where
  "stage inp s S_Pick = (if \<exists>p < in_threads inp. runnable inp s p then 5 else 6)"
| "stage inp s S_Slice = (if rr_slice_done s then 7 else 2)"
| "stage inp s S_Slice_Woken = (if rr_slice_done s then 8 else 3)"
| "stage inp s S_Slice_Wait = 1"
| "stage inp s (S_Join k) = in_threads inp - k"
| "stage inp s pc = 0"

fun worker_rank :: "worker_pc \<Rightarrow> nat" where
  "worker_rank W_Start = 10"
| "worker_rank W_Start_Woken = 9"
| "worker_rank W_Check = 8"
| "worker_rank W_Start_Wait = 7"
| "worker_rank W_Turn_Woken = 6"
| "worker_rank W_Loop = 5"
| "worker_rank W_Turn_Wait = 4"
| "worker_rank (W_Work sl) = 3"
| "worker_rank (W_Commit sl) = 2"
| "worker_rank W_Done = 0"

definition rr_rel :: "Input \<Rightarrow> (rr \<times> rr) set" where
  "rr_rel inp = measures
     [\<lambda>s. phase inp (rr_spc s), \<lambda>s. nat (sum_list (rr_rem s)), \<lambda>s. stage inp s (rr_spc s),
      \<lambda>s. sum_list (map worker_rank (rr_wpc s))]"

lemma worker_rank_update:
  "k < length ws \<Longrightarrow> worker_rank pc < worker_rank (ws ! k) \<Longrightarrow>
     sum_list (map worker_rank (ws[k := pc])) < sum_list (map worker_rank ws)"
  by (induction ws arbitrary: k) (auto split: nat.splits)

lemma stage_cong:
  "rr_rem s' = rr_rem s \<Longrightarrow> rr_now s' = rr_now s \<Longrightarrow> rr_slice_done s' = rr_slice_done s \<Longrightarrow>
     stage inp s' pc = stage inp s pc"
  by (cases pc) (simp_all add: runnable_def)

lemma worker_move_decreases:
  assumes "k < length (rr_wpc s)" "worker_rank pc < worker_rank (rr_wpc s ! k)"
    and "rr_wpc s' = (rr_wpc s)[k := pc]" "core s' = core s" "rr_spc s' = rr_spc s" "rr_slice_done s' = rr_slice_done s"
  shows "(s', s) \<in> rr_rel inp"
proof -
  have "rr_rem s' = rr_rem s" "rr_now s' = rr_now s" using assms(4) by (simp_all add: core_def)
  with assms show ?thesis by (simp add: rr_rel_def worker_rank_update stage_cong [of s' s])
qed

lemma worker_lock_decreases:
  "k < length (rr_wpc s) \<Longrightarrow> worker_rank pc < worker_rank (rr_wpc s ! k) \<Longrightarrow>
     worker_lock k pc s = Some s' \<Longrightarrow> (s', s) \<in> rr_rel inp"
  by (rule worker_move_decreases [of k s pc]) (auto simp: worker_lock_def worker_goto_def split: if_splits)

lemma worker_goto_decreases:
  "k < length (rr_wpc s) \<Longrightarrow> worker_rank pc < worker_rank (rr_wpc s ! k) \<Longrightarrow>
     s' = worker_goto k pc s \<or> s' = worker_unlock k pc s \<Longrightarrow> (s', s) \<in> rr_rel inp"
  by (rule worker_move_decreases [of k s pc]) (auto simp: worker_unlock_def worker_goto_def)

lemma worker_commit_decreases:
  assumes "rr_inv inp s" "input_ok inp" "rr_spc s \<noteq> S_Failed" "k < length (rr_wpc s)" "rr_wpc s ! k = W_Commit sl"
    and "s' = worker_goto k W_Loop (signal_done ((consume k sl s)
                  \<lparr>rr_consumed := sl, rr_turn_id := - 1, rr_slice_done := True\<rparr>))"
  shows "(s', s) \<in> rr_rel inp"
proof -
  have "workers_ok s" using assms(1,3) by (simp add: rr_inv_def)
  then have w: "rr_turn_id s = int k" "\<not> rr_stop s" "sl = rr_grant s"
    using workers_okD [OF _ assms(4,5)] by simp_all
  note t = turn_granted [OF assms(1,3) w(1) w(2)]
  note g = granted_slice [OF t(1) assms(2), unfolded t(2)]
  have k: "k < length (rr_rem s)" using t(1,2) by (simp add: granted_def)
  have ph: "phase inp (rr_spc s') = phase inp (rr_spc s)" and
    r': "rr_rem s' = (rr_rem s)[k := rr_rem s ! k - sl]"
    by (simp_all add: assms(6) signal_done_def worker_goto_def consume_def)
  have "rr_ok inp (account inp k sl (consume k sl (core s)))"
    using t(1) unfolding granted_def t(2) w(3) on_course_def by blast
  from sum_rem_nonneg [OF this] have "0 \<le> sum_list (rr_rem s')" by (simp add: r' consume_def)
  with g w(3) k have "nat (sum_list (rr_rem s')) < nat (sum_list (rr_rem s))"
    by (simp add: r' sum_list_update_int)
  with ph show ?thesis by (simp add: rr_rel_def)
qed

lemma worker_decreases:
  assumes "rr_inv inp s" "input_ok inp" "worker_step k s = Some s'"
  shows "(s', s) \<in> rr_rel inp"
proof -
  have nf: "rr_spc s \<noteq> S_Failed" and k: "k < length (rr_wpc s)"
    using assms(3) by (auto simp: worker_step_def split: if_splits)
  note st = assms(3) [unfolded worker_step_def] and lock = worker_lock_decreases [OF k]
    and move = worker_goto_decreases [OF k]
  show ?thesis
  proof (cases "rr_wpc s ! k")
    case W_Start with st nf k show ?thesis by (intro lock [of W_Check]) simp_all
  next
    case W_Check
    show ?thesis
    proof (cases "rr_all_started s")
      case True with W_Check st nf k show ?thesis by (intro move [of W_Loop]) simp_all
    next
      case False with W_Check st nf k show ?thesis by (intro move [of W_Start_Wait]) simp_all
    qed
  next
    case W_Start_Woken with st nf k show ?thesis by (intro lock [of W_Check]) simp_all
  next
    case W_Loop
    have "0 < rr_rem s ! k" if t: "rr_turn_id s = int k" "\<not> rr_stop s"
      using turn_granted [OF assms(1) nf t] granted_slice [OF _ assms(2), of s] by simp
    with W_Loop st nf k show ?thesis
      by (auto split: if_splits intro: move [of W_Turn_Wait] move [of W_Done] move [of "W_Work (worker_slice k s)"])
  next
    case W_Turn_Woken with st nf k show ?thesis by (intro lock [of W_Loop]) simp_all
  next
    case (W_Work sl) with st nf k show ?thesis by (intro lock [of "W_Commit sl"]) simp_all
  next
    case (W_Commit sl)
    with st nf k show ?thesis by (intro worker_commit_decreases [OF assms(1,2) nf k W_Commit]) simp
  qed (use st nf k in simp_all)
qed

lemma sched_decreases:
  assumes "rr_inv inp s" "input_ok inp" "sched_step create_ok inp s = Some s'"
  shows "(s', s) \<in> rr_rel inp"
proof (cases "rr_spc s = S_Pick \<and> rr_finished s < in_threads inp")
  case False
  have "runnable inp (account inp (rr_picked s) (rr_consumed s) s) = runnable inp (s\<lparr>rr_now := rr_now s + rr_consumed s\<rparr>)"
    by (simp add: fun_eq_iff runnable_def account_def Let_def)
  with False assms(3) show ?thesis
    by (auto simp: sched_step_def rr_rel_def sched_lock_def broadcast_turn_def split: sched_pc.splits if_splits)
next
  case True
  then have ok: "rr_ok inp (core s)" using assms(1) by (simp add: rr_inv_def on_course_def)
  then have i: "rr_i s < in_threads inp" by (simp add: rr_ok_def)
  from True have unf: "rr_finished (core s) < in_threads inp" by simp
  from ok assms(2) unf show ?thesis
  proof (cases rule: rr_round_cases)
    case idle
    then have "s' = jump_time inp s"
      using assms(3) True pick_loop_core [OF i] by (simp add: sched_step_def)
    moreover have "\<exists>p < in_threads inp. runnable inp (jump_time inp s) p"
      using jump_time_ok(2) [OF ok assms(2) unf idle(2)] by (metis core_ops(3) core_reads(1))
    ultimately show ?thesis using idle(2) True by (auto simp: rr_rel_def core_reads)
  next
    case (slice p)
    then have "rr_spc s' = S_Slice" "\<not> rr_slice_done s'" "rr_rem s' = rr_rem s"
      using assms(3) True pick_loop_core [OF i] by (auto simp: sched_step_def Let_def broadcast_turn_def)
    with True show ?thesis by (simp add: rr_rel_def)
  qed
qed

section \<open>The threads as a terminating system\<close>

interpretation rr_threads: terminating_system "\<lambda>s. s = init_rr inp \<and> input_ok inp" "rr_step create_ok inp" spurious
    "\<lambda>s. rr_inv inp s \<and> input_ok inp" rr_final "rr_rel inp" for create_ok inp
proof unfold_locales
  show "wf (rr_rel inp)" by (simp add: rr_rel_def)
qed (auto elim!: rr_stepE intro: init_rr_inv sched_step_inv worker_step_inv spurious_inv rr_progress
    sched_decreases worker_decreases)

lemma rr_reachable_system:
  "input_ok inp \<Longrightarrow> rr_reachable create_ok inp s \<Longrightarrow>
     reachable (\<lambda>s. s = init_rr inp \<and> input_ok inp) (rr_step create_ok inp) spurious s"
  by simp

text \<open>Running the threads in a given order, for concrete executions.\<close>

fun rr_exec :: "(nat \<Rightarrow> bool) \<Rightarrow> Input \<Rightarrow> tid list \<Rightarrow> rr \<Rightarrow> rr option" where
  "rr_exec create_ok inp [] s = Some s"
| "rr_exec create_ok inp (t # ts) s =
     (case (case t of Sched \<Rightarrow> sched_step create_ok inp s | Worker k \<Rightarrow> worker_step k s) of
        None \<Rightarrow> None | Some s' \<Rightarrow> rr_exec create_ok inp ts s')"

lemma rr_exec_reachable:
  "rr_exec create_ok inp ts s = Some s' \<Longrightarrow> rr_reachable create_ok inp s \<Longrightarrow> rr_reachable create_ok inp s'"
proof (induction ts arbitrary: s)
  case (Cons t ts)
  then obtain s1 where s1: "(case t of Sched \<Rightarrow> sched_step create_ok inp s | Worker k \<Rightarrow> worker_step k s) = Some s1"
    "rr_exec create_ok inp ts s1 = Some s'" by (auto split: option.splits)
  then have "rr_step create_ok inp s s1" by (auto split: tid.splits intro: rr_step.intros)
  with Cons s1 show ?case by (blast intro: reachable.step)
qed simp

section \<open>Properties\<close>

text \<open>
  C21 (no deadlock, no lost wake-up, termination). Take any well-formed input, any outcome of the
  thread creations, and any state the program can get into under any interleaving of the main
  thread and the workers, with waits that end spuriously at any time. Unless the program has ended,
  some thread can make a real step; there is no infinite sequence of real steps; and some sequence
  of them ends the program. So every execution in which runnable threads are scheduled ends.
\<close>

theorem rr_threads_terminate:
  assumes "input_ok inp" "rr_reachable create_ok inp s"
  shows "(rr_final s \<or> (\<exists>s'. rr_step create_ok inp s s')) \<and>
     (\<forall>f. f 0 = s \<longrightarrow> (\<exists>k. \<not> rr_step create_ok inp (f k) (f (Suc k)))) \<and>
     (\<exists>s'. (rr_step create_ok inp)\<^sup>*\<^sup>* s s' \<and> rr_final s')"
proof (intro conjI allI impI)
  note r = rr_reachable_system [OF assms]
  show "rr_final s \<or> (\<exists>s'. rr_step create_ok inp s s')" using rr_threads.no_deadlock [OF r] by blast
  show "\<exists>k. \<not> rr_step create_ok inp (f k) (f (Suc k))" if "f 0 = s" for f
    using rr_threads.no_infinite_run [of inp create_ok f] r that by simp
  show "\<exists>s'. (rr_step create_ok inp)\<^sup>*\<^sup>* s s' \<and> rr_final s'" using rr_threads.reaches_final [OF r] by blast
qed

theorem rr_threads_terminate_witness:
  "\<exists>s'. (rr_step (\<lambda>k. k < 1) \<lparr>in_threads = 2, in_q = 3, in_at = [0, 4], in_bt = [5, 1]\<rparr>)\<^sup>*\<^sup>*
          (init_rr \<lparr>in_threads = 2, in_q = 3, in_at = [0, 4], in_bt = [5, 1]\<rparr>) s' \<and> rr_final s'"
  using rr_threads_terminate [of "\<lparr>in_threads = 2, in_q = 3, in_at = [0, 4], in_bt = [5, 1]\<rparr>" "\<lambda>k. k < 1",
      OF _ reachable.start] by (simp add: input_ok_def)

text \<open>
  C22 (every interleaving computes the round-robin schedule). In every reachable state at most one
  worker is between taking its slice and giving it back, and that worker has the turn and works
  exactly the quantum the main thread granted; and when the main thread has joined all workers, the
  clock, the remaining times and the finish times are those of the sequential scheduler, whatever
  the interleaving and the spurious wake-ups were.
\<close>

theorem rr_threads_result:
  assumes "input_ok inp" "rr_reachable create_ok inp s" "rr_spc s \<noteq> S_Failed"
  shows "(rr_spc s = S_Done \<longrightarrow> rr_schedule inp (init_sched inp) = Some (core s)) \<and>
     (\<forall>k < length (rr_wpc s). \<forall>sl. rr_wpc s ! k = W_Work sl \<or> rr_wpc s ! k = W_Commit sl \<longrightarrow>
        rr_turn_id s = int k \<and> sl = grant_of inp s k \<and> 0 < sl \<and> sl \<le> rr_rem s ! k)"
proof (intro conjI impI allI)
  have inv: "rr_inv inp s"
    using rr_threads.reachable_invar [OF rr_reachable_system [OF assms(1,2)]] by simp
  then have wk: "workers_ok s" using assms(3) by (simp add: rr_inv_def)
  show "rr_schedule inp (init_sched inp) = Some (core s)" if "rr_spc s = S_Done"
  proof -
    have "on_course inp (core s)" "rr_finished s = in_threads inp" using inv that by (simp_all add: rr_inv_def)
    then show ?thesis by (subst (asm) on_course_def) (simp add: rr_schedule.simps [of inp "core s"])
  qed
  fix k sl assume k: "k < length (rr_wpc s)" and pc: "rr_wpc s ! k = W_Work sl \<or> rr_wpc s ! k = W_Commit sl"
  then have w: "rr_turn_id s = int k" "\<not> rr_stop s" "sl = rr_grant s" using workers_okD [OF wk k] by auto
  note t = turn_granted [OF inv assms(3) w(1) w(2)]
  note g = granted_slice [OF t(1) assms(1), unfolded t(2)]
  show "rr_turn_id s = int k" "sl = grant_of inp s k" "0 < sl" "sl \<le> rr_rem s ! k"
    using w g t(1,2) by (simp_all add: granted_def core_reads)
qed

theorem rr_threads_result_witness:
  "\<exists>s. rr_reachable (\<lambda>k. True) \<lparr>in_threads = 1, in_q = 5, in_at = [0], in_bt = [1]\<rparr> s \<and> rr_spc s = S_Done \<and>
     rr_schedule \<lparr>in_threads = 1, in_q = 5, in_at = [0], in_bt = [1]\<rparr>
       (init_sched \<lparr>in_threads = 1, in_q = 5, in_at = [0], in_bt = [1]\<rparr>) = Some (core s) \<and> rr_finish s = [1]"
proof -
  let ?inp = "\<lparr>in_threads = 1, in_q = 5, in_at = [0], in_bt = [1]\<rparr>"
  let ?w = "Worker 0"
  have "\<exists>s. rr_exec (\<lambda>k. True) ?inp [Sched, Sched, Sched, Sched, Sched, ?w, ?w, ?w, ?w, ?w, ?w,
      Sched, Sched, Sched, ?w, ?w, Sched, Sched] (init_rr ?inp) = Some s \<and> rr_spc s = S_Done \<and> rr_finish s = [1]"
    by (simp add: init_rr_def sched_step_def worker_step_def sched_lock_def worker_lock_def worker_goto_def
        worker_unlock_def broadcast_turn_def signal_done_def consume_def account_def grant_of_def runnable_def
        worker_slice_def pick_loop.simps)
  then obtain s where s: "rr_exec (\<lambda>k. True) ?inp [Sched, Sched, Sched, Sched, Sched, ?w, ?w, ?w, ?w, ?w, ?w,
      Sched, Sched, Sched, ?w, ?w, Sched, Sched] (init_rr ?inp) = Some s" "rr_spc s = S_Done" "rr_finish s = [1]"
    by blast
  have "rr_reachable (\<lambda>k. True) ?inp s" by (rule rr_exec_reachable [OF s(1)]) (simp add: reachable.start)
  with rr_threads_result [of ?inp "\<lambda>k. True" s] s show ?thesis
    by (intro exI [of _ s]) (simp add: input_ok_def)
qed

end
