(* ===== verification/RoundRobinLog.thy ===== *)
theory RoundRobinLog
  imports RoundRobinThreads Libc
begin

text \<open>
  The logging side of \<open>assignments/a2/scheduling_rr/main.c\<close>: the folder \<open>create_log_folder\<close>
  makes, the four threads \<open>log_worker\<close> that write one line each, the creation of those threads
  at the start of \<open>main\<close> and the loop at its end that joins them. The results of the system calls are parameters; what a thread does is the
  sequence of its system calls.
\<close>

definition LOG_FOLDER :: string where "LOG_FOLDER = ''logFolder/''"
definition MAX_THREADS_LOG :: nat where "MAX_THREADS_LOG = 4"

datatype call = Mkdir string | Chmod string | Open string | Write string nat | Close | Perror string

text \<open>\<open>create_log_folder\<close>: its system calls, and whether it returns (or exits with status 1).\<close>

definition create_log_folder :: "bool \<Rightarrow> bool \<Rightarrow> bool \<Rightarrow> call list \<times> bool" where
  "create_log_folder mkdir_ok eexist chmod_ok =
     (if \<not> mkdir_ok \<and> \<not> eexist then ([Mkdir LOG_FOLDER, Perror ''mkdir logFolder''], False)
      else if \<not> chmod_ok then ([Mkdir LOG_FOLDER, Chmod LOG_FOLDER, Perror ''chmod logFolder''], False)
      else ([Mkdir LOG_FOLDER, Chmod LOG_FOLDER], True))"

definition log_path :: "int \<Rightarrow> string" where
  "log_path idx = snprintf_s 64 (LOG_FOLDER @ ''thread'' @ show_int idx @ ''.txt'')"

text \<open>The full text of the line: the value of \<open>snprintf\<close> is its length, even if it were cut.\<close>

definition log_text :: "int \<Rightarrow> int \<Rightarrow> string" where
  "log_text idx pid = ''Thread '' @ show_int idx @ '' (pid '' @ show_int pid @ '') wrote this log.'' @ [CHR 0x0A]"

definition log_worker :: "int \<Rightarrow> int \<Rightarrow> bool \<Rightarrow> bool \<Rightarrow> call list" where
  "log_worker idx pid open_ok chmod_ok =
     (if \<not> open_ok then [Open (log_path idx), Perror ''open log file'']
      else [Open (log_path idx), Write (snprintf_s 128 (log_text idx pid)) (length (log_text idx pid)), Close,
            Chmod (log_path idx)] @ (if chmod_ok then [] else [Perror ''chmod log file'']))"

text \<open>Which of the logging threads are started: all of them, or those before the first failure.\<close>

fun start_log_threads :: "(nat \<Rightarrow> bool) \<Rightarrow> nat list \<Rightarrow> nat list \<times> bool" where
  "start_log_threads create_ok [] = ([], True)"
| "start_log_threads create_ok (t # ts) =
     (if create_ok t then (let (r, b) = start_log_threads create_ok ts in (t # r, b)) else ([], False))"

text \<open>
  The line is never cut, so the \<open>write\<close> of its length stays inside the buffer of 128 bytes, and
  the four threads write to different files.
\<close>

lemma show_int_small: "0 \<le> n \<Longrightarrow> n < 10 \<Longrightarrow> show_int n = [dec_digit (nat n)]"
  by (simp add: show_int_def show_nat.simps [of "nat n"])

lemma length_log_text: "0 \<le> idx \<Longrightarrow> idx < 10 \<Longrightarrow> length (show_int pid) \<le> 11 \<Longrightarrow> length (log_text idx pid) < 128"
  by (simp add: log_text_def show_int_small)

lemma log_path_inj:
  assumes "log_path a = log_path b" "0 \<le> a" "a < 10" "0 \<le> b" "b < 10"
  shows "a = b"
proof -
  have "dec_digit (nat a) = dec_digit (nat b)"
    using assms by (simp add: log_path_def LOG_FOLDER_def show_int_small snprintf_s_def)
  then have "(of_char (dec_digit (nat a)) :: nat) = of_char (dec_digit (nat b))" by simp
  with assms show ?thesis by simp
qed

section \<open>Joining the threads\<close>

text \<open>
  The calls each logging thread still has to make, and the loop variable of the joins: a thread makes
  its next call (every call returns), and the main thread gets past the join of a thread that has
  returned. The main thread is then in the last loop before the report.
\<close>

type_synonym log_state = "call list list \<times> nat"

inductive log_step :: "log_state \<Rightarrow> log_state \<Rightarrow> bool" where
  run: "t < length rs \<Longrightarrow> rs ! t = c # cs \<Longrightarrow> log_step (rs, j) (rs[t := cs], j)"
| join: "j < length rs \<Longrightarrow> rs ! j = [] \<Longrightarrow> log_step (rs, j) (rs, Suc j)"

inductive_cases log_stepE: "log_step s s'"

definition log_start :: "int \<Rightarrow> (nat \<Rightarrow> bool) \<Rightarrow> (nat \<Rightarrow> bool) \<Rightarrow> log_state \<Rightarrow> bool" where
  "log_start pid open_ok chmod_ok s \<longleftrightarrow>
     s = (map (\<lambda>t. log_worker (int t) pid (open_ok t) (chmod_ok t)) [1..<Suc MAX_THREADS_LOG], 0)"

fun log_inv :: "log_state \<Rightarrow> bool" where
  "log_inv (rs, j) \<longleftrightarrow> length rs = MAX_THREADS_LOG \<and> j \<le> MAX_THREADS_LOG \<and> (\<forall>t<j. rs ! t = [])"

fun log_joined :: "log_state \<Rightarrow> bool" where
  "log_joined (rs, j) \<longleftrightarrow> j = MAX_THREADS_LOG"

definition log_measure :: "(log_state \<times> log_state) set" where
  "log_measure = measure (\<lambda>(rs, j). sum_list (map length rs) + (MAX_THREADS_LOG - j))"

lemma sum_length_update:
  "t < length rs \<Longrightarrow> rs ! t = c # cs \<Longrightarrow> sum_list (map length (rs[t := cs])) < sum_list (map length rs)"
  by (induction rs arbitrary: t) (auto split: nat.splits)

interpretation log_join: terminating_system "log_start pid open_ok chmod_ok" log_step "\<lambda>s s'. False" log_inv log_joined log_measure
proof
  fix s s' assume inv: "log_inv s" and step: "log_step s s'"
  then show "log_inv s'"
    by (auto elim!: log_stepE simp: less_Suc_eq nth_list_update)
  show "(s', s) \<in> log_measure"
    using step
  proof cases
    case (run t rs c cs j)
    with inv sum_length_update [of t rs c cs] show ?thesis by (simp add: log_measure_def) linarith
  next
    case (join j rs)
    with inv show ?thesis by (simp add: log_measure_def)
  qed
next
  fix s assume inv: "log_inv s" "\<not> log_joined s"
  obtain rs j where s: "s = (rs, j)" by (cases s)
  with inv have j: "j < length rs" by simp
  show "\<exists>s'. log_step s s'"
  proof (cases "rs ! j")
    case Nil
    with j show ?thesis unfolding s by (blast intro: join)
  next
    case (Cons c cs)
    with j show ?thesis unfolding s by (blast intro: run)
  qed
next
  show "wf log_measure" by (simp add: log_measure_def)
qed (auto simp: log_start_def MAX_THREADS_LOG_def)

text \<open>
  However the threads interleave, the joins end, and the report starts only after every logging
  thread has made all its calls.
\<close>

lemma log_threads_joined:
  assumes "reachable (log_start pid open_ok chmod_ok) log_step (\<lambda>s s'. False) s"
  shows "\<exists>rs. log_step\<^sup>*\<^sup>* s (rs, MAX_THREADS_LOG) \<and> rs = replicate MAX_THREADS_LOG []"
proof -
  obtain rs j where s': "log_step\<^sup>*\<^sup>* s (rs, j)" "reachable (log_start pid open_ok chmod_ok) log_step (\<lambda>s s'. False) (rs, j)"
      "log_joined (rs, j)"
    using log_join.reaches_final [OF assms] by (metis surj_pair)
  have inv: "log_inv (rs, j)" by (rule log_join.reachable_invar [OF s'(2)])
  have "rs = replicate MAX_THREADS_LOG []"
    using inv s'(3) by (intro nth_equalityI) auto
  with s' show ?thesis by auto
qed

lemma report_after_join:
  assumes "reachable (log_start pid open_ok chmod_ok) log_step (\<lambda>s s'. False) (rs, j)" "log_joined (rs, j)"
  shows "rs = replicate MAX_THREADS_LOG []"
  using log_join.reachable_invar [OF assms(1)] assms(2) by (intro nth_equalityI) auto

end
