(* ===== verification/InkConfig.thy ===== *)
theory InkConfig
  imports Libc
begin

text \<open>
  The configuration of the inklings simulation: \<open>src/config.c\<close> and \<open>include/config.h\<close> of
  \<open>assignments/a4/inklings/cink\<close>, the same directory search in \<open>src/logs.c\<close>, and the part of
  \<open>src/sim.c\<close> that copies the configuration into the simulation state.

  \<^item> a \<open>char\<close> buffer is the C string it holds; a copy into it keeps what fits its size;
  \<^item> \<open>None\<close> is undefined behaviour: the only source of it here is \<open>atoi\<close> on a number that is
    not an \<open>int\<close>;
  \<^item> the file system is a parameter: which directories can be opened, and the contents of the
    files that can.
\<close>

section \<open>Data\<close>

record LogsConfig =
  log_dir :: string
  log_actions :: string

record SimulationConfig =
  default_rows :: int
  default_cols :: int
  min_rows :: int
  min_cols :: int
  min_threads :: int
  default_threads :: int
  draw_colored_traveler_heads :: int

record InkConfig =
  max_level :: int
  max_add_ink :: int
  refill_ink :: int
  initial_red_level :: int
  initial_green_level :: int
  initial_blue_level :: int

record TimingConfig =
  min_producer_sleep_us :: int
  producer_sleep_us :: int
  inkling_sleep_us :: int
  inkling_sleep_step_us :: int
  inkling_sleep_min_us :: int
  inkling_sleep_max_us :: int
  arg_warning_sleep_s :: int
  shutdown_delay_s :: int
  event_loop_interval_ms :: int
  event_loop_sleep_s :: int

record EventLoopConfig =
  max_recursive_depth :: int

record ProducersConfig =
  speedup_factor_num :: int
  speedup_factor_den :: int
  slowdown_factor_num :: int
  slowdown_factor_den :: int

record IOConfig =
  pipe_path :: string

record IconDirectionsConfig =
  icon_north :: string
  icon_west :: string
  icon_south :: string
  icon_east :: string
  icon_none :: string

record MessagesConfig =
  ink_tank_header :: string
  live_threads_label :: string
  no_args_message :: string
  quit_no_threads_message :: string
  quit_esc_message :: string
  quit_generic_message :: string

record UIConfig =
  icon_directions :: IconDirectionsConfig
  messages :: MessagesConfig

record AppConfig =
  cfg_logs :: LogsConfig
  cfg_simulation :: SimulationConfig
  cfg_ink :: InkConfig
  cfg_timing :: TimingConfig
  cfg_event_loop :: EventLoopConfig
  cfg_producers :: ProducersConfig
  cfg_io :: IOConfig
  cfg_ui :: UIConfig

text \<open>The structure after \<open>memset(cfg, 0, sizeof(*cfg))\<close>.\<close>

definition zero_config :: AppConfig where
  "zero_config =
     \<lparr>cfg_logs = \<lparr>log_dir = [], log_actions = []\<rparr>,
      cfg_simulation = \<lparr>default_rows = 0, default_cols = 0, min_rows = 0, min_cols = 0, min_threads = 0, default_threads = 0, draw_colored_traveler_heads = 0\<rparr>,
      cfg_ink = \<lparr>max_level = 0, max_add_ink = 0, refill_ink = 0, initial_red_level = 0, initial_green_level = 0, initial_blue_level = 0\<rparr>,
      cfg_timing = \<lparr>min_producer_sleep_us = 0, producer_sleep_us = 0, inkling_sleep_us = 0, inkling_sleep_step_us = 0, inkling_sleep_min_us = 0, inkling_sleep_max_us = 0, arg_warning_sleep_s = 0, shutdown_delay_s = 0, event_loop_interval_ms = 0, event_loop_sleep_s = 0\<rparr>,
      cfg_event_loop = \<lparr>max_recursive_depth = 0\<rparr>,
      cfg_producers = \<lparr>speedup_factor_num = 0, speedup_factor_den = 0, slowdown_factor_num = 0, slowdown_factor_den = 0\<rparr>,
      cfg_io = \<lparr>pipe_path = []\<rparr>,
      cfg_ui = \<lparr>icon_directions = \<lparr>icon_north = [], icon_west = [], icon_south = [], icon_east = [], icon_none = []\<rparr>,
        messages = \<lparr>ink_tank_header = [], live_threads_label = [], no_args_message = [], quit_no_threads_message = [], quit_esc_message = [], quit_generic_message = []\<rparr>\<rparr>\<rparr>"

datatype Section = SEC_NONE | SEC_LOGS | SEC_SIMULATION | SEC_INK | SEC_TIMING | SEC_EVENT_LOOP
  | SEC_PRODUCERS | SEC_IO | SEC_UI | SEC_UI_ICON | SEC_UI_MESSAGES

section \<open>Text helpers\<close>

definition trim :: "string \<Rightarrow> string" where
  "trim s = rev (dropWhile isspace (rev (dropWhile isspace s)))"

definition parse_bool_or_int :: "string \<Rightarrow> int option" where
  "parse_bool_or_int v =
     (if strcaseeq v ''true'' then Some 1 else if strcaseeq v ''false'' then Some 0 else atoi v)"

definition strip_quotes :: "string \<Rightarrow> string" where
  "strip_quotes v =
     (if 2 \<le> length v \<and> v ! 0 = CHR 0x22 \<and> v ! (length v - 1) = CHR 0x22
      then take (length v - 2) (tl v) else v)"

section \<open>Assignments by section and key\<close>

definition set_logs :: "string \<Rightarrow> string \<Rightarrow> LogsConfig \<Rightarrow> LogsConfig option" where
  "set_logs key value c =
     (if key = ''dir'' then Some (c\<lparr>log_dir := snprintf_s 256 value\<rparr>)
      else if key = ''actions'' then Some (c\<lparr>log_actions := snprintf_s 256 value\<rparr>)
      else Some c)"

definition set_simulation :: "string \<Rightarrow> string \<Rightarrow> SimulationConfig \<Rightarrow> SimulationConfig option" where
  "set_simulation key value c =
     (if key = ''default_rows'' then map_option (\<lambda>n. c\<lparr>default_rows := n\<rparr>) (atoi value)
      else if key = ''default_cols'' then map_option (\<lambda>n. c\<lparr>default_cols := n\<rparr>) (atoi value)
      else if key = ''min_rows'' then map_option (\<lambda>n. c\<lparr>min_rows := n\<rparr>) (atoi value)
      else if key = ''min_cols'' then map_option (\<lambda>n. c\<lparr>min_cols := n\<rparr>) (atoi value)
      else if key = ''min_threads'' then map_option (\<lambda>n. c\<lparr>min_threads := n\<rparr>) (atoi value)
      else if key = ''default_threads'' then map_option (\<lambda>n. c\<lparr>default_threads := n\<rparr>) (atoi value)
      else if key = ''draw_colored_traveler_heads'' then map_option (\<lambda>n. c\<lparr>draw_colored_traveler_heads := n\<rparr>) (parse_bool_or_int value)
      else Some c)"

definition set_ink :: "string \<Rightarrow> string \<Rightarrow> InkConfig \<Rightarrow> InkConfig option" where
  "set_ink key value c =
     (if key = ''max_level'' then map_option (\<lambda>n. c\<lparr>max_level := n\<rparr>) (atoi value)
      else if key = ''max_add_ink'' then map_option (\<lambda>n. c\<lparr>max_add_ink := n\<rparr>) (atoi value)
      else if key = ''refill_ink'' then map_option (\<lambda>n. c\<lparr>refill_ink := n\<rparr>) (atoi value)
      else if key = ''initial_red_level'' then map_option (\<lambda>n. c\<lparr>initial_red_level := n\<rparr>) (atoi value)
      else if key = ''initial_green_level'' then map_option (\<lambda>n. c\<lparr>initial_green_level := n\<rparr>) (atoi value)
      else if key = ''initial_blue_level'' then map_option (\<lambda>n. c\<lparr>initial_blue_level := n\<rparr>) (atoi value)
      else Some c)"

definition set_timing :: "string \<Rightarrow> string \<Rightarrow> TimingConfig \<Rightarrow> TimingConfig option" where
  "set_timing key value c =
     (if key = ''min_producer_sleep_us'' then map_option (\<lambda>n. c\<lparr>min_producer_sleep_us := n\<rparr>) (atoi value)
      else if key = ''producer_sleep_us'' then map_option (\<lambda>n. c\<lparr>producer_sleep_us := n\<rparr>) (atoi value)
      else if key = ''inkling_sleep_us'' then map_option (\<lambda>n. c\<lparr>inkling_sleep_us := n\<rparr>) (atoi value)
      else if key = ''inkling_sleep_step_us'' then map_option (\<lambda>n. c\<lparr>inkling_sleep_step_us := n\<rparr>) (atoi value)
      else if key = ''inkling_sleep_min_us'' then map_option (\<lambda>n. c\<lparr>inkling_sleep_min_us := n\<rparr>) (atoi value)
      else if key = ''inkling_sleep_max_us'' then map_option (\<lambda>n. c\<lparr>inkling_sleep_max_us := n\<rparr>) (atoi value)
      else if key = ''arg_warning_sleep_s'' then map_option (\<lambda>n. c\<lparr>arg_warning_sleep_s := n\<rparr>) (atoi value)
      else if key = ''shutdown_delay_s'' then map_option (\<lambda>n. c\<lparr>shutdown_delay_s := n\<rparr>) (atoi value)
      else if key = ''event_loop_interval_ms'' then map_option (\<lambda>n. c\<lparr>event_loop_interval_ms := n\<rparr>) (atoi value)
      else if key = ''event_loop_sleep_s'' then map_option (\<lambda>n. c\<lparr>event_loop_sleep_s := n\<rparr>) (atoi value)
      else Some c)"

definition set_event_loop :: "string \<Rightarrow> string \<Rightarrow> EventLoopConfig \<Rightarrow> EventLoopConfig option" where
  "set_event_loop key value c =
     (if key = ''max_recursive_depth'' then map_option (\<lambda>n. c\<lparr>max_recursive_depth := n\<rparr>) (atoi value)
      else Some c)"

definition set_producers :: "string \<Rightarrow> string \<Rightarrow> ProducersConfig \<Rightarrow> ProducersConfig option" where
  "set_producers key value c =
     (if key = ''speedup_factor_num'' then map_option (\<lambda>n. c\<lparr>speedup_factor_num := n\<rparr>) (atoi value)
      else if key = ''speedup_factor_den'' then map_option (\<lambda>n. c\<lparr>speedup_factor_den := n\<rparr>) (atoi value)
      else if key = ''slowdown_factor_num'' then map_option (\<lambda>n. c\<lparr>slowdown_factor_num := n\<rparr>) (atoi value)
      else if key = ''slowdown_factor_den'' then map_option (\<lambda>n. c\<lparr>slowdown_factor_den := n\<rparr>) (atoi value)
      else Some c)"

definition set_io :: "string \<Rightarrow> string \<Rightarrow> IOConfig \<Rightarrow> IOConfig option" where
  "set_io key value c =
     (if key = ''pipe_path'' then Some (c\<lparr>pipe_path := snprintf_s 256 value\<rparr>)
      else Some c)"

definition set_icon :: "string \<Rightarrow> string \<Rightarrow> IconDirectionsConfig \<Rightarrow> IconDirectionsConfig option" where
  "set_icon key value c =
     (if key = ''north'' then Some (c\<lparr>icon_north := snprintf_s 8 value\<rparr>)
      else if key = ''west'' then Some (c\<lparr>icon_west := snprintf_s 8 value\<rparr>)
      else if key = ''south'' then Some (c\<lparr>icon_south := snprintf_s 8 value\<rparr>)
      else if key = ''east'' then Some (c\<lparr>icon_east := snprintf_s 8 value\<rparr>)
      else if key = ''none'' then Some (c\<lparr>icon_none := snprintf_s 8 value\<rparr>)
      else Some c)"

definition set_messages :: "string \<Rightarrow> string \<Rightarrow> MessagesConfig \<Rightarrow> MessagesConfig option" where
  "set_messages key value c =
     (if key = ''ink_tank_header'' then Some (c\<lparr>ink_tank_header := snprintf_s 128 value\<rparr>)
      else if key = ''live_threads_label'' then Some (c\<lparr>live_threads_label := snprintf_s 64 value\<rparr>)
      else if key = ''no_args_message'' then Some (c\<lparr>no_args_message := snprintf_s 256 value\<rparr>)
      else if key = ''quit_no_threads_message'' then Some (c\<lparr>quit_no_threads_message := snprintf_s 256 value\<rparr>)
      else if key = ''quit_esc_message'' then Some (c\<lparr>quit_esc_message := snprintf_s 256 value\<rparr>)
      else if key = ''quit_generic_message'' then Some (c\<lparr>quit_generic_message := snprintf_s 256 value\<rparr>)
      else Some c)"

definition assign :: "Section \<Rightarrow> string \<Rightarrow> string \<Rightarrow> AppConfig \<Rightarrow> AppConfig option" where
  "assign sec key value cfg =
     (case sec of
        SEC_LOGS \<Rightarrow> map_option (\<lambda>c. cfg\<lparr>cfg_logs := c\<rparr>) (set_logs key value (cfg_logs cfg))
      | SEC_SIMULATION \<Rightarrow> map_option (\<lambda>c. cfg\<lparr>cfg_simulation := c\<rparr>) (set_simulation key value (cfg_simulation cfg))
      | SEC_INK \<Rightarrow> map_option (\<lambda>c. cfg\<lparr>cfg_ink := c\<rparr>) (set_ink key value (cfg_ink cfg))
      | SEC_TIMING \<Rightarrow> map_option (\<lambda>c. cfg\<lparr>cfg_timing := c\<rparr>) (set_timing key value (cfg_timing cfg))
      | SEC_EVENT_LOOP \<Rightarrow> map_option (\<lambda>c. cfg\<lparr>cfg_event_loop := c\<rparr>) (set_event_loop key value (cfg_event_loop cfg))
      | SEC_PRODUCERS \<Rightarrow> map_option (\<lambda>c. cfg\<lparr>cfg_producers := c\<rparr>) (set_producers key value (cfg_producers cfg))
      | SEC_IO \<Rightarrow> map_option (\<lambda>c. cfg\<lparr>cfg_io := c\<rparr>) (set_io key value (cfg_io cfg))
      | SEC_UI_ICON \<Rightarrow> map_option (\<lambda>c. cfg\<lparr>cfg_ui := (cfg_ui cfg)\<lparr>icon_directions := c\<rparr>\<rparr>)
          (set_icon key value (icon_directions (cfg_ui cfg)))
      | SEC_UI_MESSAGES \<Rightarrow> map_option (\<lambda>c. cfg\<lparr>cfg_ui := (cfg_ui cfg)\<lparr>messages := c\<rparr>\<rparr>)
          (set_messages key value (messages (cfg_ui cfg)))
      | _ \<Rightarrow> Some cfg)"

section \<open>Lines\<close>

definition top_section :: "string \<Rightarrow> Section option" where
  "top_section p =
     (if has_prefix ''logs:'' p then Some SEC_LOGS
      else if has_prefix ''simulation:'' p then Some SEC_SIMULATION
      else if has_prefix ''ink:'' p then Some SEC_INK
      else if has_prefix ''timing:'' p then Some SEC_TIMING
      else if has_prefix ''event_loop:'' p then Some SEC_EVENT_LOOP
      else if has_prefix ''producers:'' p then Some SEC_PRODUCERS
      else if has_prefix ''io:'' p then Some SEC_IO
      else if has_prefix ''ui:'' p then Some SEC_UI
      else None)"

definition ui_section :: "Section \<Rightarrow> string \<Rightarrow> Section option" where
  "ui_section sec p =
     (if sec = SEC_UI \<and> has_prefix ''icon_directions:'' p then Some SEC_UI_ICON
      else if sec = SEC_UI \<and> has_prefix ''messages:'' p then Some SEC_UI_MESSAGES
      else None)"

definition load_line :: "string \<Rightarrow> Section \<times> AppConfig \<Rightarrow> (Section \<times> AppConfig) option" where
  "load_line line st =
     (case st of (sec, cfg) \<Rightarrow>
        let p = trim (c_string line) in
        if p = [] \<or> hd p = CHR ''#'' then Some st
        else (case top_section p of
          Some sec' \<Rightarrow> Some (sec', cfg)
        | None \<Rightarrow>
            (case ui_section sec p of
               Some sec' \<Rightarrow> Some (sec', cfg)
             | None \<Rightarrow>
                 if CHR '':'' \<notin> set p then Some st
                 else
                   (let key = trim (takeWhile (\<lambda>c. c \<noteq> CHR '':'') p);
                        value = strip_quotes (trim (tl (dropWhile (\<lambda>c. c \<noteq> CHR '':'') p)))
                    in map_option (Pair sec) (assign sec key value cfg)))))"

text \<open>The loop over \<open>fgets\<close>, with its buffer of 512 bytes.\<close>

function load_text :: "string \<Rightarrow> Section \<times> AppConfig \<Rightarrow> (Section \<times> AppConfig) option" where
  "load_text file st =
     (if file = [] then Some st
      else
        let (line, rest) = fgets_chars 511 file in
        case load_line line st of None \<Rightarrow> None | Some st' \<Rightarrow> load_text rest st')"
  by pat_completeness auto
termination
proof (relation "measure (\<lambda>(file, st). length file)")
  fix tx :: string and st x line rest
  assume "tx \<noteq> []" "x = fgets_chars 511 tx" "(line, rest) = x"
  then have "fgets_chars (Suc 510) (hd tx # tl tx) = (line, rest)" by simp
  from fgets_chars_progress [OF this] \<open>tx \<noteq> []\<close>
  show "((rest, st'), tx, st) \<in> measure (\<lambda>(file, st). length file)" for st' :: "Section \<times> AppConfig"
    by simp
qed simp

declare load_text.simps [simp del]

section \<open>Files\<close>

datatype 'a prog_result = Exit int | Return 'a | Undefined

record filesystem =
  getcwd :: "string option"
  opendir :: "string \<Rightarrow> bool"
  fopen :: "string \<Rightarrow> string option"

definition PATH_MAX :: nat where "PATH_MAX = 4096"

definition candidates :: "string list" where
  "candidates = [[], ''..'', ''../..'']"

definition candidate_path :: "string \<Rightarrow> string \<Rightarrow> string \<Rightarrow> string" where
  "candidate_path cwd cand name =
     snprintf_s PATH_MAX (if cand = [] then cwd @ ''/'' @ name else cwd @ ''/'' @ cand @ ''/'' @ name)"

fun try_candidates :: "filesystem \<Rightarrow> string \<Rightarrow> string \<Rightarrow> string list \<Rightarrow> string option" where
  "try_candidates fs cwd name [] = None"
| "try_candidates fs cwd name (cand # cs) =
     (let candidate = candidate_path cwd cand name in
      if opendir fs candidate then Some candidate else try_candidates fs cwd name cs)"

definition find_relative_dir :: "filesystem \<Rightarrow> string \<Rightarrow> nat \<Rightarrow> string prog_result" where
  "find_relative_dir fs name out_sz =
     (case getcwd fs of
        None \<Rightarrow> Exit 1
      | Some cwd \<Rightarrow>
          (case try_candidates fs cwd name candidates of
             None \<Rightarrow> Exit 1 | Some candidate \<Rightarrow> Return (snprintf_s out_sz candidate)))"

definition load_config :: "filesystem \<Rightarrow> AppConfig \<Rightarrow> (int \<times> AppConfig) prog_result" where
  "load_config fs cfg =
     (case find_relative_dir fs ''config'' PATH_MAX of
        Exit e \<Rightarrow> Exit e
      | Undefined \<Rightarrow> Undefined
      | Return config_dir \<Rightarrow>
          (case fopen fs (snprintf_s PATH_MAX (config_dir @ ''/'' @ ''inklings_config.yaml'')) of
             None \<Rightarrow> Return (- 1, cfg)
           | Some file \<Rightarrow>
               (case load_text file (SEC_NONE, zero_config) of
                  None \<Rightarrow> Undefined
                | Some (_, cfg') \<Rightarrow> Return (0, cfg'))))"

section \<open>The loop as a run over lines\<close>

function file_lines :: "string \<Rightarrow> string list" where
  "file_lines file = (if file = [] then [] else (let (line, rest) = fgets_chars 511 file in line # file_lines rest))"
  by pat_completeness auto
termination
proof (relation "measure length")
  fix tx :: string and x line rest
  assume "tx \<noteq> []" "x = fgets_chars 511 tx" "(line, rest) = x"
  then have "fgets_chars (Suc 510) (hd tx # tl tx) = (line, rest)" by simp
  from fgets_chars_progress [OF this] \<open>tx \<noteq> []\<close> show "(rest, tx) \<in> measure length" by simp
qed simp

declare file_lines.simps [simp del]

fun load_lines :: "string list \<Rightarrow> Section \<times> AppConfig \<Rightarrow> (Section \<times> AppConfig) option" where
  "load_lines [] st = Some st"
| "load_lines (l # ls) st = (case load_line l st of None \<Rightarrow> None | Some st' \<Rightarrow> load_lines ls st')"

lemma load_text_lines: "load_text tx st = load_lines (file_lines tx) st"
proof (induction tx st rule: load_text.induct)
  case (1 tx st)
  obtain l r where lr: "fgets_chars 511 tx = (l, r)" by (cases "fgets_chars 511 tx")
  show ?case
  proof (cases "tx = []")
    case False
    then have "load_text tx st = (case load_line l st of None \<Rightarrow> None | Some st' \<Rightarrow> load_text r st')"
      by (subst load_text.simps) (simp add: lr)
    moreover have "file_lines tx = l # file_lines r"
      using False by (subst file_lines.simps) (simp add: lr)
    ultimately show ?thesis using 1 [OF False lr [symmetric] refl] by (auto split: option.splits)
  qed (simp add: load_text.simps file_lines.simps)
qed

lemma load_lines_append:
  "load_lines (xs @ ys) st = (case load_lines xs st of None \<Rightarrow> None | Some st' \<Rightarrow> load_lines ys st')"
  by (induction xs arbitrary: st) (auto split: option.splits)

lemma file_lines_concat:
  "\<forall>l\<in>set ls. \<exists>s. l = s @ [CHR 0x0A] \<and> CHR 0x0A \<notin> set s \<and> length s < 511 \<Longrightarrow> file_lines (concat ls) = ls"
proof (induction ls)
  case (Cons l ls)
  then obtain s where s: "l = s @ [CHR 0x0A]" "CHR 0x0A \<notin> set s" "length s < 511" by auto
  then have "fgets_chars 511 (concat (l # ls)) = (l, concat ls)"
    using fgets_chars_line [of s 511 "concat ls"] by simp
  moreover have "concat (l # ls) \<noteq> []" using s by simp
  ultimately show ?case using Cons by (subst file_lines.simps) (simp del: concat.simps)
qed (simp add: file_lines.simps)

section \<open>Buffers and integers stay in bounds\<close>

definition logs_ok :: "LogsConfig \<Rightarrow> bool" where
  "logs_ok c \<longleftrightarrow> length (log_dir c) < 256 \<and>
     length (log_actions c) < 256"

definition simulation_ok :: "SimulationConfig \<Rightarrow> bool" where
  "simulation_ok c \<longleftrightarrow> int_ok (default_rows c) \<and>
     int_ok (default_cols c) \<and>
     int_ok (min_rows c) \<and>
     int_ok (min_cols c) \<and>
     int_ok (min_threads c) \<and>
     int_ok (default_threads c) \<and>
     int_ok (draw_colored_traveler_heads c)"

definition ink_ok :: "InkConfig \<Rightarrow> bool" where
  "ink_ok c \<longleftrightarrow> int_ok (max_level c) \<and>
     int_ok (max_add_ink c) \<and>
     int_ok (refill_ink c) \<and>
     int_ok (initial_red_level c) \<and>
     int_ok (initial_green_level c) \<and>
     int_ok (initial_blue_level c)"

definition timing_ok :: "TimingConfig \<Rightarrow> bool" where
  "timing_ok c \<longleftrightarrow> int_ok (min_producer_sleep_us c) \<and>
     int_ok (producer_sleep_us c) \<and>
     int_ok (inkling_sleep_us c) \<and>
     int_ok (inkling_sleep_step_us c) \<and>
     int_ok (inkling_sleep_min_us c) \<and>
     int_ok (inkling_sleep_max_us c) \<and>
     int_ok (arg_warning_sleep_s c) \<and>
     int_ok (shutdown_delay_s c) \<and>
     int_ok (event_loop_interval_ms c) \<and>
     int_ok (event_loop_sleep_s c)"

definition event_loop_ok :: "EventLoopConfig \<Rightarrow> bool" where
  "event_loop_ok c \<longleftrightarrow> int_ok (max_recursive_depth c)"

definition producers_ok :: "ProducersConfig \<Rightarrow> bool" where
  "producers_ok c \<longleftrightarrow> int_ok (speedup_factor_num c) \<and>
     int_ok (speedup_factor_den c) \<and>
     int_ok (slowdown_factor_num c) \<and>
     int_ok (slowdown_factor_den c)"

definition io_ok :: "IOConfig \<Rightarrow> bool" where
  "io_ok c \<longleftrightarrow> length (pipe_path c) < 256"

definition icon_ok :: "IconDirectionsConfig \<Rightarrow> bool" where
  "icon_ok c \<longleftrightarrow> length (icon_north c) < 8 \<and>
     length (icon_west c) < 8 \<and>
     length (icon_south c) < 8 \<and>
     length (icon_east c) < 8 \<and>
     length (icon_none c) < 8"

definition messages_ok :: "MessagesConfig \<Rightarrow> bool" where
  "messages_ok c \<longleftrightarrow> length (ink_tank_header c) < 128 \<and>
     length (live_threads_label c) < 64 \<and>
     length (no_args_message c) < 256 \<and>
     length (quit_no_threads_message c) < 256 \<and>
     length (quit_esc_message c) < 256 \<and>
     length (quit_generic_message c) < 256"

definition config_ok :: "AppConfig \<Rightarrow> bool" where
  "config_ok cfg \<longleftrightarrow> logs_ok (cfg_logs cfg) \<and> simulation_ok (cfg_simulation cfg) \<and> ink_ok (cfg_ink cfg) \<and>
     timing_ok (cfg_timing cfg) \<and> event_loop_ok (cfg_event_loop cfg) \<and> producers_ok (cfg_producers cfg) \<and>
     io_ok (cfg_io cfg) \<and> icon_ok (icon_directions (cfg_ui cfg)) \<and> messages_ok (messages (cfg_ui cfg))"

lemma parse_bool_or_int_ok: "parse_bool_or_int v = Some n \<Longrightarrow> int_ok n"
  by (auto simp: parse_bool_or_int_def int_ok_def dest: atoi_int_ok split: if_splits)

lemma snprintf_bound [simp]: "0 < n \<Longrightarrow> length (snprintf_s n v) < n"
  by (rule length_snprintf_s)

lemmas setter_ok_defs = logs_ok_def simulation_ok_def ink_ok_def timing_ok_def event_loop_ok_def
  producers_ok_def io_ok_def icon_ok_def messages_ok_def

lemma set_logs_ok: "logs_ok c \<Longrightarrow> set_logs k v c = Some c' \<Longrightarrow> logs_ok c'"
  by (auto simp: set_logs_def logs_ok_def dest: atoi_int_ok parse_bool_or_int_ok split: if_splits)

lemma set_simulation_ok: "simulation_ok c \<Longrightarrow> set_simulation k v c = Some c' \<Longrightarrow> simulation_ok c'"
  by (auto simp: set_simulation_def simulation_ok_def dest: atoi_int_ok parse_bool_or_int_ok split: if_splits)

lemma set_ink_ok: "ink_ok c \<Longrightarrow> set_ink k v c = Some c' \<Longrightarrow> ink_ok c'"
  by (auto simp: set_ink_def ink_ok_def dest: atoi_int_ok parse_bool_or_int_ok split: if_splits)

lemma set_timing_ok: "timing_ok c \<Longrightarrow> set_timing k v c = Some c' \<Longrightarrow> timing_ok c'"
  by (auto simp: set_timing_def timing_ok_def dest: atoi_int_ok parse_bool_or_int_ok split: if_splits)

lemma set_event_loop_ok: "event_loop_ok c \<Longrightarrow> set_event_loop k v c = Some c' \<Longrightarrow> event_loop_ok c'"
  by (auto simp: set_event_loop_def event_loop_ok_def dest: atoi_int_ok parse_bool_or_int_ok split: if_splits)

lemma set_producers_ok: "producers_ok c \<Longrightarrow> set_producers k v c = Some c' \<Longrightarrow> producers_ok c'"
  by (auto simp: set_producers_def producers_ok_def dest: atoi_int_ok parse_bool_or_int_ok split: if_splits)

lemma set_io_ok: "io_ok c \<Longrightarrow> set_io k v c = Some c' \<Longrightarrow> io_ok c'"
  by (auto simp: set_io_def io_ok_def dest: atoi_int_ok parse_bool_or_int_ok split: if_splits)

lemma set_icon_ok: "icon_ok c \<Longrightarrow> set_icon k v c = Some c' \<Longrightarrow> icon_ok c'"
  by (auto simp: set_icon_def icon_ok_def dest: atoi_int_ok parse_bool_or_int_ok split: if_splits)

lemma set_messages_ok: "messages_ok c \<Longrightarrow> set_messages k v c = Some c' \<Longrightarrow> messages_ok c'"
  by (auto simp: set_messages_def messages_ok_def dest: atoi_int_ok parse_bool_or_int_ok split: if_splits)

lemma assign_ok: "config_ok cfg \<Longrightarrow> assign sec k v cfg = Some cfg' \<Longrightarrow> config_ok cfg'"
  by (cases sec) (auto simp: assign_def config_ok_def dest: set_logs_ok set_simulation_ok set_ink_ok set_timing_ok
      set_event_loop_ok set_producers_ok set_io_ok set_icon_ok set_messages_ok)

lemma load_line_ok: "config_ok cfg \<Longrightarrow> load_line l (sec, cfg) = Some (sec', cfg') \<Longrightarrow> config_ok cfg'"
  by (auto simp: load_line_def Let_def dest: assign_ok split: if_splits option.splits)

lemma load_lines_ok: "config_ok cfg \<Longrightarrow> load_lines ls (sec, cfg) = Some (sec', cfg') \<Longrightarrow> config_ok cfg'"
  by (induction ls arbitrary: sec cfg) (auto dest: load_line_ok split: option.splits)

lemma zero_config_ok: "config_ok zero_config"
  by (simp add: zero_config_def config_ok_def setter_ok_defs int_ok_def)

section \<open>Writing a configuration\<close>

text \<open>
  A text for every configuration: one header per section, one line per field, strings in quotes.
  The header \<open>ui:\<close> is repeated before \<open>messages:\<close>, which is only recognised right after it.
\<close>

definition kv :: "string \<Rightarrow> string \<Rightarrow> string" where
  "kv key v = ''  '' @ key @ '': '' @ v @ [CHR 0x0A]"

definition header :: "string \<Rightarrow> string" where
  "header name = name @ '':'' @ [CHR 0x0A]"

definition quoted :: "string \<Rightarrow> string" where
  "quoted v = CHR 0x22 # v @ [CHR 0x22]"

definition logs_lines :: "LogsConfig \<Rightarrow> string list" where
  "logs_lines c =
     [header ''logs'',
      kv ''dir'' (quoted (log_dir c)),
      kv ''actions'' (quoted (log_actions c))]"

definition simulation_lines :: "SimulationConfig \<Rightarrow> string list" where
  "simulation_lines c =
     [header ''simulation'',
      kv ''default_rows'' (show_int (default_rows c)),
      kv ''default_cols'' (show_int (default_cols c)),
      kv ''min_rows'' (show_int (min_rows c)),
      kv ''min_cols'' (show_int (min_cols c)),
      kv ''min_threads'' (show_int (min_threads c)),
      kv ''default_threads'' (show_int (default_threads c)),
      kv ''draw_colored_traveler_heads'' (show_int (draw_colored_traveler_heads c))]"

definition ink_lines :: "InkConfig \<Rightarrow> string list" where
  "ink_lines c =
     [header ''ink'',
      kv ''max_level'' (show_int (max_level c)),
      kv ''max_add_ink'' (show_int (max_add_ink c)),
      kv ''refill_ink'' (show_int (refill_ink c)),
      kv ''initial_red_level'' (show_int (initial_red_level c)),
      kv ''initial_green_level'' (show_int (initial_green_level c)),
      kv ''initial_blue_level'' (show_int (initial_blue_level c))]"

definition timing_lines :: "TimingConfig \<Rightarrow> string list" where
  "timing_lines c =
     [header ''timing'',
      kv ''min_producer_sleep_us'' (show_int (min_producer_sleep_us c)),
      kv ''producer_sleep_us'' (show_int (producer_sleep_us c)),
      kv ''inkling_sleep_us'' (show_int (inkling_sleep_us c)),
      kv ''inkling_sleep_step_us'' (show_int (inkling_sleep_step_us c)),
      kv ''inkling_sleep_min_us'' (show_int (inkling_sleep_min_us c)),
      kv ''inkling_sleep_max_us'' (show_int (inkling_sleep_max_us c)),
      kv ''arg_warning_sleep_s'' (show_int (arg_warning_sleep_s c)),
      kv ''shutdown_delay_s'' (show_int (shutdown_delay_s c)),
      kv ''event_loop_interval_ms'' (show_int (event_loop_interval_ms c)),
      kv ''event_loop_sleep_s'' (show_int (event_loop_sleep_s c))]"

definition event_loop_lines :: "EventLoopConfig \<Rightarrow> string list" where
  "event_loop_lines c =
     [header ''event_loop'',
      kv ''max_recursive_depth'' (show_int (max_recursive_depth c))]"

definition producers_lines :: "ProducersConfig \<Rightarrow> string list" where
  "producers_lines c =
     [header ''producers'',
      kv ''speedup_factor_num'' (show_int (speedup_factor_num c)),
      kv ''speedup_factor_den'' (show_int (speedup_factor_den c)),
      kv ''slowdown_factor_num'' (show_int (slowdown_factor_num c)),
      kv ''slowdown_factor_den'' (show_int (slowdown_factor_den c))]"

definition io_lines :: "IOConfig \<Rightarrow> string list" where
  "io_lines c =
     [header ''io'',
      kv ''pipe_path'' (quoted (pipe_path c))]"

definition icon_lines :: "IconDirectionsConfig \<Rightarrow> string list" where
  "icon_lines c =
     [header ''ui'', header ''icon_directions'',
      kv ''north'' (quoted (icon_north c)),
      kv ''west'' (quoted (icon_west c)),
      kv ''south'' (quoted (icon_south c)),
      kv ''east'' (quoted (icon_east c)),
      kv ''none'' (quoted (icon_none c))]"

definition messages_lines :: "MessagesConfig \<Rightarrow> string list" where
  "messages_lines c =
     [header ''ui'', header ''messages'',
      kv ''ink_tank_header'' (quoted (ink_tank_header c)),
      kv ''live_threads_label'' (quoted (live_threads_label c)),
      kv ''no_args_message'' (quoted (no_args_message c)),
      kv ''quit_no_threads_message'' (quoted (quit_no_threads_message c)),
      kv ''quit_esc_message'' (quoted (quit_esc_message c)),
      kv ''quit_generic_message'' (quoted (quit_generic_message c))]"

definition render :: "AppConfig \<Rightarrow> string" where
  "render cfg = concat (logs_lines (cfg_logs cfg) @
     simulation_lines (cfg_simulation cfg) @
     ink_lines (cfg_ink cfg) @
     timing_lines (cfg_timing cfg) @
     event_loop_lines (cfg_event_loop cfg) @
     producers_lines (cfg_producers cfg) @
     io_lines (cfg_io cfg) @
     icon_lines (icon_directions (cfg_ui cfg)) @
     messages_lines (messages (cfg_ui cfg)))"

text \<open>The strings a line of text can hold: no line break, no zero.\<close>

definition plain :: "string \<Rightarrow> bool" where
  "plain v \<longleftrightarrow> CHR 0x0A \<notin> set v \<and> CHR 0x00 \<notin> set v"

definition config_plain :: "AppConfig \<Rightarrow> bool" where
  "config_plain cfg \<longleftrightarrow> (\<forall>v\<in>set [log_dir (cfg_logs cfg),
       log_actions (cfg_logs cfg),
       pipe_path (cfg_io cfg),
       icon_north (icon_directions (cfg_ui cfg)),
       icon_west (icon_directions (cfg_ui cfg)),
       icon_south (icon_directions (cfg_ui cfg)),
       icon_east (icon_directions (cfg_ui cfg)),
       icon_none (icon_directions (cfg_ui cfg)),
       ink_tank_header (messages (cfg_ui cfg)),
       live_threads_label (messages (cfg_ui cfg)),
       no_args_message (messages (cfg_ui cfg)),
       quit_no_threads_message (messages (cfg_ui cfg)),
       quit_esc_message (messages (cfg_ui cfg)),
       quit_generic_message (messages (cfg_ui cfg))]. plain v)"

subsection \<open>Reading one written line\<close>

lemma has_prefix_simps [simp]:
  "has_prefix [] s" "has_prefix (a # as) [] = False" "has_prefix (a # as) (b # bs) \<longleftrightarrow> a = b \<and> has_prefix as bs"
  by (auto simp: has_prefix_def)

lemma dropWhile_pad: "\<forall>c\<in>set b. P c \<Longrightarrow> s \<noteq> [] \<Longrightarrow> \<not> P (hd s) \<Longrightarrow> dropWhile P (b @ s) = s"
  by (cases s) (simp_all add: dropWhile_append2)

lemma trim_pad:
  assumes "\<forall>c\<in>set a. isspace c" "\<forall>c\<in>set b. isspace c" "s \<noteq> []" "\<not> isspace (hd s)" "\<not> isspace (last s)"
  shows "trim (a @ s @ b) = s"
proof -
  have "dropWhile isspace (a @ (s @ b)) = s @ b" using assms by (intro dropWhile_pad) auto
  moreover have "dropWhile isspace (rev b @ rev s) = rev s"
    using assms by (intro dropWhile_pad) (auto simp: hd_rev)
  ultimately show ?thesis by (simp add: trim_def)
qed

lemma trim_core: "s \<noteq> [] \<Longrightarrow> \<not> isspace (hd s) \<Longrightarrow> \<not> isspace (last s) \<Longrightarrow> trim s = s"
  using trim_pad [of "[]" "[]" s] by simp

lemma load_line_kv:
  assumes key: "key \<noteq> []" "\<forall>c\<in>set key. \<not> isspace c \<and> c \<notin> {CHR '':'', CHR ''#'', CHR 0x00}"
    and v: "v \<noteq> []" "\<not> isspace (hd v)" "\<not> isspace (last v)" "CHR 0x00 \<notin> set v"
    and sec: "top_section (key @ '': '' @ v) = None" "ui_section sec (key @ '': '' @ v) = None"
  shows "load_line (kv key v) (sec, cfg) = map_option (Pair sec) (assign sec key (strip_quotes v) cfg)"
proof -
  have "CHR 0x00 \<notin> set (kv key v)" using key v by (auto simp: kv_def)
  then have c: "c_string (kv key v) = kv key v" by (auto simp: c_string_def takeWhile_eq_all_conv)
  have t: "trim (kv key v) = key @ '': '' @ v"
    unfolding kv_def using key v trim_pad [of "''  ''" "[CHR 0x0A]" "key @ '': '' @ v"]
    by (auto simp: isspace_def)
  have k: "takeWhile (\<lambda>c. c \<noteq> CHR '':'') (key @ '': '' @ v) = key"
    "dropWhile (\<lambda>c. c \<noteq> CHR '':'') (key @ '': '' @ v) = '': '' @ v"
    using key by (simp_all add: takeWhile_append2 dropWhile_append2)
  have tk: "trim key = key" using key by (intro trim_core) (auto simp: last_in_set)
  have tv: "trim ('' '' @ v) = v"
    using v trim_pad [of "'' ''" "[]" v] by (simp add: isspace_def)
  have "hd (key @ '': '' @ v) \<noteq> CHR ''#''" using key by (cases key) auto
  with sec k tk tv key show ?thesis
    by (simp add: load_line_def c t Let_def)
qed

lemma strip_quotes_quoted [simp]: "strip_quotes (quoted v) = v"
  by (simp add: strip_quotes_def quoted_def nth_append)

lemma trim_header:
  assumes "name \<noteq> []" "\<forall>c\<in>set name. \<not> isspace c \<and> c \<notin> {CHR ''#'', CHR 0x00}"
  shows "trim (c_string (header name)) = name @ '':''" "hd (name @ '':'') \<noteq> CHR ''#''"
proof -
  have "CHR 0x00 \<notin> set (header name)" using assms by (auto simp: header_def)
  then have "c_string (header name) = header name" by (auto simp: c_string_def takeWhile_eq_all_conv)
  then show "trim (c_string (header name)) = name @ '':''"
    unfolding header_def using assms trim_pad [of "[]" "[CHR 0x0A]" "name @ '':''"] by (auto simp: isspace_def)
  show "hd (name @ '':'') \<noteq> CHR ''#''" using assms by (cases name) auto
qed

lemma load_line_header:
  assumes "top_section (name @ '':'') = Some sec'" "name \<noteq> []" "\<forall>c\<in>set name. \<not> isspace c \<and> c \<notin> {CHR ''#'', CHR 0x00}"
  shows "load_line (header name) (sec, cfg) = Some (sec', cfg)"
  using assms(1) trim_header [OF assms(2,3)] by (simp add: load_line_def)

lemma load_line_ui_header:
  assumes "top_section (name @ '':'') = None" "ui_section sec (name @ '':'') = Some sec'" "name \<noteq> []"
    "\<forall>c\<in>set name. \<not> isspace c \<and> c \<notin> {CHR ''#'', CHR 0x00}"
  shows "load_line (header name) (sec, cfg) = Some (sec', cfg)"
  using assms(1,2) trim_header [OF assms(3,4)] by (simp add: load_line_def)

definition number_start :: "string \<Rightarrow> bool" where
  "number_start v \<longleftrightarrow> v \<noteq> [] \<and> (isdigit (hd v) \<or> hd v = CHR ''-'') \<and> (\<forall>c\<in>set v. isdigit c \<or> c = CHR ''-'')"

lemma show_int_number: "number_start (show_int n)"
proof -
  have "isdigit (hd (show_nat m))" for m by (rule show_nat_digits [OF hd_in_set]) simp
  then show ?thesis by (auto simp: number_start_def show_int_def dest: show_nat_digits)
qed

lemma number_chars: "isdigit c \<or> c = CHR ''-'' \<Longrightarrow> \<not> isspace c \<and> c \<noteq> CHR 0x00 \<and> c \<noteq> CHR 0x22 \<and> c \<noteq> CHR 0x0A \<and> tolower c = c"
  by (auto simp: isdigit_def isspace_def tolower_def)

lemma strip_quotes_number: "number_start v \<Longrightarrow> strip_quotes v = v"
  using number_chars [of "hd v"] by (cases v) (auto simp: strip_quotes_def number_start_def)

lemma parse_bool_or_int_show [simp]: "int_ok n \<Longrightarrow> parse_bool_or_int (show_int n) = Some n"
proof -
  assume n: "int_ok n"
  obtain c r where c: "show_int n = c # r" "isdigit c \<or> c = CHR ''-''"
    using show_int_number [of n] by (cases "show_int n") (auto simp: number_start_def)
  have "tolower c \<noteq> CHR ''t''" "tolower c \<noteq> CHR ''f''"
    using number_chars [OF c(2)] c(2) by (auto simp: isdigit_def)
  moreover have "tolower CHR ''t'' = CHR ''t''" "tolower CHR ''f'' = CHR ''f''" by (simp_all add: tolower_def)
  ultimately have "\<not> strcaseeq (show_int n) ''true''" "\<not> strcaseeq (show_int n) ''false''"
    by (simp_all add: strcaseeq_def c)
  with n show ?thesis by (simp add: parse_bool_or_int_def)
qed

definition key_ok :: "string \<Rightarrow> bool" where
  "key_ok key \<longleftrightarrow> key \<noteq> [] \<and> (\<forall>c\<in>set key. \<not> isspace c \<and> c \<notin> {CHR '':'', CHR ''#'', CHR 0x00, CHR 0x0A})"

lemma load_line_int:
  assumes "key_ok key" "top_section (key @ '': '' @ show_int n) = None" "ui_section sec (key @ '': '' @ show_int n) = None"
  shows "load_line (kv key (show_int n)) (sec, cfg) = map_option (Pair sec) (assign sec key (show_int n) cfg)"
proof -
  have v: "number_start (show_int n)" by (rule show_int_number)
  have "last (show_int n) \<in> set (show_int n)" using v by (auto simp: number_start_def)
  with v have "\<not> isspace (hd (show_int n))" "\<not> isspace (last (show_int n))" "CHR 0x00 \<notin> set (show_int n)"
    using number_chars by (auto simp: number_start_def)
  with assms v show ?thesis
    by (subst load_line_kv) (auto simp: key_ok_def number_start_def strip_quotes_number [OF v])
qed

lemma load_line_string:
  assumes "key_ok key" "plain v" "top_section (key @ '': '' @ quoted v) = None" "ui_section sec (key @ '': '' @ quoted v) = None"
  shows "load_line (kv key (quoted v)) (sec, cfg) = map_option (Pair sec) (assign sec key v cfg)"
proof -
  have "\<not> isspace (hd (quoted v))" "\<not> isspace (last (quoted v))" "CHR 0x00 \<notin> set (quoted v)" "quoted v \<noteq> []"
    using assms(2) by (auto simp: quoted_def isspace_def plain_def)
  with assms show ?thesis by (subst load_line_kv) (auto simp: key_ok_def)
qed

lemmas line_simps = load_line_int load_line_string load_line_header load_line_ui_header

lemma load_logs_lines:
  assumes "logs_ok c" "plain (log_dir c)" "plain (log_actions c)"
  shows "load_lines (logs_lines c) (sec, cfg) = Some (SEC_LOGS, cfg\<lparr>cfg_logs := c\<rparr>)"
  using assms
  by (simp add: logs_lines_def line_simps key_ok_def isspace_def top_section_def ui_section_def logs_ok_def
      assign_def set_logs_def)

lemma load_simulation_lines:
  assumes "simulation_ok c" 
  shows "load_lines (simulation_lines c) (sec, cfg) = Some (SEC_SIMULATION, cfg\<lparr>cfg_simulation := c\<rparr>)"
  using assms
  by (simp add: simulation_lines_def line_simps key_ok_def isspace_def top_section_def ui_section_def simulation_ok_def
      assign_def set_simulation_def)

lemma load_ink_lines:
  assumes "ink_ok c" 
  shows "load_lines (ink_lines c) (sec, cfg) = Some (SEC_INK, cfg\<lparr>cfg_ink := c\<rparr>)"
  using assms
  by (simp add: ink_lines_def line_simps key_ok_def isspace_def top_section_def ui_section_def ink_ok_def
      assign_def set_ink_def)

lemma load_timing_lines:
  assumes "timing_ok c" 
  shows "load_lines (timing_lines c) (sec, cfg) = Some (SEC_TIMING, cfg\<lparr>cfg_timing := c\<rparr>)"
  using assms
  by (simp add: timing_lines_def line_simps key_ok_def isspace_def top_section_def ui_section_def timing_ok_def
      assign_def set_timing_def)

lemma load_event_loop_lines:
  assumes "event_loop_ok c" 
  shows "load_lines (event_loop_lines c) (sec, cfg) = Some (SEC_EVENT_LOOP, cfg\<lparr>cfg_event_loop := c\<rparr>)"
  using assms
  by (simp add: event_loop_lines_def line_simps key_ok_def isspace_def top_section_def ui_section_def event_loop_ok_def
      assign_def set_event_loop_def)

lemma load_producers_lines:
  assumes "producers_ok c" 
  shows "load_lines (producers_lines c) (sec, cfg) = Some (SEC_PRODUCERS, cfg\<lparr>cfg_producers := c\<rparr>)"
  using assms
  by (simp add: producers_lines_def line_simps key_ok_def isspace_def top_section_def ui_section_def producers_ok_def
      assign_def set_producers_def)

lemma load_io_lines:
  assumes "io_ok c" "plain (pipe_path c)"
  shows "load_lines (io_lines c) (sec, cfg) = Some (SEC_IO, cfg\<lparr>cfg_io := c\<rparr>)"
  using assms
  by (simp add: io_lines_def line_simps key_ok_def isspace_def top_section_def ui_section_def io_ok_def
      assign_def set_io_def)

lemma load_icon_lines:
  assumes "icon_ok c" "plain (icon_north c)" "plain (icon_west c)" "plain (icon_south c)" "plain (icon_east c)" "plain (icon_none c)"
  shows "load_lines (icon_lines c) (sec, cfg) = Some (SEC_UI_ICON, cfg\<lparr>cfg_ui := (cfg_ui cfg)\<lparr>icon_directions := c\<rparr>\<rparr>)"
  using assms
  by (simp add: icon_lines_def line_simps key_ok_def isspace_def top_section_def ui_section_def icon_ok_def
      assign_def set_icon_def)

lemma load_messages_lines:
  assumes "messages_ok c" "plain (ink_tank_header c)" "plain (live_threads_label c)" "plain (no_args_message c)" "plain (quit_no_threads_message c)" "plain (quit_esc_message c)" "plain (quit_generic_message c)"
  shows "load_lines (messages_lines c) (sec, cfg) = Some (SEC_UI_MESSAGES, cfg\<lparr>cfg_ui := (cfg_ui cfg)\<lparr>messages := c\<rparr>\<rparr>)"
  using assms
  by (simp add: messages_lines_def line_simps key_ok_def isspace_def top_section_def ui_section_def messages_ok_def
      assign_def set_messages_def)

subsection \<open>Reading the whole text\<close>

lemma length_show_nat: "0 < k \<Longrightarrow> n < 10 ^ k \<Longrightarrow> length (show_nat n) \<le> k"
proof (induction k arbitrary: n)
  case (Suc k)
  show ?case
  proof (cases "n < 10")
    case False
    then have "n div 10 < 10 ^ k" "0 < k" using Suc.prems by (auto simp: less_mult_imp_div_less intro: Nat.gr0I)
    with Suc.IH [of "n div 10"] False show ?thesis by (subst show_nat.simps) simp
  qed (simp add: show_nat.simps [of n])
qed simp

lemma length_show_int: "int_ok n \<Longrightarrow> length (show_int n) \<le> 11"
proof -
  assume "int_ok n"
  then have "nat \<bar>n\<bar> < 10 ^ 10" by (auto simp: int_ok_def)
  from length_show_nat [OF _ this] show ?thesis by (cases "n < 0") (simp_all add: show_int_def)
qed

definition line_ok :: "string \<Rightarrow> bool" where
  "line_ok l \<longleftrightarrow> (\<exists>s. l = s @ [CHR 0x0A] \<and> CHR 0x0A \<notin> set s \<and> length s < 511)"

lemma line_ok_header: "key_ok name \<Longrightarrow> length name < 100 \<Longrightarrow> line_ok (header name)"
  unfolding line_ok_def by (rule exI [of _ "name @ '':''"]) (auto simp: header_def key_ok_def)

lemma line_ok_int: "key_ok key \<Longrightarrow> length key < 100 \<Longrightarrow> int_ok n \<Longrightarrow> line_ok (kv key (show_int n))"
  using length_show_int [of n] show_int_number [of n] number_chars [of "CHR 0x0A"] unfolding line_ok_def
  by (intro exI [of _ "''  '' @ key @ '': '' @ show_int n"]) (auto simp: kv_def key_ok_def number_start_def)

lemma line_ok_string: "key_ok key \<Longrightarrow> length key < 100 \<Longrightarrow> plain v \<Longrightarrow> length v < 256 \<Longrightarrow> line_ok (kv key (quoted v))"
  unfolding line_ok_def
  by (intro exI [of _ "''  '' @ key @ '': '' @ quoted v"]) (auto simp: kv_def key_ok_def quoted_def plain_def)

lemmas line_oks = line_ok_header line_ok_int line_ok_string

lemma logs_lines_ok:
  assumes "logs_ok c" "plain (log_dir c)" "plain (log_actions c)"
  shows "\<forall>l\<in>set (logs_lines c). line_ok l"
  using assms by (simp add: logs_lines_def line_oks key_ok_def isspace_def logs_ok_def)

lemma simulation_lines_ok:
  assumes "simulation_ok c" 
  shows "\<forall>l\<in>set (simulation_lines c). line_ok l"
  using assms by (simp add: simulation_lines_def line_oks key_ok_def isspace_def simulation_ok_def)

lemma ink_lines_ok:
  assumes "ink_ok c" 
  shows "\<forall>l\<in>set (ink_lines c). line_ok l"
  using assms by (simp add: ink_lines_def line_oks key_ok_def isspace_def ink_ok_def)

lemma timing_lines_ok:
  assumes "timing_ok c" 
  shows "\<forall>l\<in>set (timing_lines c). line_ok l"
  using assms by (simp add: timing_lines_def line_oks key_ok_def isspace_def timing_ok_def)

lemma event_loop_lines_ok:
  assumes "event_loop_ok c" 
  shows "\<forall>l\<in>set (event_loop_lines c). line_ok l"
  using assms by (simp add: event_loop_lines_def line_oks key_ok_def isspace_def event_loop_ok_def)

lemma producers_lines_ok:
  assumes "producers_ok c" 
  shows "\<forall>l\<in>set (producers_lines c). line_ok l"
  using assms by (simp add: producers_lines_def line_oks key_ok_def isspace_def producers_ok_def)

lemma io_lines_ok:
  assumes "io_ok c" "plain (pipe_path c)"
  shows "\<forall>l\<in>set (io_lines c). line_ok l"
  using assms by (simp add: io_lines_def line_oks key_ok_def isspace_def io_ok_def)

lemma icon_lines_ok:
  assumes "icon_ok c" "plain (icon_north c)" "plain (icon_west c)" "plain (icon_south c)" "plain (icon_east c)" "plain (icon_none c)"
  shows "\<forall>l\<in>set (icon_lines c). line_ok l"
  using assms by (simp add: icon_lines_def line_oks key_ok_def isspace_def icon_ok_def)

lemma messages_lines_ok:
  assumes "messages_ok c" "plain (ink_tank_header c)" "plain (live_threads_label c)" "plain (no_args_message c)" "plain (quit_no_threads_message c)" "plain (quit_esc_message c)" "plain (quit_generic_message c)"
  shows "\<forall>l\<in>set (messages_lines c). line_ok l"
  using assms by (simp add: messages_lines_def line_oks key_ok_def isspace_def messages_ok_def)

lemma load_render:
  assumes "config_ok cfg" "config_plain cfg"
  shows "load_text (render cfg) (SEC_NONE, zero_config) = Some (SEC_UI_MESSAGES, cfg)"
proof -
  let ?ls = "logs_lines (cfg_logs cfg) @ simulation_lines (cfg_simulation cfg) @ ink_lines (cfg_ink cfg) @ timing_lines (cfg_timing cfg) @ event_loop_lines (cfg_event_loop cfg) @ producers_lines (cfg_producers cfg) @ io_lines (cfg_io cfg) @ icon_lines (icon_directions (cfg_ui cfg)) @ messages_lines (messages (cfg_ui cfg))"
  have ok: "logs_ok (cfg_logs cfg)" "simulation_ok (cfg_simulation cfg)" "ink_ok (cfg_ink cfg)"
    "timing_ok (cfg_timing cfg)" "event_loop_ok (cfg_event_loop cfg)" "producers_ok (cfg_producers cfg)"
    "io_ok (cfg_io cfg)" "icon_ok (icon_directions (cfg_ui cfg))" "messages_ok (messages (cfg_ui cfg))"
    using assms(1) by (simp_all add: config_ok_def)
  note pl = assms(2) [unfolded config_plain_def, simplified]
  have "\<forall>l\<in>set ?ls. line_ok l"
    using ok pl by (simp add: logs_lines_ok [rule_format] simulation_lines_ok [rule_format] ink_lines_ok [rule_format] timing_lines_ok [rule_format] event_loop_lines_ok [rule_format] producers_lines_ok [rule_format] io_lines_ok [rule_format] icon_lines_ok [rule_format] messages_lines_ok [rule_format] ball_Un)
  then have "file_lines (render cfg) = ?ls"
    unfolding render_def by (intro file_lines_concat) (simp only: line_ok_def)
  moreover have "load_lines ?ls (SEC_NONE, zero_config) = Some (SEC_UI_MESSAGES, cfg)"
    using ok pl by (simp add: load_lines_append load_logs_lines load_simulation_lines load_ink_lines load_timing_lines load_event_loop_lines load_producers_lines load_io_lines load_icon_lines load_messages_lines zero_config_def)
  ultimately show ?thesis by (simp add: load_text_lines)
qed

section \<open>The messages of the user interface\<close>

lemma load_line_keeps_messages:
  assumes "top_section (trim (c_string l)) = None" "sec \<notin> {SEC_UI, SEC_UI_MESSAGES}"
    and "load_line l (sec, cfg) = Some (sec', cfg')"
  shows "sec' = sec \<and> messages (cfg_ui cfg') = messages (cfg_ui cfg)"
  using assms
  by (auto simp: load_line_def Let_def ui_section_def assign_def split: if_splits option.splits Section.splits)

lemma load_lines_keeps_messages:
  assumes "\<forall>l\<in>set ls. top_section (trim (c_string l)) = None" "sec \<notin> {SEC_UI, SEC_UI_MESSAGES}"
    and "load_lines ls (sec, cfg) = Some (sec', cfg')"
  shows "sec' = sec \<and> messages (cfg_ui cfg') = messages (cfg_ui cfg)"
  using assms
proof (induction ls arbitrary: cfg)
  case (Cons l ls)
  then obtain s1 c1 where l: "load_line l (sec, cfg) = Some (s1, c1)" "load_lines ls (s1, c1) = Some (sec', cfg')"
    by (auto split: option.splits)
  with load_line_keeps_messages [of l sec cfg s1 c1] Cons show ?case by auto
qed simp

lemma load_config_render:
  assumes "config_ok cfg" "config_plain cfg" "getcwd fs = Some cwd" "length cwd \<le> 4000"
    and "try_candidates fs cwd ''config'' candidates = Some d"
    and "fopen fs (d @ ''/inklings_config.yaml'') = Some (render cfg)"
  shows "load_config fs cfg0 = Return (0, cfg)"
proof -
  have d: "length d \<le> 4020"
    using assms(4,5) by (auto simp: candidates_def candidate_path_def snprintf_s_def Let_def split: if_splits)
  then have "find_relative_dir fs ''config'' PATH_MAX = Return d"
    using assms(3,5) by (simp add: find_relative_dir_def PATH_MAX_def)
  with d assms show ?thesis by (simp add: load_config_def load_render PATH_MAX_def)
qed

section \<open>Properties\<close>

text \<open>
  C28 (loaded configurations are in bounds). Whatever the file holds, a configuration that
  \<open>load_config\<close> returns with 0 is well formed: every string is shorter than its buffer, so that
  its terminating zero fits, and every number is an \<open>int\<close>.
\<close>

theorem load_config_bounds:
  assumes "load_config fs cfg0 = Return (0, cfg)"
  shows "config_ok cfg"
proof -
  from assms obtain tx sec where "load_text tx (SEC_NONE, zero_config) = Some (sec, cfg)"
    by (auto simp: load_config_def split: prog_result.splits option.splits)
  then show ?thesis using load_lines_ok [OF zero_config_ok] by (simp add: load_text_lines)
qed

theorem load_config_bounds_witness:
  "config_ok zero_config \<and>
     load_config \<lparr>getcwd = Some ''/w'', opendir = (\<lambda>d. d = ''/w/config''), fopen = (\<lambda>f. Some (render zero_config))\<rparr>
       zero_config = Return (0, zero_config)"
proof -
  let ?fs = "\<lparr>getcwd = Some ''/w'', opendir = (\<lambda>d. d = ''/w/config''), fopen = (\<lambda>f. Some (render zero_config))\<rparr>"
  have "load_config ?fs zero_config = Return (0, zero_config)"
    by (rule load_config_render [where cwd = "''/w''" and d = "''/w/config''"])
      (use zero_config_ok in \<open>simp_all add: config_plain_def plain_def zero_config_def candidates_def
        candidate_path_def PATH_MAX_def snprintf_s_def\<close>)
  with load_config_bounds [OF this] show ?thesis by simp
qed

text \<open>
  C27 (configuration round trip). Every well-formed configuration whose strings hold no line break
  and no zero can be written as a configuration file such that \<open>load_config\<close>, finding the file
  in the first of its candidate directories that exists, reads back exactly that configuration.
\<close>

theorem load_config_roundtrip:
  assumes "config_ok cfg" "config_plain cfg" "getcwd fs = Some cwd" "length cwd \<le> 4000"
    and "try_candidates fs cwd ''config'' candidates = Some d"
    and "fopen fs (d @ ''/inklings_config.yaml'') = Some (render cfg)"
  shows "load_config fs cfg0 = Return (0, cfg)"
  using assms by (rule load_config_render)

theorem load_config_roundtrip_witness:
  "load_config \<lparr>getcwd = Some ''/w'', opendir = (\<lambda>d. d = ''/w/../config''),
       fopen = (\<lambda>f. if f = ''/w/../config/inklings_config.yaml''
         then Some (render (zero_config\<lparr>cfg_io := \<lparr>pipe_path = ''/tmp/my_pipe''\<rparr>\<rparr>)) else None)\<rparr> zero_config =
     Return (0, zero_config\<lparr>cfg_io := \<lparr>pipe_path = ''/tmp/my_pipe''\<rparr>\<rparr>)"
  by (rule load_config_roundtrip [where cwd = "''/w''" and d = "''/w/../config''"])
    (simp_all add: config_ok_def setter_ok_defs config_plain_def plain_def zero_config_def int_ok_def
      candidates_def candidate_path_def PATH_MAX_def snprintf_s_def)

text \<open>
  C29 (\<open>messages\<close> after \<open>icon_directions\<close> are lost). Once the parser is inside
  \<open>icon_directions:\<close>, a \<open>messages:\<close> header is not recognised: as long as no top-level header
  follows, no line of the file changes any message. The configuration file of the repository has
  the two sub-sections in this order, so its messages are never loaded.
\<close>

theorem messages_after_icons_lost:
  assumes "\<forall>l\<in>set (file_lines tx). top_section (trim (c_string l)) = None"
    and "load_text tx (SEC_UI_ICON, cfg) = Some (sec', cfg')"
  shows "sec' = SEC_UI_ICON \<and> messages (cfg_ui cfg') = messages (cfg_ui cfg)"
  using assms load_lines_keeps_messages [of "file_lines tx" SEC_UI_ICON cfg sec' cfg']
  by (simp add: load_text_lines)

theorem messages_after_icons_lost_witness:
  "\<exists>cfg'. load_text (header ''messages'' @ kv ''live_threads_label'' (quoted ''Live'')) (SEC_UI_ICON, zero_config) =
       Some (SEC_UI_ICON, cfg') \<and> live_threads_label (messages (cfg_ui cfg')) = []"
proof -
  let ?ls = "[header ''messages'', kv ''live_threads_label'' (quoted ''Live'')]"
  let ?tx = "header ''messages'' @ kv ''live_threads_label'' (quoted ''Live'')"
  have "\<forall>l\<in>set ?ls. line_ok l"
    by (simp add: line_oks key_ok_def isspace_def plain_def)
  then have ls: "file_lines ?tx = ?ls"
    using file_lines_concat [of ?ls] by (simp add: line_ok_def)
  have "load_lines ?ls (SEC_UI_ICON, zero_config) \<noteq> None"
    by (simp add: load_line_def c_string_def header_def kv_def quoted_def trim_def isspace_def top_section_def
        ui_section_def assign_def set_icon_def Let_def)
  then obtain sec' cfg' where l: "load_text ?tx (SEC_UI_ICON, zero_config) = Some (sec', cfg')"
    by (auto simp: load_text_lines ls)
  have "\<forall>l\<in>set (file_lines ?tx). top_section (trim (c_string l)) = None"
    unfolding ls by (simp add: c_string_def header_def kv_def quoted_def trim_def isspace_def top_section_def)
  from messages_after_icons_lost [OF this l] l show ?thesis by (auto simp: zero_config_def)
qed

end
