(* ===== verification/InkSim.thy ===== *)
theory InkSim
  imports InkConfig
begin

text \<open>
  The simulation around the configuration: \<open>include/sim.h\<close>, \<open>src/sim.c\<close>, \<open>src/main.c\<close>,
  \<open>src/ascii_art.c\<close> and \<open>src/logs.c\<close> of \<open>assignments/a4/inklings/cink\<close>. Most of it is still
  to be written by the students: the thread functions, the drawing functions and the event loop do
  nothing, and so do their definitions here. Pointers that no code sets are parameters of the state
  (\<open>main\<close> leaves the structure uninitialised).
\<close>

section \<open>State\<close>

datatype TravelDirection = DIR_NORTH | DIR_WEST | DIR_SOUTH | DIR_EAST

datatype InklingType = TRAV_RED | TRAV_GREEN | TRAV_BLUE

record InklingInfo =
  ink_type :: InklingType
  ink_row :: int
  ink_col :: int
  ink_dir :: TravelDirection
  is_live :: int

record SimState =
  sim_config :: AppConfig
  sim_grid :: u64
  num_rows :: int
  num_cols :: int
  inklings :: u64
  num_inklings :: int
  red_level :: int
  green_level :: int
  blue_level :: int

definition sim_init :: "SimState \<Rightarrow> AppConfig \<Rightarrow> int \<times> SimState" where
  "sim_init state cfg =
     (0, state
        \<lparr>sim_config := cfg,
         num_rows := default_rows (cfg_simulation cfg),
         num_cols := default_cols (cfg_simulation cfg),
         red_level := initial_red_level (cfg_ink cfg),
         green_level := initial_green_level (cfg_ink cfg),
         blue_level := initial_blue_level (cfg_ink cfg)\<rparr>)"

definition sim_shutdown :: "SimState \<Rightarrow> SimState" where
  "sim_shutdown state = state"

definition event_loop :: "SimState \<Rightarrow> SimState" where
  "event_loop state = state"

section \<open>Terminal colours\<close>

datatype TextColor = TEXT_DEFAULT | TEXT_BLACK | TEXT_RED | TEXT_GREEN | TEXT_YELLOW | TEXT_BLUE
  | TEXT_MAGENTA | TEXT_CYAN | TEXT_WHITE

fun color_code :: "TextColor \<Rightarrow> int" where
  "color_code TEXT_DEFAULT = 39"
| "color_code TEXT_BLACK = 30"
| "color_code TEXT_RED = 31"
| "color_code TEXT_GREEN = 32"
| "color_code TEXT_YELLOW = 33"
| "color_code TEXT_BLUE = 34"
| "color_code TEXT_MAGENTA = 35"
| "color_code TEXT_CYAN = 36"
| "color_code TEXT_WHITE = 37"

definition clear_terminal :: string where
  "clear_terminal = CHR 0x1B # ''[H'' @ CHR 0x1B # ''[J''"

definition set_text_color :: "TextColor \<Rightarrow> string" where
  "set_text_color c = CHR 0x1B # ''['' @ show_int (color_code c) @ ''m''"

definition reset_text_color :: string where
  "reset_text_color = set_text_color TEXT_DEFAULT"

section \<open>The programs\<close>

text \<open>The exit status, and the simulation state the program ended with.\<close>

definition cink_main :: "filesystem \<Rightarrow> AppConfig \<Rightarrow> SimState \<Rightarrow> (int \<times> SimState) prog_result" where
  "cink_main fs cfg state =
     (case load_config fs cfg of
        Exit e \<Rightarrow> Exit e
      | Undefined \<Rightarrow> Undefined
      | Return (r, cfg1) \<Rightarrow>
          if r \<noteq> 0 then Return (1, state)
          else
            (case sim_init state cfg1 of (r1, state1) \<Rightarrow>
               if r1 \<noteq> 0 then Return (1, state1)
               else Return (0, sim_shutdown (event_loop state1))))"

text \<open>
  The logs program has its own copy of \<open>find_relative_dir\<close>; what it does is what the function of
  \<open>config.c\<close> does (lemma \<open>logs_find_relative_dir_same\<close>).
\<close>

definition logs_find_relative_dir :: "filesystem \<Rightarrow> string \<Rightarrow> nat \<Rightarrow> string prog_result" where
  "logs_find_relative_dir fs name out_sz =
     (case getcwd fs of
        None \<Rightarrow> Exit 1
      | Some cwd \<Rightarrow>
          (let candidate = (\<lambda>c.
             if c = [] then snprintf_s PATH_MAX (cwd @ ''/'' @ name)
             else snprintf_s PATH_MAX (cwd @ ''/'' @ c @ ''/'' @ name)) in
           case find (\<lambda>c. opendir fs (candidate c)) [[], ''..'', ''../..''] of
             Some c \<Rightarrow> Return (snprintf_s out_sz (candidate c))
           | None \<Rightarrow> Exit 1))"

definition logs_main :: "filesystem \<Rightarrow> (int \<times> string list) prog_result" where
  "logs_main fs =
     (case logs_find_relative_dir fs ''logs'' PATH_MAX of
        Exit e \<Rightarrow> Exit e
      | Undefined \<Rightarrow> Undefined
      | Return logs_path \<Rightarrow>
          Return (0, [''logs_c: using logs directory: '' @ logs_path @ [CHR 0x0A],
            ''logs_c: please implement merging '' @ logs_path @ ''/*.txt into actions.txt'' @ [CHR 0x0A]]))"

section \<open>Where the directories are found\<close>

lemma try_candidates_first:
  "try_candidates fs cwd name cs =
     map_option (\<lambda>c. candidate_path cwd c name) (find (\<lambda>c. opendir fs (candidate_path cwd c name)) cs)"
  by (induction cs) (auto simp: Let_def)

lemma logs_find_relative_dir_same: "logs_find_relative_dir fs name out_sz = find_relative_dir fs name out_sz"
  by (simp add: logs_find_relative_dir_def find_relative_dir_def candidates_def candidate_path_def Let_def
      split: option.split)

text \<open>
  How the simulation program ends. Whatever the file system holds, the program either exits
  with status 1 because neither \<open>config\<close>, \<open>../config\<close> nor \<open>../../config\<close> can be opened (or
  the working directory is unknown), or returns 1 with the state untouched because the nearest of
  these has no configuration file, or hits the undefined behaviour of \<open>atoi\<close>, or returns 0 with a
  state whose size and ink levels are those of a well-formed configuration loaded from there.
\<close>

lemma cink_main_outcome:
  "case cink_main fs cfg state of
     Exit e \<Rightarrow> e = 1 \<and>
       (\<forall>cwd. getcwd fs = Some cwd \<longrightarrow> (\<forall>c\<in>set candidates. \<not> opendir fs (candidate_path cwd c ''config'')))
   | Undefined \<Rightarrow> \<exists>p tx. fopen fs p = Some tx \<and> load_text tx (SEC_NONE, zero_config) = None
   | Return (r, st) \<Rightarrow>
       r = 1 \<and> st = state \<and>
         (\<exists>cwd c. getcwd fs = Some cwd \<and> find (\<lambda>c. opendir fs (candidate_path cwd c ''config'')) candidates = Some c \<and>
            fopen fs (snprintf_s PATH_MAX (candidate_path cwd c ''config'' @ ''/inklings_config.yaml'')) = None) \<or>
       r = 0 \<and> config_ok (sim_config st) \<and>
         num_rows st = default_rows (cfg_simulation (sim_config st)) \<and>
         num_cols st = default_cols (cfg_simulation (sim_config st)) \<and>
         red_level st = initial_red_level (cfg_ink (sim_config st)) \<and>
         green_level st = initial_green_level (cfg_ink (sim_config st)) \<and>
         blue_level st = initial_blue_level (cfg_ink (sim_config st))"
proof -
  have trunc: "snprintf_s PATH_MAX (candidate_path cwd c n) = candidate_path cwd c n" for cwd c n
    by (simp add: candidate_path_def snprintf_s_def)
  show ?thesis
  proof (cases "getcwd fs")
    case None
    then show ?thesis by (simp add: cink_main_def load_config_def find_relative_dir_def)
  next
    case (Some cwd)
    show ?thesis
    proof (cases "find (\<lambda>c. opendir fs (candidate_path cwd c ''config'')) candidates")
      case None
      then have "find_relative_dir fs ''config'' PATH_MAX = Exit 1"
        using Some by (simp add: find_relative_dir_def try_candidates_first)
      with None Some show ?thesis by (auto simp: cink_main_def load_config_def find_None_iff)
    next
      case (Some c)
      let ?p = "snprintf_s PATH_MAX (candidate_path cwd c ''config'' @ ''/inklings_config.yaml'')"
      have d: "find_relative_dir fs ''config'' PATH_MAX = Return (candidate_path cwd c ''config'')"
        using Some \<open>getcwd fs = Some cwd\<close> by (simp add: find_relative_dir_def try_candidates_first trunc)
      show ?thesis
      proof (cases "fopen fs ?p")
        case None
        with Some \<open>getcwd fs = Some cwd\<close> d show ?thesis by (auto simp: cink_main_def load_config_def)
      next
        case (Some tx)
        show ?thesis
        proof (cases "load_text tx (SEC_NONE, zero_config)")
          case None
          with Some d show ?thesis by (auto simp: cink_main_def load_config_def)
        next
          case (Some r)
          then obtain sec cfg1 where r: "load_text tx (SEC_NONE, zero_config) = Some (sec, cfg1)" by (cases r) auto
          then have "config_ok cfg1" using load_lines_ok [OF zero_config_ok] by (simp add: load_text_lines)
          with r \<open>fopen fs ?p = Some tx\<close> d show ?thesis
            by (simp add: cink_main_def load_config_def sim_init_def sim_shutdown_def event_loop_def)
        qed
      qed
    qed
  qed
qed

end
