(* ===== verification/LinkedList.thy ===== *)
theory LinkedList
  imports Prelude
begin

text \<open>
  The doubly linked list of \<open>modules/m2/double_link/linked_list\<close> (\<open>linked_list.c\<close>,
  \<open>linked_list.h\<close>) on an explicit heap: nodes and data blocks live at addresses, \<open>None\<close> is
  memory that is not allocated, address 0 is the null pointer. The file is handed to students with
  bugs to find, so errors are part of the model:

  \<^item> a fault (\<open>Inl\<close>) is a null or dangling access, an access past the end of a block, or a
    \<open>free\<close> of something that is not allocated;
  \<^item> the value \<open>None\<close> of a loop is a loop that never ends;
  \<^item> \<open>malloc\<close> is a parameter of the functions that call it: the addresses it returns, and the
    indeterminate contents of the new node.

  A heap holds the list \<open>as\<close> of node addresses when \<open>list_ok\<close> relates them; \<open>contents\<close> are the
  bytes the list stands for. The theorems say what each function does to them.
\<close>

section \<open>Memory\<close>

type_synonym addr = u64

record node_t =
  n_data :: addr
  n_next :: addr
  n_prev :: addr

record heap =
  nodes :: "addr \<rightharpoonup> node_t"
  blocks :: "addr \<rightharpoonup> u8 list"

datatype fault = Null_Access | Dangling_Access addr | Out_Of_Bounds addr | Bad_Free addr

definition get_node :: "heap \<Rightarrow> addr \<Rightarrow> fault + node_t" where
  "get_node h p =
     (if p = 0 then Inl Null_Access
      else case nodes h p of None \<Rightarrow> Inl (Dangling_Access p) | Some n \<Rightarrow> Inr n)"

definition put_node :: "heap \<Rightarrow> addr \<Rightarrow> node_t \<Rightarrow> heap" where
  "put_node h p n = h\<lparr>nodes := (nodes h)(p \<mapsto> n)\<rparr>"

definition set_next :: "heap \<Rightarrow> addr \<Rightarrow> addr \<Rightarrow> fault + heap" where
  "set_next h p v = bindR (get_node h p) (\<lambda>n. Inr (put_node h p (n\<lparr>n_next := v\<rparr>)))"

definition set_prev :: "heap \<Rightarrow> addr \<Rightarrow> addr \<Rightarrow> fault + heap" where
  "set_prev h p v = bindR (get_node h p) (\<lambda>n. Inr (put_node h p (n\<lparr>n_prev := v\<rparr>)))"

text \<open>The first \<open>k\<close> bytes of a block, for \<open>memcpy\<close> and \<open>memcmp\<close>.\<close>

definition read_bytes :: "heap \<Rightarrow> addr \<Rightarrow> nat \<Rightarrow> fault + u8 list" where
  "read_bytes h p k =
     (if p = 0 then Inl Null_Access
      else case blocks h p of
        None \<Rightarrow> Inl (Dangling_Access p)
      | Some bs \<Rightarrow> if length bs < k then Inl (Out_Of_Bounds p) else Inr (take k bs))"

definition free_block :: "heap \<Rightarrow> addr \<Rightarrow> fault + heap" where
  "free_block h p =
     (if p = 0 then Inr h
      else if blocks h p = None then Inl (Bad_Free p) else Inr (h\<lparr>blocks := (blocks h)(p := None)\<rparr>))"

definition free_node :: "heap \<Rightarrow> addr \<Rightarrow> fault + heap" where
  "free_node h p =
     (if p = 0 then Inr h
      else if nodes h p = None then Inl (Bad_Free p) else Inr (h\<lparr>nodes := (nodes h)(p := None)\<rparr>))"

section \<open>Operations\<close>

text \<open>
  The loop of \<open>length_list\<close>, which does not advance \<open>current\<close>. The counter wraps around at the width of
  \<open>int\<close>, as it does on the machine (in C the overflow of \<open>len++\<close> is undefined behaviour).
\<close>

partial_function (option) length_loop :: "addr \<Rightarrow> int \<Rightarrow> int option" where
  "length_loop current len = (if current = 0 then Some len else length_loop current (signed_take_bit 31 (len + 1)))"

definition length_list :: "addr \<Rightarrow> int option" where
  "length_list head_list = (if head_list = 0 then Some 0 else length_loop head_list 0)"

definition get_first :: "heap \<Rightarrow> addr \<Rightarrow> fault + addr" where
  "get_first h head_list = bindR (get_node h head_list) (\<lambda>n. Inr (n_data n))"

text \<open>The walk to the last node, shared by \<open>get_last\<close> and \<open>insert_last\<close>.\<close>

partial_function (option) last_node :: "heap \<Rightarrow> addr \<Rightarrow> (fault + addr) option" where
  "last_node h cur =
     (case get_node h cur of
        Inl e \<Rightarrow> Some (Inl e)
      | Inr n \<Rightarrow> if n_next n = 0 then Some (Inr cur) else last_node h (n_next n))"

definition get_last :: "heap \<Rightarrow> addr \<Rightarrow> (fault + addr) option" where
  "get_last h head_list =
     (if head_list = 0 then Some (Inr 0)
      else map_option (\<lambda>r. bindR r (\<lambda>c. bindR (get_node h c) (\<lambda>n. Inr (n_data n)))) (last_node h head_list))"

text \<open>The functions that are left to the students do nothing yet.\<close>

definition insert_first :: "heap \<Rightarrow> addr \<Rightarrow> addr \<Rightarrow> u64 \<Rightarrow> addr \<times> heap" where
  "insert_first h head_list to_add sz = (head_list, h)"

definition get :: "heap \<Rightarrow> addr \<Rightarrow> int \<Rightarrow> addr" where
  "get h head_list index = 0"

definition remove_last :: "heap \<Rightarrow> addr \<Rightarrow> addr \<times> addr \<times> heap" where
  "remove_last h head_list = (0, head_list, h)"

definition insert_last ::
  "addr \<Rightarrow> node_t \<Rightarrow> addr \<Rightarrow> heap \<Rightarrow> addr \<Rightarrow> addr \<Rightarrow> u64 \<Rightarrow> (fault + addr \<times> heap) option" where
  "insert_last new_element garbage new_data h head_list to_add sz =
     (if to_add = 0 then Some (Inr (head_list, h))
      else
        (case read_bytes h to_add (unat (sz - 1)) of
           Inl e \<Rightarrow> Some (Inl e)
         | Inr bs \<Rightarrow>
             if new_data = 0 \<or> new_element = 0 then Some (Inl Null_Access)
             else
               let h1 = h\<lparr>nodes := (nodes h)(new_element \<mapsto> garbage\<lparr>n_data := new_data\<rparr>),
                          blocks := (blocks h)(new_data \<mapsto> bs)\<rparr>
               in if head_list = 0
                  then Some (bindR (set_prev h1 new_element 0) (\<lambda>h2.
                         bindR (set_next h2 new_element 0) (\<lambda>h3. Inr (new_element, h3))))
                  else map_option (\<lambda>r. bindR r (\<lambda>cur.
                         bindR (set_next h1 cur new_element) (\<lambda>h2.
                         bindR (set_prev h2 new_element cur) (\<lambda>h3. Inr (head_list, h3)))))
                         (last_node h1 head_list)))"

text \<open>Unlinking and freeing the node \<open>cur\<close> that matched.\<close>

definition unlink :: "heap \<Rightarrow> addr \<Rightarrow> addr \<Rightarrow> fault + addr \<times> heap" where
  "unlink h head_list cur =
     bindR (get_node h cur) (\<lambda>n.
     bindR (if n_next n \<noteq> 0 then set_prev h (n_next n) (n_prev n) else Inr h) (\<lambda>h1.
     bindR (if cur = head_list then Inr (n_next n, h1)
            else bindR (set_next h1 (n_prev n) (n_next n)) (\<lambda>h2. Inr (head_list, h2))) (\<lambda>(hd', h2).
     bindR (free_block h2 (n_data n)) (\<lambda>h3.
     bindR (free_node h3 cur) (\<lambda>h4. Inr (hd', h4))))))"

partial_function (option) remove_loop ::
  "heap \<Rightarrow> addr \<Rightarrow> u8 list \<Rightarrow> addr \<Rightarrow> (fault + int \<times> addr \<times> heap) option" where
  "remove_loop h head_list key cur =
     (if cur = 0 then Some (Inr (0, head_list, h))
      else case get_node h cur of
        Inl e \<Rightarrow> Some (Inl e)
      | Inr n \<Rightarrow>
          (case read_bytes h (n_data n) (length key) of
             Inl e \<Rightarrow> Some (Inl e)
           | Inr bs \<Rightarrow>
               if bs = key then Some (bindR (unlink h head_list cur) (\<lambda>(hd', h'). Inr (1, hd', h')))
               else remove_loop h head_list key (n_next n)))"

definition remove_element :: "heap \<Rightarrow> addr \<Rightarrow> addr \<Rightarrow> u64 \<Rightarrow> (fault + int \<times> addr \<times> heap) option" where
  "remove_element h head_list to_remove sz =
     (if head_list = 0 then Some (Inr (0, head_list, h))
      else case read_bytes h to_remove (unat sz) of
        Inl e \<Rightarrow> Some (Inl e)
      | Inr key \<Rightarrow> remove_loop h head_list key head_list)"

partial_function (option) reverse_loop ::
  "heap \<Rightarrow> addr \<Rightarrow> addr \<Rightarrow> addr \<Rightarrow> (fault + addr \<times> heap) option" where
  "reverse_loop h head_list cur placeholder =
     (if cur = 0 then Some (Inr (head_list, h))
      else case get_node h cur of
        Inl e \<Rightarrow> Some (Inl e)
      | Inr n \<Rightarrow>
          (let head' = (if n_next n = 0 then cur else head_list);
               h' = put_node h cur (n\<lparr>n_prev := n_next n, n_next := placeholder\<rparr>)
           in reverse_loop h' head' (n_next n) cur))"

definition reverse_helper :: "heap \<Rightarrow> addr \<Rightarrow> (fault + addr \<times> heap) option" where
  "reverse_helper h head_list =
     (case get_node h head_list of
        Inl e \<Rightarrow> Some (Inl e)
      | Inr n \<Rightarrow> if n_next n \<noteq> 0 then reverse_loop h head_list head_list 0 else Some (Inr (head_list, h)))"

text \<open>\<open>reverse\<close> only checks that the pointer to the head exists.\<close>

definition reverse :: "heap \<Rightarrow> addr option \<Rightarrow> (fault + addr option \<times> heap) option" where
  "reverse h head_list =
     (case head_list of
        None \<Rightarrow> Some (Inr (None, h))
      | Some p \<Rightarrow> map_option (\<lambda>r. bindR r (\<lambda>(p', h'). Inr (Some p', h'))) (reverse_helper h p))"

definition remove_first :: "heap \<Rightarrow> addr \<Rightarrow> fault + addr \<times> addr \<times> heap" where
  "remove_first h head_list =
     (if head_list = 0 then Inr (0, 0, h)
      else
        bindR (get_node h head_list) (\<lambda>n.
        bindR (if n_next n \<noteq> 0 then set_prev h (n_next n) 0 else Inr h) (\<lambda>h1.
        bindR (get_node h1 head_list) (\<lambda>n1.
        bindR (free_block h1 (n_data n1)) (\<lambda>h2.
        bindR (free_node h2 head_list) (\<lambda>h3.
        bindR (get_node h3 head_list) (\<lambda>n2. Inr (n_data n2, n_next n, h3))))))))"

section \<open>Lists on the heap\<close>

primrec seg :: "heap \<Rightarrow> addr \<Rightarrow> addr \<Rightarrow> addr list \<Rightarrow> addr \<Rightarrow> bool" where
  "seg h prv p [] r \<longleftrightarrow> p = r"
| "seg h prv p (a # as) r \<longleftrightarrow>
     p = a \<and> a \<noteq> 0 \<and> (\<exists>n. nodes h a = Some n \<and> n_prev n = prv \<and> seg h a (n_next n) as r)"

definition data_of :: "heap \<Rightarrow> addr \<Rightarrow> addr" where
  "data_of h a = n_data (the (nodes h a))"

definition contents :: "heap \<Rightarrow> addr list \<Rightarrow> u8 list list" where
  "contents h as = map (\<lambda>a. the (blocks h (data_of h a))) as"

definition list_ok :: "heap \<Rightarrow> addr \<Rightarrow> addr list \<Rightarrow> bool" where
  "list_ok h p as \<longleftrightarrow> seg h 0 p as 0 \<and> distinct as \<and> distinct (map (data_of h) as) \<and>
     (\<forall>a\<in>set as. data_of h a \<noteq> 0 \<and> blocks h (data_of h a) \<noteq> None)"

lemma seg_append: "seg h prv p (xs @ ys) r \<longleftrightarrow> (\<exists>m. seg h prv p xs m \<and> seg h (last (prv # xs)) m ys r)"
  by (induction xs arbitrary: prv p) auto

lemma seg_node: "seg h prv p as r \<Longrightarrow> a \<in> set as \<Longrightarrow> a \<noteq> 0 \<and> nodes h a \<noteq> None"
  by (induction as arbitrary: prv p) auto

lemma seg_unique: "seg h prv p as r \<Longrightarrow> seg h prv p as r' \<Longrightarrow> r = r'"
  by (induction as arbitrary: prv p) auto

lemma seg_cong: "\<forall>a\<in>set as. nodes h' a = nodes h a \<Longrightarrow> seg h' prv p as r = seg h prv p as r"
  by (induction as arbitrary: prv p) auto

lemma seg_put [simp]: "a \<notin> set as \<Longrightarrow> seg (put_node h a n) prv p as r = seg h prv p as r"
  by (rule seg_cong) (auto simp: put_node_def)

lemma put_node_fields [simp]:
  "nodes (put_node h p n) = (nodes h)(p \<mapsto> n)" "blocks (put_node h p n) = blocks h"
  by (simp_all add: put_node_def)

lemma get_node_Some [simp]: "p \<noteq> 0 \<Longrightarrow> nodes h p = Some n \<Longrightarrow> get_node h p = Inr n"
  by (simp add: get_node_def)

lemma get_node_0 [simp]: "get_node h 0 = Inl Null_Access"
  by (simp add: get_node_def)

text \<open>A list is empty exactly when its head pointer is null.\<close>

lemma seg_Nil_iff: "seg h prv p as 0 \<Longrightarrow> p = 0 \<longleftrightarrow> as = []"
  by (cases as) auto

section \<open>Reversal\<close>

text \<open>
  Half-way through, the nodes already visited form a proper list in reverse order whose first node
  points back to the node to be visited next; of the other nodes only the \<open>next\<close> pointers matter.
\<close>

primrec next_path :: "heap \<Rightarrow> addr \<Rightarrow> addr list \<Rightarrow> bool" where
  "next_path h p [] \<longleftrightarrow> p = 0"
| "next_path h p (a # as) \<longleftrightarrow> p = a \<and> a \<noteq> 0 \<and> (\<exists>n. nodes h a = Some n \<and> next_path h (n_next n) as)"

lemma next_path_put [simp]: "a \<notin> set as \<Longrightarrow> next_path (put_node h a n) p as = next_path h p as"
  by (induction as arbitrary: p) auto

lemma seg_next_path: "seg h prv p as 0 \<Longrightarrow> next_path h p as"
  by (induction as arbitrary: prv p) auto

lemma next_path_Nil_iff: "next_path h p as \<Longrightarrow> p = 0 \<longleftrightarrow> as = []"
  by (cases as) auto

lemma reverse_loop_correct:
  assumes "next_path h cur rest" "seg h cur ph visited 0" "distinct (rest @ visited)"
    and "rest = [] \<longrightarrow> head_list = ph"
  shows "\<exists>h'. reverse_loop h head_list cur ph = Some (Inr (hd (rev rest @ visited @ [0]), h')) \<and>
     seg h' 0 (hd (rev rest @ visited @ [0])) (rev rest @ visited) 0 \<and>
     blocks h' = blocks h \<and> (\<forall>a. data_of h' a = data_of h a)"
  using assms
proof (induction rest arbitrary: h cur ph visited head_list)
  case Nil
  then have "hd (visited @ [0]) = ph" by (cases "visited") auto
  with Nil show ?case by (subst reverse_loop.simps) auto
next
  case (Cons c rest)
  then obtain n where n: "cur = c" "c \<noteq> 0" "nodes h c = Some n" "next_path h (n_next n) rest" by auto
  let ?h = "put_node h c (n\<lparr>n_prev := n_next n, n_next := ph\<rparr>)"
  let ?head = "if n_next n = 0 then c else head_list"
  have "\<exists>h'. reverse_loop ?h ?head (n_next n) c = Some (Inr (hd (rev rest @ (c # visited) @ [0]), h')) \<and>
      seg h' 0 (hd (rev rest @ (c # visited) @ [0])) (rev rest @ c # visited) 0 \<and>
      blocks h' = blocks ?h \<and> (\<forall>a. data_of h' a = data_of ?h a)"
    using Cons.prems n next_path_Nil_iff [OF n(4)] by (intro Cons.IH) auto
  moreover have "data_of ?h a = data_of h a" for a using n(3) by (simp add: data_of_def)
  moreover have "reverse_loop h head_list cur ph = reverse_loop ?h ?head (n_next n) c"
    using n by (subst reverse_loop.simps) (simp add: Let_def)
  ultimately show ?case by simp
qed

lemma contents_cong:
  "blocks h' = blocks h \<Longrightarrow> (\<And>a. a \<in> set as \<Longrightarrow> data_of h' a = data_of h a) \<Longrightarrow> contents h' as = contents h as"
  by (simp add: contents_def)

lemma reverse_helper_correct:
  assumes "list_ok h p as" "as \<noteq> []"
  shows "\<exists>p' h'. reverse_helper h p = Some (Inr (p', h')) \<and> list_ok h' p' (rev as) \<and>
     contents h' (rev as) = rev (contents h as)"
proof -
  obtain c rest n where as: "as = c # rest" "p = c" "c \<noteq> 0" "nodes h c = Some n" "seg h c (n_next n) rest 0"
    using assms by (cases as) (auto simp: list_ok_def)
  show ?thesis
  proof (cases "n_next n = 0")
    case True
    then have "rest = []" using as(5) by (cases rest) auto
    with as True assms(1) show ?thesis by (simp add: reverse_helper_def contents_def)
  next
    case False
    have s: "seg h 0 p as 0" using assms(1) by (simp add: list_ok_def)
    have "\<exists>h'. reverse_loop h p p 0 = Some (Inr (hd (rev as @ [] @ [0]), h')) \<and>
        seg h' 0 (hd (rev as @ [] @ [0])) (rev as @ []) 0 \<and> blocks h' = blocks h \<and> (\<forall>a. data_of h' a = data_of h a)"
      using assms seg_next_path [OF s] by (intro reverse_loop_correct) (auto simp: list_ok_def)
    then obtain p' h' where r: "reverse_loop h p p 0 = Some (Inr (p', h'))" "seg h' 0 p' (rev as) 0"
      "blocks h' = blocks h" "\<And>a. data_of h' a = data_of h a" by auto
    have "data_of h' = data_of h" using r(4) by (simp add: fun_eq_iff)
    then have "list_ok h' p' (rev as)" "contents h' (rev as) = rev (contents h as)"
      using r(2,3) assms(1) by (auto simp: list_ok_def contents_def rev_map [symmetric])
    moreover have "reverse_helper h p = Some (Inr (p', h'))"
      using as False r(1) by (simp add: reverse_helper_def)
    ultimately show ?thesis by blast
  qed
qed

section \<open>Removal\<close>

lemma seg_set_next_last:
  assumes "seg h prv p (xs @ [b]) r" "b \<notin> set xs" "nodes h b = Some nb"
  shows "seg (put_node h b (nb\<lparr>n_next := q\<rparr>)) prv p (xs @ [b]) q"
  using assms by (auto simp: seg_append)

lemma seg_set_prev_first:
  assumes "seg h prv p (y # ys) r" "y \<notin> set ys" "nodes h y = Some ny"
  shows "seg (put_node h y (ny\<lparr>n_prev := q\<rparr>)) q p (y # ys) r"
  using assms by auto

lemma data_of_put:
  "nodes h b = Some nb \<Longrightarrow> n_data nb' = n_data nb \<Longrightarrow> data_of (put_node h b nb') = data_of h"
  by (auto simp: data_of_def fun_eq_iff)

text \<open>The first half of \<open>unlink\<close>: the neighbour after the node points back past it.\<close>

lemma unlink_next:
  assumes "seg h a q ys 0" "distinct ys"
  shows "\<exists>h1. (if q \<noteq> 0 then set_prev h q r else Inr h) = Inr h1 \<and> seg h1 r q ys 0 \<and>
     (\<forall>b. b \<notin> set ys \<longrightarrow> nodes h1 b = nodes h b) \<and> dom (nodes h1) = dom (nodes h) \<and>
     blocks h1 = blocks h \<and> data_of h1 = data_of h"
proof (cases ys)
  case Nil
  with assms show ?thesis by auto
next
  case (Cons y ys')
  then obtain ny where y: "q = y" "y \<noteq> 0" "nodes h y = Some ny" using assms(1) by auto
  have "seg (put_node h y (ny\<lparr>n_prev := r\<rparr>)) r q ys 0"
    using assms y Cons seg_set_prev_first [of h a q y ys' 0 ny r] by simp
  moreover have "data_of (put_node h y (ny\<lparr>n_prev := r\<rparr>)) = data_of h" using y by (intro data_of_put) auto
  ultimately show ?thesis using y Cons by (auto simp: set_prev_def)
qed

text \<open>The second half: the head pointer or the neighbour before the node points past it.\<close>

lemma unlink_prev:
  assumes "seg h 0 p xs a" "distinct (xs @ a # ys)"
    and other: "\<forall>b. b \<notin> set ys \<longrightarrow> nodes h1 b = nodes h b" and q: "seg h1 (last (0 # xs)) q ys 0" and a: "a \<noteq> 0"
  shows "\<exists>p' h2. (if a = p then Inr (q, h1)
        else bindR (set_next h1 (last (0 # xs)) q) (\<lambda>h2. Inr (p, h2))) = Inr (p', h2) \<and>
      seg h2 0 p' (xs @ ys) 0 \<and> nodes h2 a = nodes h1 a \<and> blocks h2 = blocks h1 \<and> data_of h2 = data_of h1"
proof (cases xs rule: rev_cases)
  case Nil
  with assms show ?thesis by auto
next
  case (snoc zs b)
  have s1: "seg h1 0 p (zs @ [b]) a"
    using assms(1,2) other snoc by (subst seg_cong [of _ _ h]) auto
  then obtain nb where nb: "nodes h1 b = Some nb" "b \<noteq> 0" by (auto simp: seg_append)
  let ?h2 = "put_node h1 b (nb\<lparr>n_next := q\<rparr>)"
  have b: "b \<notin> set zs" "b \<notin> set ys" "b \<noteq> a" using assms(2) snoc by auto
  have "seg ?h2 0 p (zs @ [b]) q" by (rule seg_set_next_last [OF s1 b(1) nb(1)])
  moreover have "seg ?h2 b q ys 0" using q snoc b by simp
  ultimately have "seg ?h2 0 p (xs @ ys) 0" using snoc by (auto simp: seg_append)
  moreover have "a \<noteq> p" using assms(1,2) snoc by (cases zs) auto
  moreover have "data_of ?h2 = data_of h1" using nb by (intro data_of_put) auto
  ultimately show ?thesis using nb snoc b by (auto simp: set_next_def)
qed

lemma unlink_correct:
  assumes ok: "list_ok h p (xs @ a # ys)"
  shows "\<exists>p' h'. unlink h p a = Inr (p', h') \<and> list_ok h' p' (xs @ ys) \<and>
     contents h' (xs @ ys) = contents h (xs @ ys) \<and> nodes h' a = None \<and> blocks h' (data_of h a) = None"
proof -
  have dist: "distinct (xs @ a # ys)" and dd: "distinct (map (data_of h) (xs @ a # ys))"
    and bl: "\<forall>b\<in>set (xs @ a # ys). data_of h b \<noteq> 0 \<and> blocks h (data_of h b) \<noteq> None"
    using ok by (auto simp: list_ok_def)
  obtain n where n: "seg h 0 p xs a" "a \<noteq> 0" "nodes h a = Some n" "n_prev n = last (0 # xs)" "seg h a (n_next n) ys 0"
    using ok by (auto simp: list_ok_def seg_append)
  have dys: "distinct ys" using dist by simp
  from unlink_next [OF n(5) dys, of "last (0 # xs)"] obtain h1 where
    h1: "(if n_next n \<noteq> 0 then set_prev h (n_next n) (last (0 # xs)) else Inr h) = Inr h1"
      "seg h1 (last (0 # xs)) (n_next n) ys 0" "\<forall>b. b \<notin> set ys \<longrightarrow> nodes h1 b = nodes h b"
      "blocks h1 = blocks h" "data_of h1 = data_of h" by blast
  from unlink_prev [OF n(1) dist h1(3) h1(2) n(2)] obtain p' h2 where
    h2: "(if a = p then Inr (n_next n, h1) else bindR (set_next h1 (last (0 # xs)) (n_next n)) (\<lambda>h2. Inr (p, h2))) = Inr (p', h2)"
      "seg h2 0 p' (xs @ ys) 0" "nodes h2 a = nodes h1 a" "blocks h2 = blocks h1" "data_of h2 = data_of h1" by blast
  have na: "nodes h2 a = Some n" using h2(3) h1(3) n(3) dist by simp
  have da: "data_of h a = n_data n" using n(3) by (simp add: data_of_def)
  let ?h3 = "h2\<lparr>blocks := (blocks h2)(n_data n := None)\<rparr>"
  let ?h4 = "?h3\<lparr>nodes := (nodes ?h3)(a := None)\<rparr>"
  have b: "n_data n \<noteq> 0" "blocks h2 (n_data n) \<noteq> None" using bl da h2(4) h1(4) by auto
  have "unlink h p a = Inr (p', ?h4)"
    unfolding unlink_def get_node_Some [OF n(2,3)] bindR_Inr n(4) h1(1) h2(1)
    using b na n(2) by (simp add: free_block_def free_node_def)
  moreover have da4: "data_of ?h4 c = data_of h c" if "c \<noteq> a" for c
    using that h2(5) h1(5) by (simp add: data_of_def fun_eq_iff)
  have s4: "seg ?h4 0 p' (xs @ ys) 0" using h2(2) dist by (subst seg_cong [of _ _ h2]) auto
  have m4: "map (data_of ?h4) (xs @ ys) = map (data_of h) (xs @ ys)"
  proof (rule map_cong [OF refl])
    fix c assume "c \<in> set (xs @ ys)"
    then show "data_of ?h4 c = data_of h c" using dist by (intro da4) auto
  qed
  have neq: "data_of h c \<noteq> n_data n" if "c \<in> set (xs @ ys)" for c
    using that dd da by (auto simp: image_iff)
  have b4: "blocks ?h4 (data_of ?h4 c) = blocks h (data_of h c)" if "c \<in> set (xs @ ys)" for c
  proof -
    have "c \<noteq> a" using that dist by auto
    from da4 [OF this] have "blocks ?h4 (data_of ?h4 c) = blocks ?h4 (data_of h c)" by (rule arg_cong)
    also have "\<dots> = blocks h (data_of h c)" using neq [OF that] h2(4) h1(4) by simp
    finally show ?thesis .
  qed
  have "list_ok ?h4 p' (xs @ ys)"
    unfolding list_ok_def
  proof (intro conjI ballI)
    show "seg ?h4 0 p' (xs @ ys) 0" by (rule s4)
    show "distinct (xs @ ys)" using dist by simp
    show "distinct (map (data_of ?h4) (xs @ ys))" unfolding m4 using dd by simp
    fix c assume c: "c \<in> set (xs @ ys)"
    then have "c \<noteq> a" using dist by auto
    from da4 [OF this] c bl show "data_of ?h4 c \<noteq> 0" by auto
    from b4 [OF c] c bl show "blocks ?h4 (data_of ?h4 c) \<noteq> None" by auto
  qed
  moreover have "contents ?h4 (xs @ ys) = contents h (xs @ ys)"
    unfolding contents_def using b4 by (intro map_cong refl) auto
  moreover have "nodes ?h4 a = None" "blocks ?h4 (data_of h a) = None" using da by simp_all
  ultimately show ?thesis by blast
qed

text \<open>The search for the element, and the whole function.\<close>

fun remove_first_match :: "nat \<Rightarrow> u8 list \<Rightarrow> u8 list list \<Rightarrow> u8 list list" where
  "remove_first_match k key [] = []"
| "remove_first_match k key (b # bs) = (if take k b = key then bs else b # remove_first_match k key bs)"

lemma read_bytes_Inr: "p \<noteq> 0 \<Longrightarrow> blocks h p = Some bs \<Longrightarrow> k \<le> length bs \<Longrightarrow> read_bytes h p k = Inr (take k bs)"
  by (simp add: read_bytes_def)

lemma contents_append: "contents h (xs @ ys) = contents h xs @ contents h ys"
  by (simp add: contents_def)

lemma contents_Cons: "contents h (a # as) = the (blocks h (data_of h a)) # contents h as"
  by (simp add: contents_def)

lemma remove_first_match_append:
  "\<forall>b\<in>set xs. take k b \<noteq> key \<Longrightarrow> remove_first_match k key (xs @ ys) = xs @ remove_first_match k key ys"
  by (induction xs) auto

lemma remove_loop_correct:
  assumes ok: "list_ok h p (xs @ ys)" and seg: "seg h (last (0 # xs)) cur ys 0"
    and len: "\<forall>b\<in>set (contents h (xs @ ys)). length key \<le> length b"
    and no: "\<forall>b\<in>set (contents h xs). take (length key) b \<noteq> key"
  shows "\<exists>p' h' as'. remove_loop h p key cur =
        Some (Inr (if \<exists>b\<in>set (contents h ys). take (length key) b = key then 1 else 0, p', h')) \<and>
      list_ok h' p' as' \<and> contents h' as' = remove_first_match (length key) key (contents h (xs @ ys))"
  using assms
proof (induction ys arbitrary: xs cur)
  case Nil
  then have "remove_first_match (length key) key (contents h xs) = contents h xs"
    using remove_first_match_append [of "contents h xs" "length key" key "[]"] by simp
  with Nil show ?case by (subst remove_loop.simps) (auto simp: contents_def [of _ "[]"])
next
  case (Cons a ys)
  let ?k = "length key"
  obtain n where n: "cur = a" "a \<noteq> 0" "nodes h a = Some n" "seg h a (n_next n) ys 0" using Cons.prems(2) by auto
  have da: "data_of h a = n_data n" using n(3) by (simp add: data_of_def)
  obtain b where b: "blocks h (n_data n) = Some b" "n_data n \<noteq> 0"
    using Cons.prems(1) da by (auto simp: list_ok_def)
  have ca: "contents h (a # ys) = b # contents h ys" using da b by (simp add: contents_Cons)
  have kb: "?k \<le> length b" using Cons.prems(3) ca by (simp add: contents_append)
  have rd: "read_bytes h (n_data n) ?k = Inr (take ?k b)" by (rule read_bytes_Inr [OF b(2,1) kb])
  have pre: "remove_first_match ?k key (contents h (xs @ a # ys)) =
      contents h xs @ remove_first_match ?k key (b # contents h ys)"
    using remove_first_match_append [OF Cons.prems(4)] by (simp add: contents_append ca)
  show ?case
  proof (cases "take ?k b = key")
    case True
    from unlink_correct [OF Cons.prems(1)] obtain p' h' where u: "unlink h p a = Inr (p', h')"
      "list_ok h' p' (xs @ ys)" "contents h' (xs @ ys) = contents h (xs @ ys)" by blast
    have "remove_loop h p key cur = Some (Inr (1, p', h'))"
      using n rd True u(1) by (subst remove_loop.simps) simp
    with u True ca pre show ?thesis by (auto simp: contents_append)
  next
    case False
    have "remove_loop h p key cur = remove_loop h p key (n_next n)"
      using n rd False by (subst remove_loop.simps) simp
    moreover have "\<exists>p' h' as'. remove_loop h p key (n_next n) =
        Some (Inr (if \<exists>b\<in>set (contents h ys). take ?k b = key then 1 else 0, p', h')) \<and>
      list_ok h' p' as' \<and> contents h' as' = remove_first_match ?k key (contents h ((xs @ [a]) @ ys))"
      using Cons.prems n False ca by (intro Cons.IH) (auto simp: contents_append contents_Cons contents_def [of _ "[]"])
    ultimately show ?thesis using False ca by simp
  qed
qed

section \<open>Insertion and the end of the list\<close>

lemma last_node_seg:
  "seg h prv p as 0 \<Longrightarrow> as \<noteq> [] \<Longrightarrow> last_node h p = Some (Inr (last as))"
proof (induction as arbitrary: prv p)
  case (Cons a as)
  then obtain n where n: "p = a" "a \<noteq> 0" "nodes h a = Some n" "seg h a (n_next n) as 0" by auto
  show ?case
  proof (cases "as = []")
    case False
    then have "n_next n \<noteq> 0" using n(4) by (cases as) auto
    with n False Cons.IH [OF n(4) False] show ?thesis by (subst last_node.simps) simp
  qed (use n in \<open>subst last_node.simps, simp\<close>)
qed simp

lemma insert_last_effect:
  assumes ok: "list_ok h p as" and src: "to_add \<noteq> 0" "blocks h to_add = Some bs" "sz \<noteq> 0" "unat sz \<le> Suc (length bs)"
    and new: "e \<noteq> 0" "nodes h e = None" "d \<noteq> 0" "blocks h d = None"
  shows "\<exists>p' h'. insert_last e g d h p to_add sz = Some (Inr (p', h')) \<and>
     seg h' 0 p' (as @ [e]) (if as = [] then 0 else n_next g) \<and>
     contents h' (as @ [e]) = contents h as @ [take (unat sz - 1) bs] \<and>
     data_of h' e = d \<and> (\<forall>a. a \<noteq> e \<longrightarrow> data_of h' a = data_of h a) \<and>
     blocks h' = (blocks h)(d \<mapsto> take (unat sz - 1) bs)"
proof -
  have k: "unat (sz - 1) = unat sz - 1" using src(3) by (simp add: unat_minus_one)
  have rd: "read_bytes h to_add (unat (sz - 1)) = Inr (take (unat sz - 1) bs)"
    using src k by (simp add: read_bytes_def)
  let ?h1 = "h\<lparr>nodes := (nodes h)(e \<mapsto> g\<lparr>n_data := d\<rparr>), blocks := (blocks h)(d \<mapsto> take (unat sz - 1) bs)\<rparr>"
  have s: "seg h 0 p as 0" using ok by (simp add: list_ok_def)
  have e: "e \<notin> set as" using seg_node [OF s, of e] new(2) by auto
  have s1: "seg ?h1 0 p as 0" using s e by (subst seg_cong [of _ _ h]) auto
  have blk: "data_of h a \<noteq> d" if "a \<in> set as" for a
    using ok that new(4) by (auto simp: list_ok_def)
  show ?thesis
  proof (cases "as = []")
    case True
    then have "p = 0" using s by simp
    with True rd src(1) new show ?thesis
      by (simp add: insert_last_def set_prev_def set_next_def contents_def data_of_def)
  next
    case False
    then have p: "p \<noteq> 0" using seg_Nil_iff [OF s] by simp
    obtain zs b where as: "as = zs @ [b]" using False by (cases as rule: rev_cases) auto
    have b: "b \<noteq> 0" "nodes h b \<noteq> None" "b \<noteq> e" using seg_node [OF s, of b] e as by auto
    then obtain nb where nb: "nodes h b = Some nb" by auto
    let ?h2 = "put_node ?h1 b (nb\<lparr>n_next := e\<rparr>)"
    let ?h3 = "put_node ?h2 e (g\<lparr>n_data := d, n_prev := b\<rparr>)"
    have ln: "last_node ?h1 p = Some (Inr b)" using last_node_seg [OF s1 False] as by simp
    have run: "insert_last e g d h p to_add sz = Some (Inr (p, ?h3))"
      using rd src(1) new p ln b nb by (simp add: insert_last_def set_next_def set_prev_def)
    have dz: "distinct (zs @ [b])" using ok as by (simp add: list_ok_def)
    have "seg ?h2 0 p (zs @ [b]) e"
      using s1 as b nb dz by (intro seg_set_next_last [of _ _ _ _ _ 0]) auto
    then have "seg ?h3 0 p (zs @ [b]) e" using e as by (subst seg_put) auto
    then have "seg ?h3 0 p ((zs @ [b]) @ [e]) (n_next g)" using new(1) by (auto simp: seg_append)
    then have sg: "seg ?h3 0 p (as @ [e]) (n_next g)" using as by simp
    have data: "data_of ?h3 a = data_of h a" if "a \<noteq> e" for a
      using that nb by (simp add: data_of_def)
    have "contents ?h3 as = contents h as"
      unfolding contents_def
    proof (rule map_cong [OF refl])
      fix a assume a: "a \<in> set as"
      then have "data_of ?h3 a = data_of h a" using e by (intro data) auto
      with blk [OF a] show "the (blocks ?h3 (data_of ?h3 a)) = the (blocks h (data_of h a))" by simp
    qed
    moreover have de: "data_of ?h3 e = d" by (simp add: data_of_def)
    then have "contents ?h3 [e] = [take (unat sz - 1) bs]" by (simp add: contents_def)
    ultimately have "contents ?h3 (as @ [e]) = contents h as @ [take (unat sz - 1) bs]"
      by (simp add: contents_append)
    with run sg False de data show ?thesis by (intro exI [of _ p] exI [of _ ?h3]) simp
  qed
qed

section \<open>Loops that never end\<close>

lemma length_loop_Some:
  assumes "length_loop cur len = Some r"
  shows "cur = 0"
  by (rule length_loop.raw_induct [OF _ assms]) (auto split: if_splits)

lemma length_loop_None: "cur \<noteq> 0 \<Longrightarrow> length_loop cur len = None"
  using length_loop_Some by (cases "length_loop cur len") auto

lemma remove_first_dangling:
  assumes "list_ok h p as" "as \<noteq> []"
  shows "remove_first h p = Inl (Dangling_Access p)"
proof -
  obtain a ys n where a: "as = a # ys" "p = a" "a \<noteq> 0" "nodes h a = Some n" "seg h a (n_next n) ys 0"
    using assms by (cases as) (auto simp: list_ok_def)
  have dist: "a \<notin> set ys" "distinct ys" using assms a by (auto simp: list_ok_def)
  from unlink_next [OF a(5) dist(2), of 0] obtain h1 where
    h1: "(if n_next n \<noteq> 0 then set_prev h (n_next n) 0 else Inr h) = Inr h1"
      "\<forall>b. b \<notin> set ys \<longrightarrow> nodes h1 b = nodes h b" "blocks h1 = blocks h" by blast
  have n1: "nodes h1 a = Some n" using h1(2) dist a by simp
  have "blocks h1 (n_data n) \<noteq> None" using assms(1) a h1(3) by (auto simp: list_ok_def data_of_def)
  then show ?thesis
    unfolding remove_first_def a(2) get_node_Some [OF a(3,4)] bindR_Inr h1(1) get_node_Some [OF a(3) n1]
    using a(3) n1 by (auto simp: free_block_def free_node_def get_node_def)
qed

text \<open>A list of two elements, for concrete runs.\<close>

definition demo_heap :: heap where
  "demo_heap =
     \<lparr>nodes = [16 \<mapsto> \<lparr>n_data = 100, n_next = 32, n_prev = 0\<rparr>, 32 \<mapsto> \<lparr>n_data = 200, n_next = 0, n_prev = 16\<rparr>],
      blocks = [100 \<mapsto> [1, 2], 200 \<mapsto> [3, 4], 300 \<mapsto> [3, 4]]\<rparr>"

lemma demo_heap_ok: "list_ok demo_heap 16 [16, 32]"
  by (simp add: list_ok_def demo_heap_def data_of_def)

lemma demo_contents: "contents demo_heap [16, 32] = [[1, 2], [3, 4]]" "blocks demo_heap 300 = Some [3, 4]"
  by (simp_all add: contents_def data_of_def demo_heap_def)

section \<open>Properties\<close>

text \<open>
  C31 (reversal). On a non-empty list \<open>reverse\<close> ends, the nodes form a well-formed list in the
  opposite order, \<open>prev\<close> pointers included, and the contents are reversed; on the empty list it
  dereferences the null pointer.
\<close>

theorem reverse_correct:
  assumes "list_ok h p as"
  shows "if as = [] then reverse h (Some p) = Some (Inl Null_Access)
     else \<exists>p' h'. reverse h (Some p) = Some (Inr (Some p', h')) \<and> list_ok h' p' (rev as) \<and>
       contents h' (rev as) = rev (contents h as)"
proof (cases "as = []")
  case True
  then show ?thesis using assms by (simp add: reverse_def reverse_helper_def list_ok_def)
next
  case False
  from reverse_helper_correct [OF assms this] obtain p' h' where
    "reverse_helper h p = Some (Inr (p', h'))" "list_ok h' p' (rev as)" "contents h' (rev as) = rev (contents h as)" by blast
  with False show ?thesis by (auto simp: reverse_def)
qed

theorem reverse_correct_witness:
  "\<exists>p' h'. reverse demo_heap (Some 16) = Some (Inr (Some p', h')) \<and> contents h' [32, 16] = [[3, 4], [1, 2]]"
  using reverse_correct [OF demo_heap_ok] by (auto simp: contents_def data_of_def demo_heap_def)

text \<open>
  C30 (removal). On a list whose blocks hold at least \<open>size\<close> bytes, \<open>remove_element\<close> ends without
  a fault; it returns 1 and removes exactly the first element whose first \<open>size\<close> bytes are those
  of the key, or returns 0 and keeps the contents when there is none, and what it leaves is a
  well-formed list.
\<close>

theorem remove_element_correct:
  assumes "list_ok h p as" "\<forall>b\<in>set (contents h as). unat sz \<le> length b"
    and "to_remove \<noteq> 0" "blocks h to_remove = Some kb" "unat sz \<le> length kb"
  shows "\<exists>r p' h' as'. remove_element h p to_remove sz = Some (Inr (r, p', h')) \<and> list_ok h' p' as' \<and>
     (r = 1 \<longleftrightarrow> (\<exists>b\<in>set (contents h as). take (unat sz) b = take (unat sz) kb)) \<and> (r = 0 \<or> r = 1) \<and>
     contents h' as' = remove_first_match (unat sz) (take (unat sz) kb) (contents h as)"
proof (cases "as = []")
  case True
  then have "p = 0" using assms(1) by (simp add: list_ok_def)
  with True show ?thesis
    by (intro exI [of _ 0] exI [of _ p] exI [of _ h] exI [of _ "[]"])
      (simp add: remove_element_def contents_def list_ok_def)
next
  case False
  let ?key = "take (unat sz) kb"
  have key: "length ?key = unat sz" using assms(5) by simp
  have p: "p \<noteq> 0" using assms(1) False seg_Nil_iff by (auto simp: list_ok_def)
  have "read_bytes h to_remove (unat sz) = Inr ?key" using assms by (intro read_bytes_Inr) auto
  then have "remove_element h p to_remove sz = remove_loop h p ?key p"
    using p by (simp add: remove_element_def)
  moreover have "\<exists>p' h' as'. remove_loop h p ?key p =
      Some (Inr (if \<exists>b\<in>set (contents h as). take (length ?key) b = ?key then 1 else 0, p', h')) \<and>
      list_ok h' p' as' \<and> contents h' as' = remove_first_match (length ?key) ?key (contents h ([] @ as))"
    using assms(1,2) key by (intro remove_loop_correct) (simp_all add: list_ok_def contents_def [of _ "[]"])
  ultimately show ?thesis using key by (auto split: if_splits)
qed

theorem remove_element_correct_witness:
  "\<exists>p' h' as'. remove_element demo_heap 16 300 2 = Some (Inr (1, p', h')) \<and> list_ok h' p' as' \<and> contents h' as' = [[1, 2]]"
  using remove_element_correct [OF demo_heap_ok, of 2 300 "[3, 4]"]
  by (auto simp: demo_contents)

text \<open>
  Insertion at the end. With fresh memory for the node and its data, \<open>insert_last\<close> appends a
  node to the contents, but only \<open>size - 1\<close> of its bytes, and unless the list was empty it leaves
  the \<open>next\<close> pointer of the new node as \<open>malloc\<close> returned it: the result is a well-formed list
  exactly when that indeterminate pointer happens to be null. In the block that is one byte short,
  \<open>remove_element\<close> for the same size then reads past the end.
\<close>

lemma insert_last_truncates:
  assumes "list_ok h p as" "to_add \<noteq> 0" "blocks h to_add = Some bs" "sz \<noteq> 0" "unat sz \<le> length bs"
    and "e \<noteq> 0" "nodes h e = None" "d \<noteq> 0" "blocks h d = None"
  shows "\<exists>p' h'. insert_last e g d h p to_add sz = Some (Inr (p', h')) \<and>
     contents h' (as @ [e]) = contents h as @ [take (unat sz - 1) bs] \<and>
     (list_ok h' p' (as @ [e]) \<longleftrightarrow> as = [] \<or> n_next g = 0) \<and>
     (as = [] \<longrightarrow> remove_element h' p' to_add sz = Some (Inl (Out_Of_Bounds d)))"
proof -
  have le: "unat sz \<le> Suc (length bs)" using assms(5) by simp
  from insert_last_effect [OF assms(1-4) le assms(6-9), of g] obtain p' h' where
    r: "insert_last e g d h p to_add sz = Some (Inr (p', h'))"
      "seg h' 0 p' (as @ [e]) (if as = [] then 0 else n_next g)"
      "contents h' (as @ [e]) = contents h as @ [take (unat sz - 1) bs]"
      "data_of h' e = d" "\<forall>a. a \<noteq> e \<longrightarrow> data_of h' a = data_of h a"
      "blocks h' = (blocks h)(d \<mapsto> take (unat sz - 1) bs)" by blast
  have ok: "seg h 0 p as 0" "distinct as" "distinct (map (data_of h) as)"
    "\<forall>a\<in>set as. data_of h a \<noteq> 0 \<and> blocks h (data_of h a) \<noteq> None" using assms(1) by (simp_all add: list_ok_def)
  have e: "e \<notin> set as" using seg_node [OF ok(1), of e] assms(7) by auto
  have m: "map (data_of h') as = map (data_of h) as" using r(5) e by (intro map_cong) auto
  have dm: "distinct (map (data_of h') as)" unfolding m by (rule ok(3))
  have d: "d \<notin> data_of h' ` set as" using ok(4) r(5) e assms(9) by (metis imageE)
  have "list_ok h' p' (as @ [e]) \<longleftrightarrow> seg h' 0 p' (as @ [e]) 0"
    unfolding list_ok_def using ok dm d e r(4,5,6) assms(8) by auto
  also have "\<dots> \<longleftrightarrow> (if as = [] then 0 else n_next g) = 0"
  proof
    assume "seg h' 0 p' (as @ [e]) 0"
    then show "(if as = [] then 0 else n_next g) = 0" by (rule seg_unique [OF r(2)])
  next
    assume z: "(if as = [] then 0 else n_next g) = 0"
    show "seg h' 0 p' (as @ [e]) 0" using r(2) unfolding z .
  qed
  finally have iff: "list_ok h' p' (as @ [e]) \<longleftrightarrow> as = [] \<or> n_next g = 0" by simp
  have "remove_element h' p' to_add sz = Some (Inl (Out_Of_Bounds d))" if nil: "as = []"
  proof -
    obtain n where n: "p' = e" "nodes h' e = Some n" using r(2) nil by auto
    have "n_data n = d" using r(4) n by (simp add: data_of_def)
    moreover have "to_add \<noteq> d" using assms(3,9) by auto
    then have "read_bytes h' to_add (unat sz) = Inr (take (unat sz) bs)"
      using assms r(6) by (intro read_bytes_Inr) auto
    moreover have "0 < unat sz" using assms(4) by (simp add: unat_gt_0)
    then have "read_bytes h' d (unat sz) = Inl (Out_Of_Bounds d)"
      using assms(5,8) r(6) by (auto simp: read_bytes_def)
    moreover have "length (take (unat sz) bs) = unat sz" using assms(5) by simp
    ultimately show ?thesis using n assms(6)
      by (simp add: remove_element_def remove_loop.simps del: length_take)
  qed
  with r(1,3) iff show ?thesis by blast
qed

text \<open>
  C40 (defects of the list). \<open>length_list\<close> ends only on the empty list; \<open>remove_first\<close> on a
  non-empty list always reads the node it has just freed; \<open>get_first\<close> of the empty list
  dereferences the null pointer.
\<close>

theorem linked_list_defects:
  "(length_list p = None \<longleftrightarrow> p \<noteq> 0) \<and>
   (list_ok h q as \<and> as \<noteq> [] \<longrightarrow> remove_first h q = Inl (Dangling_Access q)) \<and>
   get_first h 0 = Inl Null_Access"
  using remove_first_dangling by (auto simp: length_list_def length_loop_None get_first_def)

theorem linked_list_defects_witness:
  "length_list 16 = None \<and> remove_first demo_heap 16 = Inl (Dangling_Access 16)"
  using linked_list_defects [of 16 demo_heap 16 "[16, 32]"] demo_heap_ok by simp

end
