(* ===== verification/Boot.thy ===== *)
theory Boot
  imports Loader
begin

text \<open>
  The boot loader (\<open>boot.c\<close>): it reads the kernel's ELF header from sector 1 of the first IDE
  disk by programmed I/O, then each program segment, clears the memory after it, and jumps to the
  entry point. It runs before the kernel, on the same machine; the jump is the result, the entry
  address. Waiting for the disk and the check of the ELF magic are loops that may not end (\<open>None\<close>).

  The disk is a device, that is, the field \<open>m_dev\<close> of the machine. \<open>ata_disk\<close> states what the
  loader relies on: the status register becomes ready, and after the command to read a sector the
  data register gives the words of that sector one after the other.
\<close>

section \<open>The code\<close>

abbreviation ELFHDR :: u64 where "ELFHDR \<equiv> 0x10000"
abbreviation ATA_STATUS :: u16 where "ATA_STATUS \<equiv> 0x1F7"
abbreviation ATA_DATA :: u16 where "ATA_DATA \<equiv> 0x1F0"

partial_function (option) boot_waitdisk :: "machine \<Rightarrow> machine option" where
  "boot_waitdisk s =
     (let (v, s1) = inb ATA_STATUS s in if v AND 0xC0 \<noteq> 0x40 then boot_waitdisk s1 else Some s1)"

definition write32 :: "memory \<Rightarrow> u64 \<Rightarrow> u32 \<Rightarrow> memory" where
  "write32 m a v =
     m(a := ucast v, a + 1 := ucast (drop_bit 8 v), a + 2 := ucast (drop_bit 16 v), a + 3 := ucast (drop_bit 24 v))"

text \<open>The instruction \<open>repne insl\<close>: \<open>cnt\<close> double words from a port into memory.\<close>

fun insl :: "u16 \<Rightarrow> u64 \<Rightarrow> nat \<Rightarrow> machine \<Rightarrow> machine" where
  "insl port addr 0 s = s"
| "insl port addr (Suc cnt) s =
     (let (v, s1) = inl port s in insl port (addr + 4) cnt (s1\<lparr>m_mem := write32 (m_mem s1) addr v\<rparr>))"

definition boot_command :: "u32 \<Rightarrow> machine \<Rightarrow> machine" where
  "boot_command src_sect s =
     outb 0x1F7 0x20
       (outb 0x1F6 (ucast (drop_bit 24 src_sect OR 0xE0))
         (outb 0x1F5 (ucast (drop_bit 16 src_sect))
           (outb 0x1F4 (ucast (drop_bit 8 src_sect))
             (outb 0x1F3 (ucast src_sect) (outb 0x1F2 1 s)))))"

definition boot_readsect :: "u64 \<Rightarrow> u32 \<Rightarrow> machine \<Rightarrow> machine option" where
  "boot_readsect dst src_sect s =
     Option.bind (boot_waitdisk s) (\<lambda>s1.
       Option.bind (boot_waitdisk (boot_command src_sect s1)) (\<lambda>s2. Some (insl ATA_DATA dst 128 s2)))"

partial_function (option) boot_readsects :: "u64 \<Rightarrow> u64 \<Rightarrow> u32 \<Rightarrow> machine \<Rightarrow> machine option" where
  "boot_readsects ptr end_ptr src_sect s =
     (if ptr < end_ptr
      then Option.bind (boot_readsect ptr src_sect s) (boot_readsects (ptr + 512) end_ptr (src_sect + 1))
      else Some s)"

function boot_clear :: "u64 \<Rightarrow> u64 \<Rightarrow> memory \<Rightarrow> memory" where
  "boot_clear end_ptr memsz m = (if end_ptr < memsz then boot_clear (end_ptr + 1) memsz (m(end_ptr := 0)) else m)"
  by pat_completeness auto
termination
proof (relation "measure (\<lambda>(p, q, m). unat q - unat p)")
  fix p q :: u64 and m :: memory
  assume "p < q"
  then have "unat p < unat q" by (simp add: word_less_nat_alt)
  moreover from this have "unat p + 1 < 18446744073709551616" using unat_u64_less [of q] by linarith
  then have "unat (p + 1) = unat p + 1" by (simp add: unat_add_u64)
  ultimately show "((p + 1, q, m(p := 0)), p, q, m) \<in> measure (\<lambda>(p, q, m). unat q - unat p)" by simp
qed simp

declare boot_clear.simps [simp del]

definition boot_readseg :: "u64 \<Rightarrow> u32 \<Rightarrow> u64 \<Rightarrow> u64 \<Rightarrow> machine \<Rightarrow> machine option" where
  "boot_readseg ptr src_sect filesz memsz s =
     (let end_ptr = ptr + filesz; memsz1 = memsz + ptr; ptr1 = ptr AND NOT 511 in
      map_option (\<lambda>s1. s1\<lparr>m_mem := boot_clear end_ptr memsz1 (m_mem s1)\<rparr>)
        (boot_readsects ptr1 end_ptr src_sect s))"

text \<open>The loop over the program headers, 56 bytes each.\<close>

partial_function (option) boot_segments :: "u64 \<Rightarrow> u64 \<Rightarrow> machine \<Rightarrow> machine option" where
  "boot_segments ph eph s =
     (if ph < eph
      then
        let p = read_elf_program (m_mem s) ph in
        Option.bind (boot_readseg (ph_va p) (ucast (ph_offset p div 512 + 1)) (ph_filesz p) (ph_memsz p) s)
          (boot_segments (ph + 56) eph)
      else Some s)"

partial_function (option) boot_spin :: "machine \<Rightarrow> machine option" where
  "boot_spin s = (if e_magic (read_elf_header (m_mem s) ELFHDR) \<noteq> ELF_MAGIC then boot_spin s else Some s)"

definition boot :: "machine \<Rightarrow> (u64 \<times> machine) option" where
  "boot s =
     Option.bind (boot_readseg ELFHDR 1 4096 4096 s) (\<lambda>s1.
     Option.bind (boot_spin s1) (\<lambda>s2.
       let h = read_elf_header (m_mem s2) ELFHDR; ph = ELFHDR + e_phoff h in
       Option.bind (boot_segments ph (ph + 56 * ucast (e_phnum h)) s2) (\<lambda>s3.
         Some (e_entry (read_elf_header (m_mem s3) ELFHDR), s3))))"

section \<open>The disk\<close>

text \<open>
  What an ATA disk in LBA mode documents. \<open>disk\<close> gives its bytes by offset. Polled often enough, the
  status register says ready; a read command that is sent to a ready disk is served, once the status
  register has said ready again, by the words of the sector in the data register, one per read.
\<close>

definition disk_ready :: "u8 \<Rightarrow> bool" where
  "disk_ready v \<longleftrightarrow> v AND 0xC0 = 0x40"

definition read_command :: "u8 \<Rightarrow> u8 \<Rightarrow> u8 \<Rightarrow> u8 \<Rightarrow> ioev list" where
  "read_command lo mid hi dh =
     [OutB 0x1F7 0x20, OutB 0x1F6 dh, OutB 0x1F5 hi, OutB 0x1F4 mid, OutB 0x1F3 lo, OutB 0x1F2 1]"

definition lba :: "u8 \<Rightarrow> u8 \<Rightarrow> u8 \<Rightarrow> u8 \<Rightarrow> nat" where
  "lba lo mid hi dh = unat lo + 256 * unat mid + 65536 * unat hi + 16777216 * unat (dh AND 0x0F)"

definition sector_word :: "(nat \<Rightarrow> u8) \<Rightarrow> nat \<Rightarrow> nat \<Rightarrow> u32" where
  "sector_word disk sect i =
     (let b = (\<lambda>j. ucast (disk (512 * sect + 4 * i + j))) in
      b 0 OR push_bit 8 (b 1) OR push_bit 16 (b 2) OR push_bit 24 (b 3))"

fun polled :: "(ioev list \<Rightarrow> u16 \<Rightarrow> u32) \<Rightarrow> nat \<Rightarrow> ioev list \<Rightarrow> ioev list" where
  "polled dev 0 h = h"
| "polled dev (Suc n) h = polled dev n (InB ATA_STATUS (ucast (dev h ATA_STATUS)) # h)"

definition ata_disk :: "(ioev list \<Rightarrow> u16 \<Rightarrow> u32) \<Rightarrow> (nat \<Rightarrow> u8) \<Rightarrow> bool" where
  "ata_disk dev disk \<longleftrightarrow>
     (\<forall>h. \<exists>n. disk_ready (ucast (dev (polled dev n h) ATA_STATUS))) \<and>
     (\<forall>lo mid hi dh ds v ps w h.
        dh AND 0xF0 = 0xE0 \<longrightarrow> disk_ready v \<longrightarrow> disk_ready w \<longrightarrow> length ds < 128 \<longrightarrow>
        dev (map (InL ATA_DATA) ds @ InB ATA_STATUS v # map (InB ATA_STATUS) ps
               @ read_command lo mid hi dh @ InB ATA_STATUS w # h) ATA_DATA
          = sector_word disk (lba lo mid hi dh) (length ds))"

section \<open>Reading a sector\<close>

lemma boot_waitdisk_step:
  assumes "v = ucast (m_dev s (m_io s) ATA_STATUS)" "s1 = s\<lparr>m_io := InB ATA_STATUS v # m_io s\<rparr>"
  shows "boot_waitdisk s = (if disk_ready v then Some s1 else boot_waitdisk s1)"
  using assms by (subst boot_waitdisk.simps) (simp add: inb_def Let_def disk_ready_def)

lemma boot_waitdisk_returns:
  assumes "disk_ready (ucast (m_dev s (polled (m_dev s) n (m_io s)) ATA_STATUS))"
  shows "\<exists>v ps. boot_waitdisk s = Some (s\<lparr>m_io := InB ATA_STATUS v # map (InB ATA_STATUS) ps @ m_io s\<rparr>) \<and> disk_ready v"
  using assms
proof (induction n arbitrary: s)
  case 0
  then show ?case using boot_waitdisk_step [OF refl refl, of s]
    by (intro exI [of _ "ucast (m_dev s (m_io s) ATA_STATUS)"] exI [of _ "[]"]) simp
next
  case (Suc n)
  let ?v = "ucast (m_dev s (m_io s) ATA_STATUS) :: u8"
  let ?s = "s\<lparr>m_io := InB ATA_STATUS ?v # m_io s\<rparr>"
  note step = boot_waitdisk_step [OF refl refl, of s]
  show ?case
  proof (cases "disk_ready ?v")
    case True
    with step show ?thesis by (intro exI [of _ ?v] exI [of _ "[]"]) simp
  next
    case False
    obtain v ps where
      "boot_waitdisk ?s = Some (?s\<lparr>m_io := InB ATA_STATUS v # map (InB ATA_STATUS) ps @ m_io ?s\<rparr>)" "disk_ready v"
      using Suc.IH [of ?s] Suc.prems by auto
    with step False show ?thesis by (intro exI [of _ v] exI [of _ "ps @ [?v]"]) simp
  qed
qed

text \<open>\<open>n\<close> bytes of the disk from offset \<open>off\<close>, copied to memory at \<open>dst\<close>.\<close>

definition put_disk :: "(nat \<Rightarrow> u8) \<Rightarrow> nat \<Rightarrow> u64 \<Rightarrow> nat \<Rightarrow> memory \<Rightarrow> memory" where
  "put_disk disk off dst n m = (\<lambda>a. if unat (a - dst) < n then disk (off + unat (a - dst)) else m a)"

lemma put_disk_append:
  assumes "j + n < 18446744073709551616"
  shows "put_disk disk (off + j) (dst + of_nat j) n (put_disk disk off dst j m) = put_disk disk off dst (j + n) m"
proof
  fix a
  let ?x = "a - dst"
  have e: "a - (dst + of_nat j) = ?x - of_nat j" by simp
  have j: "unat (of_nat j :: u64) = j" using assms by (simp add: unat_of_nat take_bit_nat_eq_self)
  show "put_disk disk (off + j) (dst + of_nat j) n (put_disk disk off dst j m) a = put_disk disk off dst (j + n) m a"
  proof (cases "j \<le> unat ?x")
    case True
    then have "unat (?x - of_nat j) = unat ?x - j" using j by (metis unat_sub word_le_nat_alt)
    with True show ?thesis unfolding put_disk_def e by (auto simp: less_diff_conv2)
  next
    case False
    then have "?x < of_nat j" using j by (simp add: word_less_nat_alt)
    then have "unat (?x - of_nat j) = 18446744073709551616 + unat ?x - j"
      using j unat_sub_if' [of ?x "of_nat j"] False by simp
    with False assms show ?thesis unfolding put_disk_def e by auto
  qed
qed

lemma put_disk_0: "put_disk disk off dst 0 m = m" by (simp add: put_disk_def)

text \<open>A double word of a sector, stored, is four bytes of it; the instruction stores them all.\<close>

lemma sector_word_bytes:
  fixes b0 b1 b2 b3 :: u8
  defines "w \<equiv> (ucast b0 OR push_bit 8 (ucast b1) OR push_bit 16 (ucast b2) OR push_bit 24 (ucast b3)) :: u32"
  shows "ucast w = b0" "ucast (drop_bit 8 w) = b1" "ucast (drop_bit 16 w) = b2" "ucast (drop_bit 24 w) = b3"
  unfolding w_def by (rule bit_word_eqI; auto simp: bit_simps dest: bit_imp_le_length)+

lemma write32_sector_word:
  "write32 m addr (sector_word disk sect i) = put_disk disk (512 * sect + 4 * i) addr 4 m"
proof
  fix a
  have "unat (a - addr) < 4 \<longleftrightarrow> a = addr \<or> a = addr + 1 \<or> a = addr + 2 \<or> a = addr + 3"
  proof -
    have "unat (a - addr) < 4 \<longleftrightarrow> a - addr \<in> {0, 1, 2, 3}"
    proof
      assume "unat (a - addr) < 4"
      then have "unat (a - addr) = unat (0 :: u64) \<or> unat (a - addr) = unat (1 :: u64)
        \<or> unat (a - addr) = unat (2 :: u64) \<or> unat (a - addr) = unat (3 :: u64)" by simp linarith
      then show "a - addr \<in> {0, 1, 2, 3}" unfolding insert_iff empty_iff word_unat_eq_iff by blast
    qed auto
    then show ?thesis by (auto simp: diff_eq_eq add.commute)
  qed
  then show "write32 m addr (sector_word disk sect i) a = put_disk disk (512 * sect + 4 * i) addr 4 m a"
    unfolding write32_def sector_word_def Let_def sector_word_bytes put_disk_def by auto
qed

lemma insl_reads:
  assumes "\<And>ds. length ds < 128 \<Longrightarrow>
      m_dev s (map (InL ATA_DATA) ds @ R) ATA_DATA = sector_word disk sect (length ds)"
    and "m_io s = map (InL ATA_DATA) ds @ R" "length ds + n \<le> 128"
  shows "\<exists>io. insl ATA_DATA addr n s =
      s\<lparr>m_io := io, m_mem := put_disk disk (512 * sect + 4 * length ds) addr (4 * n) (m_mem s)\<rparr>"
  using assms
proof (induction n arbitrary: s ds addr)
  case 0
  then show ?case by (intro exI [of _ "m_io s"]) (simp add: put_disk_0)
next
  case (Suc n)
  let ?w = "sector_word disk sect (length ds)"
  let ?s = "s\<lparr>m_io := InL ATA_DATA ?w # m_io s, m_mem := write32 (m_mem s) addr ?w\<rparr>"
  have "m_dev s (m_io s) ATA_DATA = ?w" using Suc.prems by simp
  then have "insl ATA_DATA addr (Suc n) s = insl ATA_DATA (addr + 4) n ?s" by (simp add: inl_def Let_def)
  moreover obtain io where "insl ATA_DATA (addr + 4) n ?s =
      ?s\<lparr>m_io := io, m_mem := put_disk disk (512 * sect + 4 * length (?w # ds)) (addr + 4) (4 * n) (m_mem ?s)\<rparr>"
    using Suc.IH [of ?s "?w # ds"] Suc.prems by auto
  moreover have "put_disk disk (512 * sect + 4 * length ds + 4) (addr + of_nat 4) (4 * n)
      (put_disk disk (512 * sect + 4 * length ds) addr 4 (m_mem s))
    = put_disk disk (512 * sect + 4 * length ds) addr (4 + 4 * n) (m_mem s)"
    using Suc.prems(3) by (intro put_disk_append) simp
  ultimately show ?case by (intro exI [of _ io]) (simp add: write32_sector_word ac_simps)
qed

text \<open>The four bytes of the command name the sector, when it has 28 bits.\<close>

lemma lba_command:
  fixes sect :: u32
  assumes "unat sect < 268435456"
  shows "lba (ucast sect) (ucast (drop_bit 8 sect)) (ucast (drop_bit 16 sect)) (ucast (drop_bit 24 sect OR 0xE0)) = unat sect"
    and "(ucast (drop_bit 24 sect OR 0xE0) :: u8) AND 0xF0 = 0xE0"
proof -
  have d: "unat (drop_bit n sect) = unat sect div 2 ^ n" for n unfolding unat_drop_bit_eq by (rule drop_bit_eq_div)
  have u: "unat (ucast x :: u8) = unat x mod 256" for x :: u32 by (simp add: unsigned_ucast_eq take_bit_eq_mod)
  define k where "k = unat (drop_bit 24 sect)"
  have k: "k < 16" "k = unat sect div 16777216"
    using assms d [of 24] by (simp_all add: k_def less_mult_imp_div_less)
  have k3: "drop_bit 24 sect = of_nat k" unfolding k_def by (simp only: of_nat_unat ucast_id)
  have "k \<in> {0, 1, 2, 3, 4, 5, 6, 7, 8, 9, 10, 11, 12, 13, 14, 15}" using k(1) unfolding insert_iff empty_iff by presburger
  then have h: "unat ((ucast (drop_bit 24 sect OR 0xE0) :: u8) AND 0x0F) = k
      \<and> (ucast (drop_bit 24 sect OR 0xE0) :: u8) AND 0xF0 = 0xE0"
    unfolding k3 by auto
  then show "(ucast (drop_bit 24 sect OR 0xE0) :: u8) AND 0xF0 = 0xE0" by blast
  have "unat sect = unat sect mod 256 + 256 * (unat sect div 256 mod 256) + 65536 * (unat sect div 65536 mod 256)
      + 16777216 * (unat sect div 16777216)" (is "?x = _")
  proof -
    have e: "?x div 65536 = ?x div 256 div 256" "?x div 16777216 = ?x div 256 div 256 div 256"
      by (simp_all flip: div_mult2_eq)
    show ?thesis unfolding e using mod_mult_div_eq [of ?x 256] mod_mult_div_eq [of "?x div 256" 256]
        mod_mult_div_eq [of "?x div 256 div 256" 256] by linarith
  qed
  then show "lba (ucast sect) (ucast (drop_bit 8 sect)) (ucast (drop_bit 16 sect)) (ucast (drop_bit 24 sect OR 0xE0)) = unat sect"
    unfolding lba_def u d using h k(2) by simp
qed

lemma boot_readsect_reads:
  assumes "ata_disk (m_dev s) disk" "unat sect < 268435456"
  shows "\<exists>io. boot_readsect dst sect s = Some (s\<lparr>m_io := io, m_mem := put_disk disk (512 * unat sect) dst 512 (m_mem s)\<rparr>)"
proof -
  let ?dh = "ucast (drop_bit 24 sect OR 0xE0) :: u8"
  let ?cmd = "read_command (ucast sect) (ucast (drop_bit 8 sect)) (ucast (drop_bit 16 sect)) ?dh"
  have ready: "\<exists>n. disk_ready (ucast (m_dev s (polled (m_dev s) n h) ATA_STATUS))" for h
    using assms(1) by (simp add: ata_disk_def)
  from ready [of "m_io s"] obtain v0 ps0 where
    w0: "boot_waitdisk s = Some (s\<lparr>m_io := InB ATA_STATUS v0 # map (InB ATA_STATUS) ps0 @ m_io s\<rparr>)" "disk_ready v0"
    using boot_waitdisk_returns by blast
  let ?h = "map (InB ATA_STATUS) ps0 @ m_io s"
  let ?s1 = "s\<lparr>m_io := ?cmd @ InB ATA_STATUS v0 # ?h\<rparr>"
  have c: "boot_command sect (s\<lparr>m_io := InB ATA_STATUS v0 # ?h\<rparr>) = ?s1"
    by (simp add: boot_command_def outb_def read_command_def)
  have "\<exists>n. disk_ready (ucast (m_dev ?s1 (polled (m_dev ?s1) n (m_io ?s1)) ATA_STATUS))"
    using ready by simp
  then obtain v ps where
    w: "boot_waitdisk ?s1 = Some (?s1\<lparr>m_io := InB ATA_STATUS v # map (InB ATA_STATUS) ps @ m_io ?s1\<rparr>)" "disk_ready v"
    using boot_waitdisk_returns by blast
  let ?R = "InB ATA_STATUS v # map (InB ATA_STATUS) ps @ ?cmd @ InB ATA_STATUS v0 # ?h"
  let ?s2 = "s\<lparr>m_io := ?R\<rparr>"
  have "m_dev ?s2 (map (InL ATA_DATA) ds @ ?R) ATA_DATA = sector_word disk (unat sect) (length ds)" if "length ds < 128" for ds
  proof -
    have "\<forall>lo mid hi dh ds v ps w h.
        dh AND 0xF0 = 0xE0 \<longrightarrow> disk_ready v \<longrightarrow> disk_ready w \<longrightarrow> length ds < 128 \<longrightarrow>
        m_dev s (map (InL ATA_DATA) ds @ InB ATA_STATUS v # map (InB ATA_STATUS) ps
               @ read_command lo mid hi dh @ InB ATA_STATUS w # h) ATA_DATA
          = sector_word disk (lba lo mid hi dh) (length ds)"
      using assms(1) unfolding ata_disk_def by (rule conjunct2)
    from this [rule_format, OF lba_command(2) [OF assms(2)] w(2) w0(2) that]
    show ?thesis using lba_command(1) [OF assms(2)] by simp
  qed
  then obtain io where "insl ATA_DATA dst 128 ?s2 = ?s2\<lparr>m_io := io, m_mem := put_disk disk (512 * unat sect) dst 512 (m_mem s)\<rparr>"
    using insl_reads [of ?s2 ?R disk "unat sect" "[]" 128 dst] by auto
  with w0(1) w(1) c show ?thesis by (intro exI [of _ io]) (simp add: boot_readsect_def)
qed

section \<open>Loading a segment\<close>

text \<open>
  The sector-aligned start of a segment in memory, the number of sectors that are read for it, and
  the first address after everything that is written for it.
\<close>

definition seg_lo :: "u64 \<Rightarrow> nat" where
  "seg_lo va = unat va - unat va mod 512"

definition seg_sectors :: "u64 \<Rightarrow> u64 \<Rightarrow> nat" where
  "seg_sectors va filesz = (unat va + unat filesz - seg_lo va + 511) div 512"

definition seg_hi :: "u64 \<Rightarrow> u64 \<Rightarrow> u64 \<Rightarrow> nat" where
  "seg_hi va filesz memsz = max (seg_lo va + 512 * seg_sectors va filesz) (unat va + unat memsz)"

lemma boot_clear_zeros: "boot_clear p q m a = (if p \<le> a \<and> a < q then 0 else m a)"
proof (induction p q m rule: boot_clear.induct)
  case (1 p q m)
  show ?case
  proof (cases "p < q")
    case True
    then have "unat p < unat q" by (simp add: word_less_nat_alt)
    then have "unat p + 1 < 18446744073709551616" using unat_u64_less [of q] by linarith
    then have "unat (p + 1) = unat p + 1" by (simp add: unat_add_u64)
    then have "p \<le> a \<longleftrightarrow> a = p \<or> p + 1 \<le> a" by (simp add: word_le_nat_alt word_unat_eq_iff) linarith
    moreover have "boot_clear p q m = boot_clear (p + 1) q (m(p := 0))" using True by (subst boot_clear.simps) simp
    ultimately show ?thesis using True by (simp only: "1.IH") auto
  next
    case False
    then show ?thesis by (subst boot_clear.simps) auto
  qed
qed

lemma boot_readsects_reads:
  assumes "ata_disk (m_dev s) disk" "unat end_ptr + 512 < 18446744073709551616"
    and "n = (unat end_ptr - unat ptr + 511) div 512" "unat sect + n \<le> 268435456"
  shows "\<exists>io. boot_readsects ptr end_ptr sect s =
      Some (s\<lparr>m_io := io, m_mem := put_disk disk (512 * unat sect) ptr (512 * n) (m_mem s)\<rparr>)"
  using assms
proof (induction n arbitrary: ptr sect s)
  case 0
  then have "\<not> ptr < end_ptr" by (simp add: word_less_nat_alt div_eq_0_iff)
  then show ?case by (subst boot_readsects.simps) (simp add: put_disk_0 exI [of _ "m_io s"])
next
  case (Suc n)
  have less: "unat ptr < unat end_ptr" using Suc.prems(3) by (cases "unat ptr < unat end_ptr") simp_all
  have p: "unat (ptr + 512) = unat ptr + 512" using less Suc.prems(2) by (simp add: unat_add_u64)
  have sc: "unat (sect + 1) = unat sect + 1"
    using Suc.prems(4) by (simp add: unat_word_ariths)
  have n: "n = (unat end_ptr - unat (ptr + 512) + 511) div 512"
  proof (cases "unat ptr + 512 \<le> unat end_ptr")
    case True
    then have "unat end_ptr - unat ptr + 511 = (unat end_ptr - unat (ptr + 512) + 511) + 512" using p by simp
    then show ?thesis using Suc.prems(3) by simp
  next
    case False
    with less have "(unat end_ptr - unat ptr + 511) div 512 = 1" by (intro div_nat_eqI) simp_all
    with False Suc.prems(3) p show ?thesis by simp
  qed
  obtain io where r: "boot_readsect ptr sect s =
      Some (s\<lparr>m_io := io, m_mem := put_disk disk (512 * unat sect) ptr 512 (m_mem s)\<rparr>)" (is "_ = Some ?s1")
    using boot_readsect_reads [OF Suc.prems(1), of sect ptr] Suc.prems(4) by auto
  obtain io' where "boot_readsects (ptr + 512) end_ptr (sect + 1) ?s1 =
      Some (?s1\<lparr>m_io := io', m_mem := put_disk disk (512 * unat (sect + 1)) (ptr + 512) (512 * n) (m_mem ?s1)\<rparr>)"
    using Suc.IH [of ?s1 "ptr + 512" "sect + 1"] Suc.prems(1,2,4) n sc by auto
  moreover have "put_disk disk (512 * unat sect + 512) (ptr + of_nat 512) (512 * n) (put_disk disk (512 * unat sect) ptr 512 (m_mem s))
      = put_disk disk (512 * unat sect) ptr (512 + 512 * n) (m_mem s)"
    using Suc.prems(4) by (intro put_disk_append) simp
  ultimately show ?case using r less sc
    by (subst boot_readsects.simps) (simp add: word_less_nat_alt exI [of _ io'] add.commute)
qed

text \<open>
  Segments that \<open>boot_readseg\<close> can place: they do not wrap around, their sectors have 28-bit numbers,
  and their offset in the file and their address agree modulo the sector size.
\<close>

definition seg_fits :: "elf_program \<Rightarrow> bool" where
  "seg_fits p \<longleftrightarrow>
     unat (ph_va p) + unat (ph_memsz p) + 512 < 18446744073709551616 \<and> ph_filesz p \<le> ph_memsz p \<and>
     unat (ph_offset p) div 512 + 1 + seg_sectors (ph_va p) (ph_filesz p) \<le> 268435456 \<and>
     unat (ph_offset p) mod 512 = unat (ph_va p) mod 512"

text \<open>The segment is in memory, when the file starts in sector 1 of the disk.\<close>

definition seg_loaded :: "(nat \<Rightarrow> u8) \<Rightarrow> elf_program \<Rightarrow> memory \<Rightarrow> bool" where
  "seg_loaded disk p m \<longleftrightarrow>
     (\<forall>i < unat (ph_memsz p). m (ph_va p + of_nat i) =
        (if i < unat (ph_filesz p) then disk (512 + unat (ph_offset p) + i) else 0))"

lemma unat_and_not_511: "unat ((va :: u64) AND NOT 511) = seg_lo va"
  using unat_clear_low_bits [of va 9] by (simp add: seg_lo_def mask_numeral)

text \<open>Clearing after the copy, seen from an address \<open>a\<close> of the segment and from one outside.\<close>

lemma seg_memory:
  assumes "unat base = lo" "lo + 512 * n < 18446744073709551616"
  shows "lo \<le> unat a \<Longrightarrow> unat a < lo + 512 * n \<Longrightarrow> put_disk disk off base (512 * n) m a = disk (off + (unat a - lo))"
    and "unat a < lo \<or> lo + 512 * n \<le> unat a \<Longrightarrow> put_disk disk off base (512 * n) m a = m a"
proof -
  have d: "unat (a - base) = (if lo \<le> unat a then unat a - lo else unat a + 18446744073709551616 - lo)"
    using unat_sub_if' [of a base] assms(1) by simp
  show "lo \<le> unat a \<Longrightarrow> unat a < lo + 512 * n \<Longrightarrow> put_disk disk off base (512 * n) m a = disk (off + (unat a - lo))"
    by (simp add: put_disk_def d less_diff_conv2)
  show "unat a < lo \<or> lo + 512 * n \<le> unat a \<Longrightarrow> put_disk disk off base (512 * n) m a = m a"
    using assms(2) unfolding put_disk_def d by auto
qed

lemma boot_readseg_loads:
  assumes "ata_disk (m_dev s) disk" "seg_fits p"
  shows "\<exists>io m. boot_readseg (ph_va p) (ucast (ph_offset p div 512 + 1)) (ph_filesz p) (ph_memsz p) s
      = Some (s\<lparr>m_io := io, m_mem := m\<rparr>) \<and> seg_loaded disk p m
    \<and> (\<forall>a. unat a < seg_lo (ph_va p) \<or> seg_hi (ph_va p) (ph_filesz p) (ph_memsz p) \<le> unat a \<longrightarrow> m a = m_mem s a)"
proof -
  obtain va off filesz memsz where f: "ph_va p = va" "ph_offset p = off" "ph_filesz p = filesz" "ph_memsz p = memsz" by blast
  note fits = assms(2) [unfolded seg_fits_def f]
  let ?sect = "ucast (off div 512 + 1) :: u32" and ?base = "va AND NOT 511" and ?n = "seg_sectors va filesz"
  have sz: "unat filesz \<le> unat memsz" using fits by (simp add: word_le_nat_alt)
  have e: "unat (va + filesz) = unat va + unat filesz" "unat (memsz + va) = unat va + unat memsz"
    using fits sz by (simp_all add: unat_add_u64)
  have lo: "seg_lo va \<le> unat va" "unat va = seg_lo va + unat va mod 512" by (simp_all add: seg_lo_def)
  have n: "unat va + unat filesz \<le> seg_lo va + 512 * ?n" "seg_lo va + 512 * ?n < unat va + unat filesz + 512"
    using lo(1) unfolding seg_sectors_def by linarith+
  have o: "unat (off div 512 + 1) = unat off div 512 + 1"
  proof -
    have "unat off div 512 + 1 < 18446744073709551616" using unat_u64_less [of off] by linarith
    then show ?thesis by (subst unat_add_u64) (simp_all add: unat_div)
  qed
  have sect: "unat ?sect = unat off div 512 + 1"
    using fits o by (simp add: unsigned_ucast_eq take_bit_nat_eq_self)
  obtain io where io: "boot_readsects ?base (va + filesz) ?sect s =
      Some (s\<lparr>m_io := io, m_mem := put_disk disk (512 * unat ?sect) ?base (512 * ?n) (m_mem s)\<rparr>)"
  proof -
    have "unat (va + filesz) + 512 < 18446744073709551616" using fits sz unfolding e by linarith
    moreover have "?n = (unat (va + filesz) - unat ?base + 511) div 512"
      unfolding unat_and_not_511 e seg_sectors_def ..
    moreover have "unat ?sect + ?n \<le> 268435456" using fits unfolding sect by blast
    ultimately show thesis using boot_readsects_reads [OF assms(1)] that by blast
  qed
  define m where "m = boot_clear (va + filesz) (memsz + va) (put_disk disk (512 * unat ?sect) ?base (512 * ?n) (m_mem s))"
  have r: "boot_readseg va ?sect filesz memsz s = Some (s\<lparr>m_io := io, m_mem := m\<rparr>)"
    using io by (simp add: boot_readseg_def Let_def m_def)
  have bound: "seg_lo va + 512 * ?n < 18446744073709551616" using n(2) fits sz by linarith
  note mem = seg_memory [OF unat_and_not_511 bound]
  have "seg_loaded disk p m"
    unfolding seg_loaded_def f
  proof (intro allI impI)
    fix i assume i: "i < unat memsz"
    have "unat (of_nat i :: u64) = i" using i fits by (simp add: unat_of_nat take_bit_nat_eq_self)
    then have a: "unat (va + of_nat i) = unat va + i" using i fits by (simp add: unat_add_u64)
    show "m (va + of_nat i) = (if i < unat filesz then disk (512 + unat off + i) else 0)"
    proof (cases "i < unat filesz")
      case True
      have "512 * unat ?sect + (unat va + i - seg_lo va) = 512 + unat off + i"
      proof -
        have "unat va + i - seg_lo va = unat off mod 512 + i" using fits lo by simp
        then show ?thesis using mult_div_mod_eq [of 512 "unat off"] unfolding sect by simp
      qed
      moreover have "m (va + of_nat i) = disk (512 * unat ?sect + (unat va + i - seg_lo va))"
        using True i n(1) lo(1) mem(1) [of "va + of_nat i" disk "512 * unat ?sect" "m_mem s"]
        by (simp add: m_def boot_clear_zeros word_le_nat_alt a e)
      ultimately show ?thesis using True by simp
    next
      case False
      then show ?thesis using i by (simp add: m_def boot_clear_zeros word_le_nat_alt word_less_nat_alt a e)
    qed
  qed
  moreover have "m a = m_mem s a" if "unat a < seg_lo va \<or> seg_hi va filesz memsz \<le> unat a" for a
    using that lo(1) mem(2) [of a disk "512 * unat ?sect" "m_mem s"]
    by (auto simp: m_def boot_clear_zeros word_le_nat_alt word_less_nat_alt e seg_hi_def)
  ultimately show ?thesis unfolding f using r by blast
qed

section \<open>Loading the kernel\<close>

text \<open>The kernel's file as the loader finds it: an ELF header and program headers from sector 1 on.\<close>

definition disk_mem :: "(nat \<Rightarrow> u8) \<Rightarrow> memory" where
  "disk_mem disk a = disk (512 + unat a)"

definition boot_header :: "(nat \<Rightarrow> u8) \<Rightarrow> elf_header" where
  "boot_header disk = read_elf_header (disk_mem disk) 0"

definition boot_phdrs :: "(nat \<Rightarrow> u8) \<Rightarrow> elf_program list" where
  "boot_phdrs disk =
     map (\<lambda>i. read_elf_program (disk_mem disk) (e_phoff (boot_header disk) + 56 * of_nat i))
       [0..<unat (e_phnum (boot_header disk))]"

text \<open>
  Nothing that is written for a segment touches the page of scratch space with the headers, and
  nothing that is written for a later segment touches an earlier one.
\<close>

definition off_scratch :: "elf_program \<Rightarrow> bool" where
  "off_scratch p \<longleftrightarrow> seg_hi (ph_va p) (ph_filesz p) (ph_memsz p) \<le> 0x10000 \<or> 0x11000 \<le> seg_lo (ph_va p)"

text \<open>
  Nor does it touch the memory the loader runs in, or lie where \<open>bootstart.S\<close> has mapped no memory: the
  loader is at 0x7C00 to 0x7DFF with its stack below it (which is given the rest of its page), the page
  tables are at 0x8000 to 0xAFFF, and they map the first gigabyte.
\<close>

definition off_loader :: "elf_program \<Rightarrow> bool" where
  "off_loader p \<longleftrightarrow>
     (seg_hi (ph_va p) (ph_filesz p) (ph_memsz p) \<le> 0x7000 \<or> 0xB000 \<le> seg_lo (ph_va p)) \<and>
     seg_hi (ph_va p) (ph_filesz p) (ph_memsz p) \<le> 0x40000000"

definition seg_apart :: "elf_program \<Rightarrow> elf_program \<Rightarrow> bool" where
  "seg_apart p q \<longleftrightarrow>
     seg_hi (ph_va q) (ph_filesz q) (ph_memsz q) \<le> unat (ph_va p) \<or> unat (ph_va p) + unat (ph_memsz p) \<le> seg_lo (ph_va q)"

definition bootable :: "(nat \<Rightarrow> u8) \<Rightarrow> bool" where
  "bootable disk \<longleftrightarrow>
     e_magic (boot_header disk) = ELF_MAGIC \<and>
     unat (e_phoff (boot_header disk)) + 56 * unat (e_phnum (boot_header disk)) \<le> 4096 \<and>
     list_all (\<lambda>p. seg_fits p \<and> off_scratch p) (boot_phdrs disk) \<and> list_all off_loader (boot_phdrs disk) \<and>
     sorted_wrt seg_apart (boot_phdrs disk)"

definition headers_read :: "(nat \<Rightarrow> u8) \<Rightarrow> memory \<Rightarrow> bool" where
  "headers_read disk m \<longleftrightarrow> (\<forall>j < 4096. m (ELFHDR + of_nat j) = disk (512 + j))"

lemma read64_headers:
  assumes "headers_read disk m" "unat a + 8 \<le> 4096"
  shows "read64 m (ELFHDR + a) = read64 (disk_mem disk) a"
proof -
  have b: "m (ELFHDR + x) = disk_mem disk x" if "unat x < 4096" for x
    using assms(1) that unfolding headers_read_def disk_mem_def by (metis of_nat_unat ucast_id)
  have "m (ELFHDR + a + k) = disk_mem disk (a + k)" if "unat k < 8" for k
    using b [of "a + k"] that assms(2) by (simp add: unat_add_u64 add.assoc)
  from this [of 0] this [of 1] this [of 2] this [of 3] this [of 4] this [of 5] this [of 6] this [of 7]
  show ?thesis by (simp add: read64_def)
qed

lemma read_headers:
  assumes "headers_read disk m"
  shows "read_elf_header m ELFHDR = boot_header disk"
    and "unat a + 56 \<le> 4096 \<Longrightarrow> read_elf_program m (ELFHDR + a) = read_elf_program (disk_mem disk) a"
proof -
  have r: "read64 m (ELFHDR + k) = read64 (disk_mem disk) k" if "unat k \<le> 4000" for k
    using read64_headers [OF assms] that by simp
  from r [of 0] r [of "0x18"] r [of "0x20"] r [of "0x38"]
  show "read_elf_header m ELFHDR = boot_header disk" by (simp add: boot_header_def read_elf_header_def)
  assume a: "unat a + 56 \<le> 4096"
  have "read64 m (ELFHDR + a + k) = read64 (disk_mem disk) (a + k)" if "unat k \<le> 48" for k
    using read64_headers [OF assms, of "a + k"] that a by (simp add: unat_add_u64 add.assoc)
  from this [of 0] this [of "0x08"] this [of "0x10"] this [of "0x20"] this [of "0x28"]
  show "read_elf_program m (ELFHDR + a) = read_elf_program (disk_mem disk) a"
    by (simp add: read_elf_program_def)
qed

lemma headers_read_kept:
  assumes "headers_read disk m" "\<And>a. 0x10000 \<le> unat a \<Longrightarrow> unat a < 0x11000 \<Longrightarrow> m' a = m a"
  shows "headers_read disk m'"
  unfolding headers_read_def
proof (intro allI impI)
  fix j :: nat assume "j < 4096"
  then have "unat (ELFHDR + of_nat j) = 0x10000 + j" by (simp add: unat_add_u64 unat_of_nat take_bit_nat_eq_self)
  with \<open>j < 4096\<close> assms show "m' (ELFHDR + of_nat j) = disk (512 + j)" by (simp add: headers_read_def)
qed

text \<open>The first read puts the page of headers into the scratch space.\<close>

lemma boot_reads_headers:
  assumes "ata_disk (m_dev s) disk"
  shows "\<exists>io m. boot_readseg ELFHDR 1 4096 4096 s = Some (s\<lparr>m_io := io, m_mem := m\<rparr>) \<and> headers_read disk m
    \<and> (\<forall>a. unat a < 0x10000 \<or> 0x11000 \<le> unat a \<longrightarrow> m a = m_mem s a)"
  using boot_readseg_loads [OF assms,
      of "\<lparr>ph_type = 0, ph_offset = 0, ph_va = ELFHDR, ph_filesz = 4096, ph_memsz = 4096\<rparr>"]
  by (simp add: seg_fits_def seg_sectors_def seg_lo_def seg_hi_def seg_loaded_def headers_read_def)

definition untouched :: "elf_program list \<Rightarrow> u64 \<Rightarrow> bool" where
  "untouched ps a \<longleftrightarrow> list_all (\<lambda>p. unat a < seg_lo (ph_va p) \<or> seg_hi (ph_va p) (ph_filesz p) (ph_memsz p) \<le> unat a) ps"

lemma seg_loaded_kept:
  assumes "seg_loaded disk p m" "seg_fits p" "\<And>a. untouched ps a \<Longrightarrow> m' a = m a" "list_all (seg_apart p) ps"
  shows "seg_loaded disk p m'"
  unfolding seg_loaded_def
proof (intro allI impI)
  fix i assume i: "i < unat (ph_memsz p)"
  have "unat (of_nat i :: u64) = i" using i assms(2) by (simp add: seg_fits_def unat_of_nat take_bit_nat_eq_self)
  then have "unat (ph_va p + of_nat i) = unat (ph_va p) + i" using i assms(2) by (simp add: seg_fits_def unat_add_u64)
  then have "untouched ps (ph_va p + of_nat i)"
    using assms(4) i unfolding untouched_def seg_apart_def list_all_iff by fastforce
  then show "m' (ph_va p + of_nat i) = (if i < unat (ph_filesz p) then disk (512 + unat (ph_offset p) + i) else 0)"
    using assms(1,3) i by (simp add: seg_loaded_def)
qed

lemma boot_segments_load:
  assumes "ata_disk (m_dev s) disk" "headers_read disk (m_mem s)" "unat off + 56 * k \<le> 4096"
    and "ps = map (\<lambda>i. read_elf_program (disk_mem disk) (off + 56 * of_nat i)) [0..<k]"
    and "list_all (\<lambda>p. seg_fits p \<and> off_scratch p) ps" "sorted_wrt seg_apart ps"
  shows "\<exists>io m. boot_segments (ELFHDR + off) (ELFHDR + off + 56 * of_nat k) s = Some (s\<lparr>m_io := io, m_mem := m\<rparr>)
    \<and> headers_read disk m \<and> list_all (\<lambda>p. seg_loaded disk p m) ps \<and> (\<forall>a. untouched ps a \<longrightarrow> m a = m_mem s a)"
  using assms
proof (induction k arbitrary: off s ps)
  case 0
  then show ?case by (subst boot_segments.simps, intro exI [of _ "m_io s"] exI [of _ "m_mem s"]) simp
next
  case (Suc k)
  let ?p = "read_elf_program (disk_mem disk) off"
  let ?ps = "map (\<lambda>i. read_elf_program (disk_mem disk) (off + 56 + 56 * of_nat i)) [0..<k]"
  have ps: "ps = ?p # ?ps" using Suc.prems(4) by (simp only: map_upt_Suc) (simp add: algebra_simps)
  have off: "unat (off + 56) = unat off + 56" using Suc.prems(3) by (simp add: unat_add_u64)
  have p: "read_elf_program (m_mem s) (ELFHDR + off) = ?p"
    using read_headers(2) [OF Suc.prems(2)] Suc.prems(3) by simp
  have fit: "seg_fits ?p" "off_scratch ?p" "list_all (seg_apart ?p) ?ps" using Suc.prems(5,6) by (simp_all add: ps list_all_iff)
  obtain io m where r: "boot_readseg (ph_va ?p) (ucast (ph_offset ?p div 512 + 1)) (ph_filesz ?p) (ph_memsz ?p) s
      = Some (s\<lparr>m_io := io, m_mem := m\<rparr>)" (is "_ = Some ?s1") "seg_loaded disk ?p m"
      "\<And>a. untouched [?p] a \<Longrightarrow> m a = m_mem s a"
    using boot_readseg_loads [OF Suc.prems(1) fit(1)] unfolding untouched_def by auto
  have "headers_read disk m"
    using Suc.prems(2) by (rule headers_read_kept) (use fit(2) r(3) in \<open>auto simp: off_scratch_def untouched_def\<close>)
  then obtain io' m' where r': "boot_segments (ELFHDR + (off + 56)) (ELFHDR + (off + 56) + 56 * of_nat k) ?s1
        = Some (?s1\<lparr>m_io := io', m_mem := m'\<rparr>)"
      "headers_read disk m'" "list_all (\<lambda>p. seg_loaded disk p m') ?ps" "\<And>a. untouched ?ps a \<Longrightarrow> m' a = m a"
    using Suc.IH [of ?s1 "off + 56" ?ps] Suc.prems(1,3,5,6) off by (auto simp: ps)
  have less: "ELFHDR + off < ELFHDR + off + 56 * of_nat (Suc k)"
  proof -
    have "unat (of_nat (Suc k) :: u64) = Suc k" using Suc.prems(3) by (simp only: unat_of_nat) (simp add: take_bit_nat_eq_self)
    then have "unat (56 * of_nat (Suc k) :: u64) = 56 * Suc k" using Suc.prems(3) by (subst unat_mult_u64) simp_all
    then show ?thesis using Suc.prems(3) by (simp add: word_less_nat_alt unat_add_u64 del: of_nat_Suc)
  qed
  have "boot_segments (ELFHDR + off) (ELFHDR + off + 56 * of_nat (Suc k)) s = Some (s\<lparr>m_io := io', m_mem := m'\<rparr>)"
    using r(1) r'(1) less by (subst boot_segments.simps) (simp add: p [unfolded add.commute [of ELFHDR off]] Let_def algebra_simps)
  moreover have "seg_loaded disk ?p m'" by (rule seg_loaded_kept [OF r(2) fit(1) r'(4) fit(3)])
  moreover have "m' a = m_mem s a" if "untouched ps a" for a using that r(3) r'(4) by (simp add: ps untouched_def)
  ultimately show ?case using r'(2,3) by (intro exI [of _ io'] exI [of _ m']) (simp add: ps)
qed

text \<open>With a wrong magic number the loader spins for ever.\<close>

lemma boot_spin_magic: "boot_spin s = Some s' \<Longrightarrow> e_magic (read_elf_header (m_mem s) ELFHDR) = ELF_MAGIC"
  by (erule boot_spin.raw_induct [rotated]) (auto split: if_splits)

lemma boot_spin_ok: "e_magic (read_elf_header (m_mem s) ELFHDR) = ELF_MAGIC \<Longrightarrow> boot_spin s = Some s"
  by (subst boot_spin.simps) simp

lemma boot_ends:
  assumes "ata_disk (m_dev s) disk" "bootable disk"
  shows "\<exists>s'. boot s = Some (e_entry (boot_header disk), s')
      \<and> list_all (\<lambda>p. seg_loaded disk p (m_mem s')) (boot_phdrs disk)
      \<and> (\<forall>a. untouched (boot_phdrs disk) a \<and> (unat a < 0x10000 \<or> 0x11000 \<le> unat a) \<longrightarrow> m_mem s' a = m_mem s a)"
proof -
  let ?h = "boot_header disk" and ?ps = "boot_phdrs disk"
  note b = assms(2) [unfolded bootable_def]
  obtain io m where r: "boot_readseg ELFHDR 1 4096 4096 s = Some (s\<lparr>m_io := io, m_mem := m\<rparr>)" (is "_ = Some ?s1")
      "headers_read disk m" "\<And>a. unat a < 0x10000 \<or> 0x11000 \<le> unat a \<Longrightarrow> m a = m_mem s a"
    using boot_reads_headers [OF assms(1)] by blast
  have h: "read_elf_header m ELFHDR = ?h" by (rule read_headers(1) [OF r(2)])
  obtain io' m' where r': "boot_segments (ELFHDR + e_phoff ?h) (ELFHDR + e_phoff ?h + 56 * of_nat (unat (e_phnum ?h))) ?s1
        = Some (?s1\<lparr>m_io := io', m_mem := m'\<rparr>)"
      "headers_read disk m'" "list_all (\<lambda>p. seg_loaded disk p m') ?ps" "\<And>a. untouched ?ps a \<Longrightarrow> m' a = m a"
    using boot_segments_load [of ?s1 disk "e_phoff ?h" "unat (e_phnum ?h)" ?ps] assms(1) r(2) b
    unfolding boot_phdrs_def by auto
  have "boot_spin ?s1 = Some ?s1" using b h by (intro boot_spin_ok) simp
  then have "boot s = Some (e_entry ?h, s\<lparr>m_io := io', m_mem := m'\<rparr>)"
    using r(1) r'(1) h read_headers(1) [OF r'(2)] by (simp add: boot_def Let_def of_nat_unat)
  with r(3) r'(3,4) show ?thesis by (intro exI [of _ "s\<lparr>m_io := io', m_mem := m'\<rparr>"]) simp
qed

lemma boot_hangs:
  assumes "ata_disk (m_dev s) disk" "e_magic (boot_header disk) \<noteq> ELF_MAGIC"
  shows "boot s = None"
proof -
  obtain io m where r: "boot_readseg ELFHDR 1 4096 4096 s = Some (s\<lparr>m_io := io, m_mem := m\<rparr>)" (is "_ = Some ?s1")
      "headers_read disk m"
    using boot_reads_headers [OF assms(1)] by blast
  have "read_elf_header m ELFHDR = boot_header disk" by (rule read_headers(1) [OF r(2)])
  with assms(2) r(1) boot_spin_magic [of ?s1] show ?thesis by (cases "boot_spin ?s1") (auto simp: boot_def)
qed

text \<open>
  C32 (the boot loader loads the kernel): on a machine whose first disk is an ATA disk, if the sectors
  from 1 on hold a bootable kernel file (one whose segments keep clear of the loader, its page tables and
  its scratch page and lie in the memory that is mapped), \<open>boot\<close> ends: it jumps to the entry point of the file with
  every segment in memory (the bytes of the file, then zeros), and memory outside the segments (with
  their sectors) and the scratch page is as before. If the magic number of the file is wrong, \<open>boot\<close>
  never ends.
\<close>

theorem boot_loads_kernel:
  assumes "ata_disk (m_dev s) disk"
  shows "(bootable disk \<longrightarrow> (\<exists>s'. boot s = Some (e_entry (boot_header disk), s')
      \<and> list_all (\<lambda>p. seg_loaded disk p (m_mem s')) (boot_phdrs disk)
      \<and> (\<forall>a. untouched (boot_phdrs disk) a \<and> (unat a < 0x10000 \<or> 0x11000 \<le> unat a) \<longrightarrow> m_mem s' a = m_mem s a)))
    \<and> (e_magic (boot_header disk) \<noteq> ELF_MAGIC \<longrightarrow> boot s = None)"
  using boot_ends [OF assms] boot_hangs [OF assms] by blast

section \<open>A disk and a kernel\<close>

text \<open>A disk that is always ready, and serves the last command in its history.\<close>

fun served_word :: "(nat \<Rightarrow> u8) \<Rightarrow> nat \<Rightarrow> ioev list \<Rightarrow> u32" where
  "served_word disk n (InL p v # h) = served_word disk (Suc n) h"
| "served_word disk n (InB p v # h) = served_word disk n h"
| "served_word disk n (OutB p c # h) =
     (case h of
        OutB p1 dh # OutB p2 hi # OutB p3 mid # OutB p4 lo # h' \<Rightarrow> sector_word disk (lba lo mid hi dh) n
      | _ \<Rightarrow> 0)"
| "served_word disk n h = 0"

definition ready_disk :: "(nat \<Rightarrow> u8) \<Rightarrow> ioev list \<Rightarrow> u16 \<Rightarrow> u32" where
  "ready_disk disk h port = (if port = ATA_STATUS then 0x40 else served_word disk 0 h)"

lemma served_word_data: "served_word disk n (map (InL q) ds @ h) = served_word disk (n + length ds) h"
  by (induction ds arbitrary: n) simp_all

lemma served_word_polls: "served_word disk n (map (InB q) ps @ h) = served_word disk n h"
  by (induction ps) simp_all

lemma ready_disk_is_ata: "ata_disk (ready_disk disk) disk"
  unfolding ata_disk_def
proof (intro conjI allI impI)
  fix h show "\<exists>n. disk_ready (ucast (ready_disk disk (polled (ready_disk disk) n h) ATA_STATUS))"
    by (intro exI [of _ 0]) (simp add: ready_disk_def disk_ready_def)
next
  fix lo mid hi dh v w :: u8 and ds :: "u32 list" and ps :: "u8 list" and h
  show "ready_disk disk (map (InL ATA_DATA) ds @ InB ATA_STATUS v # map (InB ATA_STATUS) ps
          @ read_command lo mid hi dh @ InB ATA_STATUS w # h) ATA_DATA
      = sector_word disk (lba lo mid hi dh) (length ds)"
    by (simp add: ready_disk_def served_word_data served_word_polls read_command_def)
qed

definition disk_of :: "u8 list \<Rightarrow> nat \<Rightarrow> u8" where
  "disk_of bs i = (if i < length bs then bs ! i else 0)"

text \<open>A kernel of two instructions at address \<open>0x40078\<close>, with two more bytes of cleared memory.\<close>

definition tiny_kernel :: "u8 list" where
  "tiny_kernel =
     [0x7F, 0x45, 0x4C, 0x46] @ replicate 20 0 @ [0x78, 0, 4, 0, 0, 0, 0, 0] @ [0x40, 0, 0, 0, 0, 0, 0, 0]
     @ replicate 16 0 @ [1, 0, 0, 0, 0, 0, 0, 0]
     @ [1, 0, 0, 0, 0, 0, 0, 0] @ [0x78, 0, 0, 0, 0, 0, 0, 0] @ [0x78, 0, 4, 0, 0, 0, 0, 0] @ replicate 8 0
     @ [2, 0, 0, 0, 0, 0, 0, 0] @ [4, 0, 0, 0, 0, 0, 0, 0] @ replicate 8 0 @ [0xEB, 0xFE]"

text \<open>The file on a disk, after any first sector.\<close>

lemma disk_mem_file: "length b = 512 \<Longrightarrow> disk_mem (disk_of (b @ f)) = (\<lambda>a. disk_of f (unat a))"
  by (auto simp: disk_mem_def disk_of_def nth_append)

abbreviation tiny_mem :: memory where "tiny_mem \<equiv> \<lambda>a. disk_of tiny_kernel (unat a)"

lemma tiny_kernel_words:
  "read64 tiny_mem 0 = 0x464C457F" "read64 tiny_mem 24 = 0x40078" "read64 tiny_mem 32 = 64" "read64 tiny_mem 56 = 1"
  "read64 tiny_mem 64 = 1" "read64 tiny_mem 72 = 0x78" "read64 tiny_mem 80 = 0x40078" "read64 tiny_mem 96 = 2"
  "read64 tiny_mem 104 = 4"
  by code_simp+

lemma tiny_kernel_headers:
  assumes "length b = 512"
  shows "boot_header (disk_of (b @ tiny_kernel)) = \<lparr>e_magic = ELF_MAGIC, e_entry = 0x40078, e_phoff = 64, e_phnum = 1\<rparr>"
    and "boot_phdrs (disk_of (b @ tiny_kernel)) =
      [\<lparr>ph_type = 1, ph_offset = 0x78, ph_va = 0x40078, ph_filesz = 2, ph_memsz = 4\<rparr>]"
proof -
  show h: "boot_header (disk_of (b @ tiny_kernel)) = \<lparr>e_magic = ELF_MAGIC, e_entry = 0x40078, e_phoff = 64, e_phnum = 1\<rparr>"
    by (simp add: boot_header_def disk_mem_file [OF assms] read_elf_header_def tiny_kernel_words)
  show "boot_phdrs (disk_of (b @ tiny_kernel)) =
      [\<lparr>ph_type = 1, ph_offset = 0x78, ph_va = 0x40078, ph_filesz = 2, ph_memsz = 4\<rparr>]"
    by (simp add: boot_phdrs_def h disk_mem_file [OF assms] read_elf_program_def tiny_kernel_words)
qed

lemma tiny_kernel_bootable: "length b = 512 \<Longrightarrow> bootable (disk_of (b @ tiny_kernel))"
  by (simp add: bootable_def tiny_kernel_headers seg_fits_def off_scratch_def off_loader_def seg_sectors_def
      seg_lo_def seg_hi_def)

lemma tiny_kernel_loaded:
  assumes "length b = 512"
    and "seg_loaded (disk_of (b @ tiny_kernel))
      \<lparr>ph_type = 1, ph_offset = 0x78, ph_va = 0x40078, ph_filesz = 2, ph_memsz = 4\<rparr> m"
  shows "map m [0x40078, 0x40079, 0x4007A, 0x4007B] = [0xEB, 0xFE, 0, 0]"
proof -
  have e: "disk_of (b @ tiny_kernel) (512 + j) = disk_of tiny_kernel j" for j
    using assms(1) by (simp add: disk_of_def nth_append)
  have d: "disk_of (b @ tiny_kernel) 632 = disk_of tiny_kernel 120" "disk_of (b @ tiny_kernel) 633 = disk_of tiny_kernel 121"
    using e [of 120] e [of 121] by simp_all
  have k: "disk_of tiny_kernel 120 = 0xEB" "disk_of tiny_kernel 121 = 0xFE" by code_simp+
  note l = assms(2) [unfolded seg_loaded_def, rule_format]
  from l [of 0] l [of 1] l [of 2] l [of 3] show ?thesis by (simp add: d k)
qed

theorem boot_loads_kernel_witness:
  "\<forall>s. \<exists>s'. boot (s\<lparr>m_dev := ready_disk (disk_of (replicate 512 0 @ tiny_kernel))\<rparr>) = Some (0x40078, s')
     \<and> map (m_mem s') [0x40078, 0x40079, 0x4007A, 0x4007B] = [0xEB, 0xFE, 0, 0]"
proof
  fix s
  obtain b :: "u8 list" where b: "b = replicate 512 0" "length b = 512" by simp
  let ?d = "disk_of (b @ tiny_kernel)"
  obtain s' where "boot (s\<lparr>m_dev := ready_disk ?d\<rparr>) = Some (0x40078, s')"
      "seg_loaded ?d \<lparr>ph_type = 1, ph_offset = 0x78, ph_va = 0x40078, ph_filesz = 2, ph_memsz = 4\<rparr> (m_mem s')"
    using boot_loads_kernel [of "s\<lparr>m_dev := ready_disk ?d\<rparr>" ?d] ready_disk_is_ata tiny_kernel_bootable [OF b(2)]
    unfolding tiny_kernel_headers [OF b(2)] by auto
  then have "\<exists>s'. boot (s\<lparr>m_dev := ready_disk ?d\<rparr>) = Some (0x40078, s')
     \<and> map (m_mem s') [0x40078, 0x40079, 0x4007A, 0x4007B] = [0xEB, 0xFE, 0, 0]"
    using tiny_kernel_loaded [OF b(2)] by blast
  then show "\<exists>s'. boot (s\<lparr>m_dev := ready_disk (disk_of (replicate 512 0 @ tiny_kernel))\<rparr>) = Some (0x40078, s')
     \<and> map (m_mem s') [0x40078, 0x40079, 0x4007A, 0x4007B] = [0xEB, 0xFE, 0, 0]"
    unfolding b(1) .
qed

end
