(* ===== verification/Mkbootdisk.thy ===== *)
theory Mkbootdisk
  imports Libc
begin

text \<open>
  The program \<open>modules/m3/build/mkbootdisk.c\<close> that makes the disk image WeensyOS boots from: a
  boot sector with its signature, then files, each padded to whole sectors, filled up to 1024
  sectors; with \<open>-p\<close> the same into a JOS partition of an existing disk, with \<open>-m\<close> a multiboot
  header into a kernel file.

  \<^item> the output is the record \<open>disk\<close>: the bytes of the file behind \<open>diskfd\<close>, the file position,
    and the globals \<open>maxoff\<close> and \<open>curoff\<close>;
  \<^item> the file system is a parameter (\<open>files\<close>), and so are the results of the \<open>write\<close> calls
    (\<open>d_writes\<close>): each may be interrupted, fail, hit the end of the file or write only part of
    the data; once the list is used up the writes are complete;
  \<^item> \<open>usage()\<close> ends the program: every call of it is an error value;
  \<^item> \<open>find_partition\<close> follows links on the disk, so it may not end: its value is then \<open>None\<close>.
\<close>

section \<open>State\<close>

datatype write_result = W_Failed | W_Interrupted | W_Count nat

datatype mk_error = Bad_Usage | Cannot_Open string | Too_Much_Data | Write_Failed | Write_End_Of_File
  | Boot_Block_Too_Large | Cannot_Skip | Read_Failed | No_Partition | Not_Elf | Elf_Header_Too_Large

record disk =
  d_bytes :: "u8 list"
  d_pos :: nat
  d_maxoff :: nat
  d_curoff :: nat
  d_writes :: "write_result list"

text \<open>Writing bytes at a position, filling a gap before it with zeros as \<open>lseek\<close> and \<open>write\<close> do.\<close>

definition put_at :: "u8 list \<Rightarrow> nat \<Rightarrow> u8 list \<Rightarrow> u8 list" where
  "put_at bs pos v = take pos bs @ replicate (pos - length bs) 0 @ v @ drop (pos + length v) bs"

definition advance :: "u8 list \<Rightarrow> disk \<Rightarrow> disk" where
  "advance v d =
     d\<lparr>d_bytes := put_at (d_bytes d) (d_pos d) v, d_pos := d_pos d + length v, d_curoff := d_curoff d + length v\<rparr>"

fun diskwrite_loop :: "u8 list \<Rightarrow> write_result list \<Rightarrow> disk \<Rightarrow> mk_error + disk" where
  "diskwrite_loop data [] d = Inr ((if data = [] then d else advance data d)\<lparr>d_writes := []\<rparr>)"
| "diskwrite_loop data (w # ws) d =
     (if data = [] then Inr (d\<lparr>d_writes := w # ws\<rparr>)
      else case w of
        W_Failed \<Rightarrow> Inl Write_Failed
      | W_Interrupted \<Rightarrow> diskwrite_loop data ws d
      | W_Count k \<Rightarrow>
          if k = 0 then Inl Write_End_Of_File
          else diskwrite_loop (drop k data) ws (advance (take k data) d))"

definition diskwrite :: "u8 list \<Rightarrow> disk \<Rightarrow> mk_error + disk" where
  "diskwrite data d =
     (if d_maxoff d \<noteq> 0 \<and> d_maxoff d < d_curoff d + length data then Inl Too_Much_Data
      else diskwrite_loop data (d_writes d) d)"

section \<open>Sectors and partitions\<close>

abbreviation SECTORSIZE :: nat where "SECTORSIZE \<equiv> 512"
abbreviation PTABLE_OFFSET :: nat where "PTABLE_OFFSET \<equiv> 446"
abbreviation PTABLE_MAGIC_OFFSET :: nat where "PTABLE_MAGIC_OFFSET \<equiv> 510"

definition PTYPE_JOS_KERN :: u8 where "PTYPE_JOS_KERN = 0x27"
definition PTYPE_DOS_EXTENDED :: u8 where "PTYPE_DOS_EXTENDED = 0x05"
definition PTYPE_W95_EXTENDED :: u8 where "PTYPE_W95_EXTENDED = 0x0F"
definition PTYPE_LINUX_EXTENDED :: u8 where "PTYPE_LINUX_EXTENDED = 0x85"

definition readsect :: "int \<Rightarrow> disk \<Rightarrow> mk_error + u8 list \<times> disk" where
  "readsect sectno d =
     (let pos = nat (sectno mod 2 ^ 32) * SECTORSIZE; bs = take SECTORSIZE (drop pos (d_bytes d))
      in if length bs = SECTORSIZE then Inr (bs, d\<lparr>d_pos := pos + SECTORSIZE\<rparr>) else Inl Read_Failed)"

text \<open>Little-endian numbers inside a sector.\<close>

definition le_bytes :: "u8 list \<Rightarrow> nat \<Rightarrow> nat \<Rightarrow> nat" where
  "le_bytes bs off k = (\<Sum>j<k. unat (bs ! (off + j)) * 256 ^ j)"

record Partitiondesc =
  part_type :: u8
  lba_start :: nat
  lba_length :: nat

definition ptable :: "u8 list \<Rightarrow> nat \<Rightarrow> Partitiondesc" where
  "ptable buf k =
     (let off = PTABLE_OFFSET + 16 * k
      in \<lparr>part_type = buf ! (off + 4), lba_start = le_bytes buf (off + 8) 4, lba_length = le_bytes buf (off + 12) 4\<rparr>)"

text \<open>
  \<open>find_partition\<close> and its loop over the four entries (\<open>entries\<close> are those still to come): 1 and
  the disk positioned at the partition when one is found, 0 otherwise.
\<close>

partial_function (option) find_partition ::
  "(int \<times> int \<times> int) \<Rightarrow> (u8 list \<times> nat) option \<Rightarrow> disk \<Rightarrow> (mk_error + int \<times> disk) option" where
  "find_partition a st d =
     (case a of (partition_sect, extended_sect, partoff) \<Rightarrow>
      case st of
        None \<Rightarrow>
          (case readsect partition_sect d of
             Inl e \<Rightarrow> Some (Inl e)
           | Inr (buf, d1) \<Rightarrow>
               if buf ! PTABLE_MAGIC_OFFSET \<noteq> 0x55 \<or> buf ! (PTABLE_MAGIC_OFFSET + 1) \<noteq> 0xAA
               then Some (Inr (0, d1))
               else find_partition a (Some (buf, 0)) d1)
      | Some (buf, k) \<Rightarrow>
          if 4 \<le> k then Some (Inr (0, d))
          else
            let p = ptable buf k in
            if lba_length p = 0 then find_partition a (Some (buf, k + 1)) d
            else if part_type p = PTYPE_JOS_KERN then
              Some (Inr (1, d\<lparr>d_pos := nat ((partition_sect + int (lba_start p)) * 512),
                              d_maxoff := lba_length p * SECTORSIZE\<rparr>))
            else if part_type p = PTYPE_DOS_EXTENDED \<or> part_type p = PTYPE_W95_EXTENDED
                 \<or> part_type p = PTYPE_LINUX_EXTENDED then
              Option.bind
                (find_partition
                   (int (lba_start p) + extended_sect,
                    if extended_sect = 0 then int (lba_start p) else extended_sect,
                    if partoff = 0 then 4 else partoff + 1) None d)
                (\<lambda>r. case r of
                   Inl e \<Rightarrow> Some (Inl e)
                 | Inr (v, d1) \<Rightarrow> if 0 < v then Some (Inr (v, d1)) else find_partition a (Some (buf, k + 1)) d1)
            else find_partition a (Some (buf, k + 1)) d)"

section \<open>Multiboot\<close>

definition multiboot_header :: "u8 list" where
  "multiboot_header = [0x02, 0xB0, 0xAD, 0x1B, 0, 0, 0, 0, 0xFE, 0x4F, 0x52, 0xE4]"

definition do_multiboot :: "disk \<Rightarrow> mk_error + disk" where
  "do_multiboot d =
     bindR (readsect 0 d) (\<lambda>(buf, d1).
       if le_bytes buf 0 4 \<noteq> 0x464C457F then Inl Not_Elf
       else
         let off = (le_bytes buf 0x20 8 + 56 * le_bytes buf 0x38 2) mod 2 ^ 64 in
         if 4096 - 12 \<le> off then Inl Elf_Header_Too_Large
         else diskwrite multiboot_header (d1\<lparr>d_pos := off\<rparr>))"

section \<open>Arguments\<close>

text \<open>\<open>strtoul(s, &str, 0)\<close>: the value and the rest, for text that starts with a digit.\<close>

definition hex_digit :: "char \<Rightarrow> nat option" where
  "hex_digit c =
     (let v = (of_char (tolower c) :: nat)
      in if isdigit c then Some (v - 48) else if 97 \<le> v \<and> v \<le> 102 then Some (v - 87) else None)"

fun scan_digits :: "nat \<Rightarrow> nat \<Rightarrow> string \<Rightarrow> nat \<times> string" where
  "scan_digits base acc [] = (acc, [])"
| "scan_digits base acc (c # cs) =
     (case hex_digit c of
        Some v \<Rightarrow> if v < base then scan_digits base (base * acc + v) cs else (acc, c # cs)
      | None \<Rightarrow> (acc, c # cs))"

definition strtoul :: "string \<Rightarrow> nat \<times> string" where
  "strtoul s =
     (let (v, r) =
        (case s of
           c # x # h # t \<Rightarrow>
             if c = CHR ''0'' \<and> tolower x = CHR ''x'' \<and> hex_digit h \<noteq> None then scan_digits 16 0 (h # t)
             else if c = CHR ''0'' then scan_digits 8 0 s else scan_digits 10 0 s
         | c # t \<Rightarrow> if c = CHR ''0'' then scan_digits 8 0 s else scan_digits 10 0 s
         | [] \<Rightarrow> (0, []))
      in (min v (2 ^ 64 - 1), r))"

definition skip_arg :: "string \<Rightarrow> nat option" where
  "skip_arg a =
     (case a of
        x # c # r \<Rightarrow>
          if x = CHR ''@'' \<and> isdigit c \<and> snd (strtoul (c # r)) = [] then Some (fst (strtoul (c # r))) else None
      | _ \<Rightarrow> None)"

section \<open>The image\<close>

definition zerobuf :: "u8 list" where "zerobuf = replicate 512 0"

fun write_zero_sectors :: "nat \<Rightarrow> disk \<Rightarrow> mk_error + disk" where
  "write_zero_sectors 0 d = Inr d"
| "write_zero_sectors (Suc k) d = bindR (diskwrite zerobuf d) (write_zero_sectors k)"

text \<open>The copy loop over \<open>fread(buf, 1, 4096, f)\<close>.\<close>

function copy_chunks :: "u8 list \<Rightarrow> disk \<Rightarrow> mk_error + disk" where
  "copy_chunks f d = (if f = [] then Inr d else bindR (diskwrite (take 4096 f) d) (copy_chunks (drop 4096 f)))"
  by pat_completeness auto
termination by (relation "measure (\<lambda>(f, d). length f)") auto

declare copy_chunks.simps [simp del]

definition copy_file :: "u8 list \<Rightarrow> nat \<Rightarrow> disk \<Rightarrow> mk_error + nat \<times> disk" where
  "copy_file f nsectors d =
     bindR (copy_chunks f d) (\<lambda>d1.
       let pos = length f in
       if pos mod 512 \<noteq> 0
       then bindR (diskwrite (take (512 - pos mod 512) zerobuf) d1)
              (\<lambda>d2. Inr (nsectors + (pos + (512 - pos mod 512)) div 512, d2))
       else Inr (nsectors + pos div 512, d1))"

fun write_files :: "(string \<rightharpoonup> u8 list) \<Rightarrow> string list \<Rightarrow> nat \<Rightarrow> disk \<Rightarrow> mk_error + nat \<times> disk" where
  "write_files files [] nsectors d = Inr (nsectors, d)"
| "write_files files (a # args) nsectors d =
     (case skip_arg a of
        Some skipto \<Rightarrow>
          if skipto < nsectors then Inl Cannot_Skip
          else bindR (write_zero_sectors (skipto - nsectors) d) (write_files files args skipto)
      | None \<Rightarrow>
          (case files a of
             None \<Rightarrow> Inl (Cannot_Open a)
           | Some f \<Rightarrow> bindR (copy_file f nsectors d) (\<lambda>(n, d1). write_files files args n d1)))"

definition boot_sector :: "u8 list \<Rightarrow> mk_error + u8 list" where
  "boot_sector f =
     (let buf = take 4096 f; n = length buf
      in if 510 < n then Inl Boot_Block_Too_Large else Inr (buf @ replicate (510 - n) 0 @ [0x55, 0xAA]))"

definition fresh_disk :: "u8 list \<Rightarrow> write_result list \<Rightarrow> disk" where
  "fresh_disk bs ws = \<lparr>d_bytes = bs, d_pos = 0, d_maxoff = 0, d_curoff = 0, d_writes = ws\<rparr>"

text \<open>The end of \<open>main\<close>: boot sector (unless in a partition), files, and zeros up to 1024 sectors.\<close>

definition write_image ::
  "(string \<rightharpoonup> u8 list) \<Rightarrow> bool \<Rightarrow> string list \<Rightarrow> disk \<Rightarrow> mk_error + disk" where
  "write_image files bootsector_special args d =
     (case args of
        [] \<Rightarrow> Inl Bad_Usage
      | a # rest \<Rightarrow>
          bindR
            (if bootsector_special
             then (case files a of
                     None \<Rightarrow> Inl (Cannot_Open a)
                   | Some f \<Rightarrow> bindR (boot_sector f) (\<lambda>s. bindR (diskwrite s d) (\<lambda>d1. Inr (1, rest, d1))))
             else Inr (0, args, d))
            (\<lambda>(nsectors, args1, d1).
               bindR (write_files files args1 nsectors d1) (\<lambda>(n, d2). write_zero_sectors (1024 - n) d2)))"

definition mkbootdisk_main ::
  "(string \<rightharpoonup> u8 list) \<Rightarrow> (string \<rightharpoonup> u8 list) \<Rightarrow> write_result list \<Rightarrow> string list \<Rightarrow> (mk_error + disk) option" where
  "mkbootdisk_main files disks ws args =
     (let multi = (\<lambda>special args d.
        case args of
          a # rest \<Rightarrow>
            if a = ''-m'' then
              (case rest of
                 [] \<Rightarrow> Inl Bad_Usage
               | f # _ \<Rightarrow> (case disks f of None \<Rightarrow> Inl (Cannot_Open f) | Some bs \<Rightarrow> do_multiboot (d\<lparr>d_bytes := bs, d_pos := 0\<rparr>)))
            else write_image files special args d
        | [] \<Rightarrow> Inl Bad_Usage)
      in case args of
           a # rest \<Rightarrow>
             if a = ''-p'' then
               (case rest of
                  [] \<Rightarrow> Some (Inl Bad_Usage)
                | f # rest1 \<Rightarrow>
                    (case disks f of
                       None \<Rightarrow> Some (Inl (Cannot_Open f))
                     | Some bs \<Rightarrow>
                         Option.bind (find_partition (0, 0, 0) None (fresh_disk bs ws))
                           (\<lambda>r. case r of
                              Inl e \<Rightarrow> Some (Inl e)
                            | Inr (v, d) \<Rightarrow> if v \<le> 0 then Some (Inl No_Partition) else Some (multi False rest1 d))))
             else Some (multi True args (fresh_disk [] ws))
         | [] \<Rightarrow> Some (Inl Bad_Usage))"

section \<open>Writes are complete or fail\<close>

text \<open>A disk that is only appended to.\<close>

definition at_end :: "disk \<Rightarrow> bool" where
  "at_end d \<longleftrightarrow> d_pos d = length (d_bytes d) \<and> d_maxoff d = 0"

text \<open>What \<open>diskwrite\<close> leaves behind when it returns, whatever the single writes did.\<close>

definition wrote :: "u8 list \<Rightarrow> disk \<Rightarrow> disk \<Rightarrow> bool" where
  "wrote v d d' \<longleftrightarrow> d_bytes d' = d_bytes d @ v \<and> at_end d' \<and> (\<exists>k. d_writes d' = drop k (d_writes d))"

lemma advance_append: "at_end d \<Longrightarrow> d_bytes (advance v d) = d_bytes d @ v \<and> at_end (advance v d)"
  by (simp add: at_end_def advance_def put_at_def)

lemma diskwrite_loop_wrote:
  "at_end d \<Longrightarrow> diskwrite_loop data ws d = Inr d' \<Longrightarrow>
     d_bytes d' = d_bytes d @ data \<and> at_end d' \<and> (\<exists>k. d_writes d' = drop k ws)"
proof (induction ws arbitrary: data d)
  case Nil
  then show ?case using advance_append [of d data] by (auto simp: at_end_def split: if_splits)
next
  case (Cons w ws)
  show ?case
  proof (cases "data = []")
    case True
    with Cons.prems show ?thesis by (auto simp: at_end_def intro: exI [of _ 0])
  next
    case False
    show ?thesis
    proof (cases w)
      case W_Failed with False Cons.prems show ?thesis by simp
    next
      case W_Interrupted
      with False Cons.prems have "diskwrite_loop data ws d = Inr d'" by simp
      from Cons.IH [OF Cons.prems(1) this] show ?thesis by (metis drop_Suc_Cons)
    next
      case (W_Count k)
      with False Cons.prems have r: "diskwrite_loop (drop k data) ws (advance (take k data) d) = Inr d'"
        by (auto split: if_splits)
      have a: "d_bytes (advance (take k data) d) = d_bytes d @ take k data" "at_end (advance (take k data) d)"
        using advance_append [OF Cons.prems(1)] by blast+
      from Cons.IH [OF a(2) r] a(1) show ?thesis by (metis append.assoc append_take_drop_id drop_Suc_Cons)
    qed
  qed
qed

lemma diskwrite_wrote: "at_end d \<Longrightarrow> diskwrite v d = Inr d' \<Longrightarrow> wrote v d d'"
  using diskwrite_loop_wrote by (auto simp: diskwrite_def wrote_def split: if_splits)

lemma wrote_refl: "at_end d \<Longrightarrow> wrote [] d d"
  by (auto simp: wrote_def intro: exI [of _ 0])

lemma wrote_trans: "wrote u d d1 \<Longrightarrow> wrote v d1 d2 \<Longrightarrow> wrote (u @ v) d d2"
  by (auto simp: wrote_def)

lemma wrote_at_end: "wrote v d d' \<Longrightarrow> at_end d'"
  by (simp add: wrote_def)

text \<open>Without failing writes every write completes.\<close>

definition no_failures :: "write_result list \<Rightarrow> bool" where
  "no_failures ws \<longleftrightarrow> W_Failed \<notin> set ws \<and> W_Count 0 \<notin> set ws"

lemma diskwrite_loop_returns: "no_failures ws \<Longrightarrow> \<exists>d'. diskwrite_loop data ws d = Inr d'"
proof (induction ws arbitrary: data d)
  case (Cons w ws)
  then show ?case by (cases w) (auto simp: no_failures_def)
qed simp

lemma diskwrite_returns:
  "at_end d \<Longrightarrow> no_failures (d_writes d) \<Longrightarrow> \<exists>d'. diskwrite v d = Inr d' \<and> wrote v d d' \<and> no_failures (d_writes d')"
proof -
  assume d: "at_end d" "no_failures (d_writes d)"
  then obtain d' where r: "diskwrite v d = Inr d'"
    using diskwrite_loop_returns [OF d(2), of v d] by (auto simp: diskwrite_def at_end_def)
  have w: "wrote v d d'" by (rule diskwrite_wrote [OF d(1) r])
  moreover have "no_failures (d_writes d')"
    using w d(2) by (auto simp: wrote_def no_failures_def dest: in_set_dropD)
  ultimately show ?thesis using r by blast
qed

section \<open>The layout of the image\<close>

text \<open>The abstract image: files padded to whole sectors, skips filled with zeros.\<close>

definition pad_to :: "nat \<Rightarrow> u8 list \<Rightarrow> u8 list" where
  "pad_to k bs = bs @ replicate (k - length bs) 0"

definition sectors_of :: "u8 list \<Rightarrow> nat" where
  "sectors_of f = (length f + 511) div 512"

fun layout_files :: "(string \<rightharpoonup> u8 list) \<Rightarrow> string list \<Rightarrow> nat \<Rightarrow> (nat \<times> u8 list) option" where
  "layout_files files [] n = Some (n, [])"
| "layout_files files (a # args) n =
     (case skip_arg a of
        Some k \<Rightarrow>
          if k < n then None
          else map_option (\<lambda>(m, bs). (m, replicate (512 * (k - n)) 0 @ bs)) (layout_files files args k)
      | None \<Rightarrow>
          (case files a of
             None \<Rightarrow> None
           | Some f \<Rightarrow>
               map_option (\<lambda>(m, bs). (m, pad_to (512 * sectors_of f) f @ bs)) (layout_files files args (n + sectors_of f))))"

lemma write_zero_sectors_wrote:
  "at_end d \<Longrightarrow> no_failures (d_writes d) \<Longrightarrow>
     \<exists>d'. write_zero_sectors k d = Inr d' \<and> wrote (replicate (512 * k) 0) d d' \<and> no_failures (d_writes d')"
proof (induction k arbitrary: d)
  case 0 then show ?case by (simp add: wrote_refl)
next
  case (Suc k)
  obtain d1 where d1: "diskwrite zerobuf d = Inr d1" "wrote zerobuf d d1" "no_failures (d_writes d1)"
    using diskwrite_returns [OF Suc.prems] by blast
  with Suc.IH [of d1] wrote_at_end obtain d2 where
    "write_zero_sectors k d1 = Inr d2" "wrote (replicate (512 * k) 0) d1 d2" "no_failures (d_writes d2)" by blast
  moreover from this d1(2) have "wrote (zerobuf @ replicate (512 * k) 0) d d2" by (blast intro: wrote_trans)
  then have "wrote (replicate (512 * Suc k) 0) d d2" by (simp add: zerobuf_def replicate_add [symmetric])
  ultimately show ?case using d1(1) by auto
qed

lemma copy_chunks_wrote:
  "at_end d \<Longrightarrow> no_failures (d_writes d) \<Longrightarrow>
     \<exists>d'. copy_chunks f d = Inr d' \<and> wrote f d d' \<and> no_failures (d_writes d')"
proof (induction f d rule: copy_chunks.induct)
  case (1 f d)
  show ?case
  proof (cases "f = []")
    case True
    with 1 show ?thesis by (simp add: copy_chunks.simps wrote_refl)
  next
    case False
    obtain d1 where d1: "diskwrite (take 4096 f) d = Inr d1" "wrote (take 4096 f) d d1" "no_failures (d_writes d1)"
      using diskwrite_returns [OF "1.prems"] by blast
    with "1.IH" [OF False, of d1] wrote_at_end obtain d2 where
      "copy_chunks (drop 4096 f) d1 = Inr d2" "wrote (drop 4096 f) d1 d2" "no_failures (d_writes d2)" by blast
    with d1 wrote_trans [of "take 4096 f" d d1 "drop 4096 f" d2] False show ?thesis
      by (subst copy_chunks.simps) simp
  qed
qed

lemma pad_sectors:
  "length f mod 512 \<noteq> 0 \<Longrightarrow> pad_to (512 * sectors_of f) f = f @ replicate (512 - length f mod 512) 0"
  "length f mod 512 \<noteq> 0 \<Longrightarrow> sectors_of f = (length f + (512 - length f mod 512)) div 512"
  "length f mod 512 = 0 \<Longrightarrow> pad_to (512 * sectors_of f) f = f"
  "length f mod 512 = 0 \<Longrightarrow> sectors_of f = length f div 512"
proof -
  define a r where "a = length f div 512" and "r = length f mod 512"
  have f: "length f = 512 * a + r" "r < 512" by (simp_all add: a_def r_def)
  have nz: "sectors_of f = a + 1" if "r \<noteq> 0"
  proof -
    have "length f + 511 = 512 * (a + 1) + (r - 1)" "r - 1 < 512" using f that by simp_all
    then show ?thesis unfolding sectors_of_def by (metis div_mult_self4 div_less add.right_neutral zero_neq_numeral)
  qed
  have z: "sectors_of f = a" if "r = 0" using f that by (simp add: sectors_of_def)
  show "length f mod 512 \<noteq> 0 \<Longrightarrow> pad_to (512 * sectors_of f) f = f @ replicate (512 - length f mod 512) 0"
    using nz f by (simp add: pad_to_def r_def [symmetric])
  have "length f + (512 - r) = 512 * (a + 1)" using f by simp
  then show "length f mod 512 \<noteq> 0 \<Longrightarrow> sectors_of f = (length f + (512 - length f mod 512)) div 512"
    using nz by (simp add: r_def [symmetric])
  show "length f mod 512 = 0 \<Longrightarrow> pad_to (512 * sectors_of f) f = f" using z f by (simp add: pad_to_def r_def [symmetric])
  show "length f mod 512 = 0 \<Longrightarrow> sectors_of f = length f div 512" using z by (simp add: r_def a_def)
qed

lemma copy_file_wrote:
  assumes "at_end d" "no_failures (d_writes d)"
  shows "\<exists>d'. copy_file f n d = Inr (n + sectors_of f, d') \<and> wrote (pad_to (512 * sectors_of f) f) d d' \<and>
    no_failures (d_writes d')"
proof -
  obtain d1 where d1: "copy_chunks f d = Inr d1" "wrote f d d1" "no_failures (d_writes d1)"
    using copy_chunks_wrote [OF assms] by blast
  show ?thesis
  proof (cases "length f mod 512 = 0")
    case True
    then show ?thesis using d1 pad_sectors(3,4) [OF True] by (simp add: copy_file_def Let_def)
  next
    case False
    let ?z = "replicate (512 - length f mod 512) (0 :: u8)"
    obtain d2 where d2: "diskwrite ?z d1 = Inr d2" "wrote ?z d1 d2" "no_failures (d_writes d2)"
      using diskwrite_returns [OF wrote_at_end [OF d1(2)] d1(3)] by blast
    have "take (512 - length f mod 512) zerobuf = ?z" by (simp add: zerobuf_def)
    moreover have "wrote (f @ ?z) d d2" by (rule wrote_trans [OF d1(2) d2(2)])
    ultimately show ?thesis using False d1(1) d2 pad_sectors(1,2) [OF False] by (simp add: copy_file_def Let_def)
  qed
qed

lemma write_files_wrote:
  "at_end d \<Longrightarrow> no_failures (d_writes d) \<Longrightarrow> layout_files files args n = Some (m, bs) \<Longrightarrow>
     \<exists>d'. write_files files args n d = Inr (m, d') \<and> wrote bs d d' \<and> no_failures (d_writes d')"
proof (induction args arbitrary: n d bs)
  case Nil then show ?case by (simp add: wrote_refl)
next
  case (Cons a args)
  show ?case
  proof (cases "skip_arg a")
    case (Some k)
    with Cons.prems(3) obtain bs1 where k: "n \<le> k" "layout_files files args k = Some (m, bs1)"
      "bs = replicate (512 * (k - n)) 0 @ bs1" by (auto split: if_splits)
    obtain d1 where d1: "write_zero_sectors (k - n) d = Inr d1" "wrote (replicate (512 * (k - n)) 0) d d1"
      "no_failures (d_writes d1)" using write_zero_sectors_wrote [OF Cons.prems(1,2)] by blast
    from Cons.IH [OF wrote_at_end [OF d1(2)] d1(3) k(2)] obtain d2 where
      d2: "write_files files args k d1 = Inr (m, d2)" "wrote bs1 d1 d2" "no_failures (d_writes d2)" by blast
    have "wrote bs d d2" using wrote_trans [OF d1(2) d2(2)] k(3) by simp
    with Some k d1(1) d2 show ?thesis by simp
  next
    case None
    with Cons.prems(3) obtain f bs1 where f: "files a = Some f"
      "layout_files files args (n + sectors_of f) = Some (m, bs1)" "bs = pad_to (512 * sectors_of f) f @ bs1"
      by (auto split: option.splits)
    obtain d1 where d1: "copy_file f n d = Inr (n + sectors_of f, d1)" "wrote (pad_to (512 * sectors_of f) f) d d1"
      "no_failures (d_writes d1)" using copy_file_wrote [OF Cons.prems(1,2)] by blast
    from Cons.IH [OF wrote_at_end [OF d1(2)] d1(3) f(2)] obtain d2 where
      d2: "write_files files args (n + sectors_of f) d1 = Inr (m, d2)" "wrote bs1 d1 d2" "no_failures (d_writes d2)" by blast
    have "wrote bs d d2" using wrote_trans [OF d1(2) d2(2)] f(3) by simp
    with None f d1(1) d2 show ?thesis by simp
  qed
qed

definition boot_image :: "u8 list \<Rightarrow> nat \<times> u8 list \<Rightarrow> u8 list" where
  "boot_image b l = pad_to 510 b @ [0x55, 0xAA] @ snd l @ replicate (512 * (1024 - fst l)) 0"

lemma mkbootdisk_writes_image:
  assumes "no_failures ws" "files a = Some b" "length b \<le> 510" "a \<notin> {''-p'', ''-m''}"
    and "layout_files files args 1 = Some l"
  shows "\<exists>d. mkbootdisk_main files disks ws (a # args) = Some (Inr d) \<and> d_bytes d = boot_image b l"
proof -
  let ?s = "pad_to 510 b @ [0x55, 0xAA]" and ?d = "fresh_disk [] ws"
  have d: "at_end ?d" "no_failures (d_writes ?d)" using assms(1) by (simp_all add: fresh_disk_def at_end_def)
  have s: "boot_sector b = Inr ?s" using assms(3) by (simp add: boot_sector_def pad_to_def Let_def)
  obtain d1 where d1: "diskwrite ?s ?d = Inr d1" "wrote ?s ?d d1" "no_failures (d_writes d1)"
    using diskwrite_returns [OF d] by blast
  obtain m bs where l: "l = (m, bs)" by (cases l)
  from write_files_wrote [OF wrote_at_end [OF d1(2)] d1(3)] assms(5) l obtain d2 where
    d2: "write_files files args 1 d1 = Inr (m, d2)" "wrote bs d1 d2" "no_failures (d_writes d2)" by blast
  obtain d3 where d3: "write_zero_sectors (1024 - m) d2 = Inr d3" "wrote (replicate (512 * (1024 - m)) 0) d2 d3"
    using write_zero_sectors_wrote [OF wrote_at_end [OF d2(2)] d2(3)] by blast
  have "wrote ((?s @ bs) @ replicate (512 * (1024 - m)) 0) ?d d3"
    by (rule wrote_trans [OF wrote_trans [OF d1(2) d2(2)] d3(2)])
  then have "d_bytes d3 = boot_image b l" by (simp add: wrote_def boot_image_def l fresh_disk_def)
  moreover have "mkbootdisk_main files disks ws (a # args) = Some (Inr d3)"
    using assms(2,4) s d1(1) d2(1) d3(1) by (simp add: mkbootdisk_main_def write_image_def Let_def)
  ultimately show ?thesis by blast
qed

end
