(* ===== verification/BootDisk.thy ===== *)
theory BootDisk
  imports Boot Mkbootdisk
begin

text \<open>
  The disk image and the boot loader together: \<open>mkbootdisk bootsector kernel\<close>, as the makefile calls
  it, writes an image from which \<open>boot\<close> loads the kernel file.
\<close>

lemma disk_of_padded: "disk_of (pad_to k f @ replicate n 0) j = disk_of f j"
  by (auto simp: disk_of_def pad_to_def nth_append)

lemma disk_of_boot_image:
  assumes "length b \<le> 510"
  shows "disk_of (boot_image b (m, pad_to k f)) (512 + j) = disk_of f j"
proof -
  have "length (pad_to 510 b @ [0x55, 0xAA]) = 512" using assms by (simp add: pad_to_def)
  then have "disk_of ((pad_to 510 b @ [0x55, 0xAA]) @ r) (512 + j) = disk_of r j" for r
    by (auto simp: disk_of_def nth_append)
  from this [of "pad_to k f @ replicate (512 * (1024 - m)) 0"] show ?thesis
    by (simp add: boot_image_def disk_of_padded)
qed

text \<open>The loader sees only the sectors from 1 on.\<close>

abbreviation kernel_disk :: "u8 list \<Rightarrow> nat \<Rightarrow> u8" where
  "kernel_disk f \<equiv> disk_of (replicate 512 0 @ f)"

lemma kernel_disk_file: "kernel_disk f (512 + j) = disk_of f j"
  by (simp add: disk_of_def nth_append)

lemma same_kernel:
  assumes "\<And>j. d (512 + j) = d' (512 + j)"
  shows "boot_header d = boot_header d'" "boot_phdrs d = boot_phdrs d'" "bootable d = bootable d'"
    "seg_loaded d p m = seg_loaded d' p m"
proof -
  have "disk_mem d = disk_mem d'" using assms by (auto simp: disk_mem_def)
  then show "boot_header d = boot_header d'" "boot_phdrs d = boot_phdrs d'" "bootable d = bootable d'"
    by (simp_all add: boot_header_def boot_phdrs_def bootable_def)
  show "seg_loaded d p m = seg_loaded d' p m" using assms by (simp add: seg_loaded_def add.assoc)
qed

text \<open>
  C33 (the disk image boots): for a boot sector of at most 510 bytes and a bootable kernel file,
  \<open>mkbootdisk bootsector kernel\<close>, when no write fails, produces an image such that on every machine
  whose first disk is an ATA disk with this image \<open>boot\<close> ends and jumps to the entry point of the
  file, with every byte of every segment in memory and cleared memory after it.
\<close>

theorem bootdisk_boots:
  assumes "no_failures ws" "files a = Some b" "length b \<le> 510" "a \<notin> {''-p'', ''-m''}"
    and "skip_arg c = None" "files c = Some kern" "bootable (kernel_disk kern)"
  shows "\<exists>d. mkbootdisk_main files disks ws [a, c] = Some (Inr d)
    \<and> (\<forall>s. ata_disk (m_dev s) (disk_of (d_bytes d)) \<longrightarrow>
         (\<exists>s'. boot s = Some (e_entry (boot_header (kernel_disk kern)), s')
            \<and> list_all (\<lambda>p. seg_loaded (kernel_disk kern) p (m_mem s')) (boot_phdrs (kernel_disk kern))))"
proof -
  let ?l = "(1 + sectors_of kern, pad_to (512 * sectors_of kern) kern)"
  have "layout_files files [c] 1 = Some ?l" using assms(5,6) by simp
  then obtain d where d: "mkbootdisk_main files disks ws [a, c] = Some (Inr d)" "d_bytes d = boot_image b ?l"
    using mkbootdisk_writes_image [where ws = ws and files = files and a = a and b = b and disks = disks] assms(1-4) by blast
  have "disk_of (d_bytes d) (512 + j) = kernel_disk kern (512 + j)" for j
    unfolding d(2) disk_of_boot_image [OF assms(3)] kernel_disk_file ..
  note same = same_kernel [of "disk_of (d_bytes d)" "kernel_disk kern", OF this]
  have "\<exists>s'. boot s = Some (e_entry (boot_header (kernel_disk kern)), s')
      \<and> list_all (\<lambda>p. seg_loaded (kernel_disk kern) p (m_mem s')) (boot_phdrs (kernel_disk kern))"
    if "ata_disk (m_dev s) (disk_of (d_bytes d))" for s
    using boot_ends [OF that] assms(7) unfolding same by blast
  with d(1) show ?thesis by blast
qed

theorem bootdisk_boots_witness:
  "\<exists>d. mkbootdisk_main [''boot'' \<mapsto> [0xFA, 0xF4], ''kernel'' \<mapsto> tiny_kernel] Map.empty [W_Interrupted, W_Count 100] [''boot'', ''kernel''] = Some (Inr d)
     \<and> (\<forall>s. \<exists>s'. boot (s\<lparr>m_dev := ready_disk (disk_of (d_bytes d))\<rparr>) = Some (0x40078, s')
           \<and> map (m_mem s') [0x40078, 0x40079, 0x4007A, 0x4007B] = [0xEB, 0xFE, 0, 0])"
proof -
  let ?files = "[''boot'' \<mapsto> [0xFA, 0xF4 :: u8], ''kernel'' \<mapsto> tiny_kernel]"
  obtain z :: "u8 list" where z: "z = replicate 512 0" "length z = 512" by simp
  have "skip_arg ''kernel'' = None" by code_simp
  moreover have "no_failures [W_Interrupted, W_Count 100]" by (simp add: no_failures_def)
  ultimately obtain d where d: "mkbootdisk_main ?files Map.empty [W_Interrupted, W_Count 100] [''boot'', ''kernel''] = Some (Inr d)"
      "\<forall>s. ata_disk (m_dev s) (disk_of (d_bytes d)) \<longrightarrow>
         (\<exists>s'. boot s = Some (e_entry (boot_header (disk_of (z @ tiny_kernel))), s')
            \<and> list_all (\<lambda>p. seg_loaded (disk_of (z @ tiny_kernel)) p (m_mem s')) (boot_phdrs (disk_of (z @ tiny_kernel))))"
    using bootdisk_boots [of "[W_Interrupted, W_Count 100]" ?files "''boot''" "[0xFA, 0xF4]" "''kernel''" tiny_kernel Map.empty]
      tiny_kernel_bootable [OF z(2)] unfolding z(1) by auto
  have "\<exists>s'. boot (s\<lparr>m_dev := ready_disk (disk_of (d_bytes d))\<rparr>) = Some (0x40078, s')
      \<and> map (m_mem s') [0x40078, 0x40079, 0x4007A, 0x4007B] = [0xEB, 0xFE, 0, 0]" for s
  proof -
    obtain s' where "boot (s\<lparr>m_dev := ready_disk (disk_of (d_bytes d))\<rparr>) = Some (0x40078, s')"
        "seg_loaded (disk_of (z @ tiny_kernel)) \<lparr>ph_type = 1, ph_offset = 0x78, ph_va = 0x40078, ph_filesz = 2, ph_memsz = 4\<rparr> (m_mem s')"
      using d(2) [rule_format, of "s\<lparr>m_dev := ready_disk (disk_of (d_bytes d))\<rparr>"] ready_disk_is_ata
      unfolding tiny_kernel_headers [OF z(2)] by auto
    with tiny_kernel_loaded [OF z(2)] show ?thesis by blast
  qed
  with d(1) show ?thesis by blast
qed

end
