(* ===== verification/Shell.thy ===== *)
theory Shell
  imports Libc
begin

text \<open>
  The command interpreter \<open>412shell.c\<close>: splitting a line into a command, its arguments and a file for
  the output, and the main loop. The tokens are pointers into the line; no two of them overlap, so
  they are strings here. What the code does outside its arrays is an error: reading \<open>args[0][0]\<close> when
  there is no argument, and storing a 65th argument. \<open>do_fork\<close> is an empty function in the source, so
  a command that was parsed has no further effect than being one of the results.
\<close>

section \<open>The code\<close>

abbreviation MAX_ARGS :: nat where "MAX_ARGS \<equiv> 64"
abbreviation MAX_INPUT :: nat where "MAX_INPUT \<equiv> 1024"

datatype shell_error = Null_Dereference | Args_Overflow

record ParsedCommand =
  pc_command :: "string option"
  pc_args :: "string list"
  pc_outputFile :: "string option"

lemma strtok_progress:
  assumes "strtok d s = Some (t, r)"
  shows "length r < length s"
proof -
  let ?t = "dropWhile (\<lambda>c. c = d) s"
  have t: "?t \<noteq> []" "r = tl (dropWhile (\<lambda>c. c \<noteq> d) ?t)"
    using assms by (auto simp: strtok_def Let_def split: if_splits)
  have "length r \<le> length (dropWhile (\<lambda>c. c \<noteq> d) ?t) - 1" using t(2) by simp
  also have "\<dots> \<le> length ?t - 1" using length_dropWhile_le by (rule diff_le_mono)
  also have "\<dots> < length ?t" using t(1) by simp
  also have "\<dots> \<le> length s" by (rule length_dropWhile_le)
  finally show ?thesis .
qed

text \<open>The loop over the tokens; the string is what is left for the next call of \<open>strtok\<close>.\<close>

function parse_tokens :: "string \<Rightarrow> ParsedCommand \<Rightarrow> shell_error + ParsedCommand" where
  "parse_tokens s cmd =
     (case strtok CHR '' '' s of
        None \<Rightarrow> Inr cmd
      | Some (token, rest) \<Rightarrow>
          if pc_command cmd = None then parse_tokens rest (cmd\<lparr>pc_command := Some token\<rparr>)
          else if token = ''>'' then
            (case strtok CHR '' '' rest of
               None \<Rightarrow> Inr (cmd\<lparr>pc_outputFile := None\<rparr>)
             | Some (out, rest1) \<Rightarrow> parse_tokens rest1 (cmd\<lparr>pc_outputFile := Some out\<rparr>))
          else if MAX_ARGS \<le> length (pc_args cmd) then Inl Args_Overflow
          else parse_tokens rest (cmd\<lparr>pc_args := pc_args cmd @ [token]\<rparr>))"
  by pat_completeness auto
termination
  by (relation "measure (\<lambda>(s, cmd). length s)") (auto dest!: strtok_progress)

declare parse_tokens.simps [simp del]

definition remove_quotes :: "ParsedCommand \<Rightarrow> shell_error + ParsedCommand" where
  "remove_quotes cmd =
     (if pc_args cmd = [] then Inl Null_Dereference
      else
          let args = pc_args cmd;
              lastArgIndex = length args - 1;
              lastArgLastCharIndex = length (args ! lastArgIndex) - 1 in
          if hd (args ! 0) = CHR 0x22 \<and> args ! lastArgIndex ! lastArgLastCharIndex = CHR 0x22
          then
            let args = args[lastArgIndex := take lastArgLastCharIndex (args ! lastArgIndex)];
                args = args[0 := tl (args ! 0)] in
            Inr (cmd\<lparr>pc_args := args\<rparr>)
          else Inr cmd)"

definition parse_command :: "string \<Rightarrow> shell_error + ParsedCommand" where
  "parse_command input =
     bindR (parse_tokens input \<lparr>pc_command = None, pc_args = [], pc_outputFile = None\<rparr>) remove_quotes"

definition strip_newline :: "string \<Rightarrow> string" where
  "strip_newline s = takeWhile (\<lambda>c. c \<noteq> CHR 0x0A) s"

text \<open>The main loop on the text of the standard input: the commands, and how the program ended.\<close>

function shell_main :: "string \<Rightarrow> ParsedCommand list \<times> (shell_error + int)" where
  "shell_main stdin =
     (if stdin = [] then ([], Inr 0)
      else
        let (line, rest) = fgets_chars (MAX_INPUT - 1) stdin; input = c_string line in
        if input = ''exit'' @ [CHR 0x0A] then ([], Inr 0)
        else
          case parse_command (strip_newline input) of
            Inl e \<Rightarrow> ([], Inl e)
          | Inr cmd \<Rightarrow> (let (cmds, r) = shell_main rest in (cmd # cmds, r)))"
  by pat_completeness auto
termination
proof (relation "measure length")
  fix stdin line rest :: string and p :: "string \<times> string" and input cmd
  assume "stdin \<noteq> []" "p = fgets_chars (MAX_INPUT - 1) stdin" "(line, rest) = p"
  then obtain c s where cs: "stdin = c # s" "fgets_chars (Suc 1022) (c # s) = (line, rest)"
    by (cases stdin) (simp_all add: numeral_eq_Suc)
  then show "(rest, stdin) \<in> measure length" using fgets_chars_progress [OF cs(2)] by simp
qed simp

declare shell_main.simps [simp del]

section \<open>What a line means\<close>

text \<open>The words of a line, the arguments and the file after \<open>>\<close>, and the arguments without quotes.\<close>

fun words_from :: "string \<Rightarrow> string \<Rightarrow> string list" where
  "words_from w [] = (if w = [] then [] else [w])"
| "words_from w (c # s) =
     (if c = CHR '' '' then (if w = [] then [] else [w]) @ words_from [] s else words_from (w @ [c]) s)"

fun split_redirect :: "string option \<Rightarrow> string list \<Rightarrow> string list \<times> string option" where
  "split_redirect out [] = ([], out)"
| "split_redirect out [w] = (if w = ''>'' then ([], None) else ([w], out))"
| "split_redirect out (w # f # ws) =
     (if w = ''>'' then split_redirect (Some f) ws
      else let (args, out1) = split_redirect out (f # ws) in (w # args, out1))"

definition unquote :: "string list \<Rightarrow> string list" where
  "unquote args =
     (if hd (hd args) = CHR 0x22 \<and> last (last args) = CHR 0x22
      then (case args of [a] \<Rightarrow> [tl (butlast a)] | a # as \<Rightarrow> tl a # butlast as @ [butlast (last as)])
      else args)"

lemma words_from_word:
  "w \<noteq> [] \<Longrightarrow> words_from w s = (w @ takeWhile (\<lambda>c. c \<noteq> CHR '' '') s) # words_from [] (tl (dropWhile (\<lambda>c. c \<noteq> CHR '' '') s))"
  by (induction s arbitrary: w) auto

lemma words_strtok:
  "words_from [] s = (case strtok CHR '' '' s of None \<Rightarrow> [] | Some (t, r) \<Rightarrow> t # words_from [] r)"
proof (induction s)
  case Nil
  show ?case by (simp add: strtok_def)
next
  case (Cons c s)
  show ?case
  proof (cases "c = CHR '' ''")
    case True
    then have "strtok CHR '' '' (c # s) = strtok CHR '' '' s" by (simp add: strtok_def)
    with True Cons show ?thesis by simp
  next
    case False
    then show ?thesis by (simp add: strtok_def words_from_word)
  qed
qed

lemma words_nonempty: "w \<in> set (words_from v s) \<Longrightarrow> w \<noteq> []"
  by (induction v s rule: words_from.induct) (auto split: if_splits)

lemma split_redirect_subset: "set (fst (split_redirect out ws)) \<subseteq> set ws"
  by (induction out ws rule: split_redirect.induct) (auto split: if_splits prod.splits)

text \<open>The loop computes this from the words, once it has the command.\<close>

lemma parse_tokens_words:
  assumes "pc_command cmd \<noteq> None" "length (pc_args cmd) \<le> MAX_ARGS"
  shows "parse_tokens s cmd =
    (let (args, out) = split_redirect (pc_outputFile cmd) (words_from [] s) in
     if MAX_ARGS < length (pc_args cmd @ args) then Inl Args_Overflow
     else Inr (cmd\<lparr>pc_args := pc_args cmd @ args, pc_outputFile := out\<rparr>))"
  using assms
proof (induction s cmd rule: parse_tokens.induct)
  case (1 s cmd)
  show ?case
  proof (cases "strtok CHR '' '' s")
    case None
    with "1.prems" show ?thesis by (subst parse_tokens.simps) (simp add: words_strtok [of s])
  next
    case (Some p)
    obtain t r where p: "strtok CHR '' '' s = Some (t, r)" using Some by (cases p) simp
    have w: "words_from [] s = t # words_from [] r" using p by (simp add: words_strtok [of s])
    show ?thesis
    proof (cases "t = ''>''")
      case True
      show ?thesis
      proof (cases "strtok CHR '' '' r")
        case None
        then have "words_from [] r = []" by (simp add: words_strtok [of r])
        with None True p "1.prems" w show ?thesis by (subst parse_tokens.simps) auto
      next
        case (Some q)
        obtain f r1 where q: "strtok CHR '' '' r = Some (f, r1)" using Some by (cases q) simp
        have "words_from [] r = f # words_from [] r1" using q by (simp add: words_strtok [of r])
        moreover have "parse_tokens s cmd = parse_tokens r1 (cmd\<lparr>pc_outputFile := Some f\<rparr>)"
          using "1.prems"(1) p q True by (subst parse_tokens.simps) auto
        ultimately show ?thesis using "1.IH"(2) [OF p refl "1.prems"(1) True q refl] "1.prems" w True by (simp split: prod.split)
      qed
    next
      case False
      have sp: "split_redirect out (t # ws) = (t # fst (split_redirect out ws), snd (split_redirect out ws))" for out ws
        using False by (cases ws) (simp_all add: split_beta)
      show ?thesis
      proof (cases "MAX_ARGS \<le> length (pc_args cmd)")
        case True
        with False p "1.prems" show ?thesis by (subst parse_tokens.simps) (auto simp: w sp)
      next
        case less: False
        have "parse_tokens s cmd = parse_tokens r (cmd\<lparr>pc_args := pc_args cmd @ [t]\<rparr>)"
          using "1.prems"(1) p False less by (subst parse_tokens.simps) auto
        then show ?thesis using "1.IH"(3) [OF p refl "1.prems"(1) False less] "1.prems"(1) less
          by (simp add: w sp split_beta Let_def)
      qed
    qed
  qed
qed

lemma remove_quotes_unquote:
  assumes "\<And>a. a \<in> set args \<Longrightarrow> a \<noteq> []"
  shows "remove_quotes (cmd\<lparr>pc_args := args\<rparr>) =
    (if args = [] then Inl Null_Dereference else Inr (cmd\<lparr>pc_args := unquote args\<rparr>))"
proof (cases args)
  case Nil
  then show ?thesis by (simp add: remove_quotes_def)
next
  case (Cons a as)
  have l: "args ! (length args - 1) = last args" "hd (args ! 0) = hd (hd args)"
    using Cons by (simp_all add: last_conv_nth)
  have "last args \<noteq> []" using assms Cons by simp
  then have n: "last args ! (length (last args) - 1) = last (last args)" by (simp add: last_conv_nth)
  have u: "(args[length args - 1 := take (length (last args) - 1) (last args)])
      [0 := tl (args[length args - 1 := take (length (last args) - 1) (last args)] ! 0)]
    = (case args of [a] \<Rightarrow> [tl (butlast a)] | a # as \<Rightarrow> tl a # butlast as @ [butlast (last as)])"
  proof (cases as rule: rev_cases)
    case Nil
    then show ?thesis using Cons by (simp add: butlast_conv_take)
  next
    case (snoc bs b)
    then show ?thesis using Cons by (cases bs) (simp_all add: butlast_conv_take)
  qed
  have a: "pc_args (cmd\<lparr>pc_args := args\<rparr>) = args" "args \<noteq> []" using Cons by simp_all
  then show ?thesis unfolding remove_quotes_def unquote_def Let_def a(1) l n u by simp
qed

text \<open>
  C34 (parsing a command line): for every line, \<open>parse_command\<close> ends, and its result is given by the
  words of the line: the first word is the command, a word after \<open>>\<close> is the output file (the last
  one counts), the others are the arguments, without the quotes that wrap them all. A line without
  any argument makes the code read through a null pointer, and one with more than 64 arguments makes
  it write after the end of the array.
\<close>

theorem parse_command_result:
  "parse_command s =
     (case words_from [] s of
        [] \<Rightarrow> Inl Null_Dereference
      | c # ws \<Rightarrow>
          (let (args, out) = split_redirect None ws in
           if MAX_ARGS < length args then Inl Args_Overflow
           else if args = [] then Inl Null_Dereference
           else Inr \<lparr>pc_command = Some c, pc_args = unquote args, pc_outputFile = out\<rparr>))"
proof (cases "strtok CHR '' '' s")
  case None
  then have "parse_tokens s cmd = Inr cmd" for cmd by (subst parse_tokens.simps) simp
  with None show ?thesis by (simp add: parse_command_def words_strtok [of s] bindR_def remove_quotes_def)
next
  case (Some p)
  obtain c r where p: "strtok CHR '' '' s = Some (c, r)" using Some by (cases p) simp
  obtain args out where ao: "split_redirect None (words_from [] r) = (args, out)" by fastforce
  have ne: "a \<noteq> []" if "a \<in> set args" for a
    using that split_redirect_subset [of None "words_from [] r"] words_nonempty [of a "[]" r] ao by auto
  have "parse_tokens s \<lparr>pc_command = None, pc_args = [], pc_outputFile = None\<rparr>
      = parse_tokens r \<lparr>pc_command = Some c, pc_args = [], pc_outputFile = None\<rparr>"
    using p by (subst parse_tokens.simps) simp
  also have "\<dots> = (if MAX_ARGS < length args then Inl Args_Overflow
      else Inr \<lparr>pc_command = Some c, pc_args = args, pc_outputFile = out\<rparr>)"
    using ao by (subst parse_tokens_words) simp_all
  finally show ?thesis
    using remove_quotes_unquote [of args "\<lparr>pc_command = Some c, pc_args = args, pc_outputFile = out\<rparr>"] ne
    by (simp add: parse_command_def words_strtok [of s] p ao bindR_def)
qed

text \<open>So a line with one word ends the shell.\<close>

lemma shell_crashes:
  assumes "w \<noteq> []" "set w \<inter> {CHR '' '', CHR 0x0A, CHR 0x00} = {}" "length w < 1023" "w \<noteq> ''exit''"
  shows "shell_main (w @ CHR 0x0A # rest) = ([], Inl Null_Dereference)"
proof -
  have f: "fgets_chars 1023 (w @ CHR 0x0A # rest) = (w @ [CHR 0x0A], rest)"
    using assms by (intro fgets_chars_line) auto
  have c: "c_string (w @ [CHR 0x0A]) = w @ [CHR 0x0A]" using assms(2) by (simp add: c_string_def takeWhile_eq_all_conv) auto
  have n: "strip_newline (w @ [CHR 0x0A]) = w"
    using assms(2) by (subst strip_newline_def, subst takeWhile_append2) auto
  have tw: "takeWhile (\<lambda>c. c \<noteq> CHR '' '') w = w" "dropWhile (\<lambda>c. c = CHR '' '') w = w" "dropWhile (\<lambda>c. c \<noteq> CHR '' '') w = []"
    using assms(1,2) by (auto simp: takeWhile_eq_all_conv dropWhile_eq_Nil_conv) (cases w, auto)
  have t: "strtok CHR '' '' w = Some (w, [])" unfolding strtok_def Let_def tw using assms(1) by simp
  have "strtok CHR '' '' [] = None" by (simp add: strtok_def)
  with t have "parse_command w = Inl Null_Dereference"
    by (simp add: parse_command_def parse_tokens.simps bindR_def remove_quotes_def)
  with f c n assms(4) show ?thesis by (subst shell_main.simps) simp
qed

end
