(* ===== verification/Snake.thy ===== *)
theory Snake
  imports Complex_Main Libc
begin

text \<open>
  The snake game (\<open>assignments/a2/src\<close>): the board, its initial contents, placing food, drawing, and
  the main program. The cells are a list, row by row; \<open>rand\<close> is a parameter, the sequence of its
  results, with the number of calls so far. Drawing through curses is the list of what is drawn, in
  order. \<open>update\<close>, \<open>teardown\<close>, \<open>initialize_game\<close>, \<open>decompress_board_str\<close> and \<open>mbslen\<close> are empty in the
  source or return a constant; \<open>main\<close> stops after its greeting.
\<close>

section \<open>The board\<close>

abbreviation FLAG_PLAIN_CELL :: int where "FLAG_PLAIN_CELL \<equiv> 1"
abbreviation FLAG_SNAKE :: int where "FLAG_SNAKE \<equiv> 2"
abbreviation FLAG_WALL :: int where "FLAG_WALL \<equiv> 4"
abbreviation FLAG_FOOD :: int where "FLAG_FOOD \<equiv> 8"

datatype input_key = INPUT_UP | INPUT_DOWN | INPUT_LEFT | INPUT_RIGHT | INPUT_NONE

datatype board_init_status = INIT_SUCCESS | INIT_ERR_INCORRECT_DIMENSIONS | INIT_ERR_WRONG_SNAKE_NUM
  | INIT_ERR_BAD_CHAR | INIT_UNIMPLEMENTED

record board =
  b_cells :: "int list"
  b_width :: nat
  b_height :: nat

definition fill_plain :: "int list \<Rightarrow> int list" where
  "fill_plain cells = fold (\<lambda>i c. c[i := FLAG_PLAIN_CELL]) [0..<20 * 10] cells"

definition top_bottom_edges :: "int list \<Rightarrow> int list" where
  "top_bottom_edges cells = fold (\<lambda>i c. c[i := FLAG_WALL, i + 20 * (10 - 1) := FLAG_WALL]) [0..<20] cells"

definition left_right_edges :: "int list \<Rightarrow> int list" where
  "left_right_edges cells = fold (\<lambda>i c. c[i * 20 := FLAG_WALL, i * 20 + 20 - 1 := FLAG_WALL]) [0..<10] cells"

text \<open>The argument is what \<open>malloc\<close> returned: the old contents of the memory, or nothing.\<close>

definition initialize_default_board :: "int list option \<Rightarrow> (board_init_status \<times> board) option" where
  "initialize_default_board mem =
     (case mem of
        None \<Rightarrow> None
      | Some cells \<Rightarrow>
          Some (INIT_SUCCESS,
            \<lparr>b_cells = (left_right_edges (top_bottom_edges (fill_plain cells)))[20 * 2 + 2 := FLAG_SNAKE],
             b_width = 20, b_height = 10\<rparr>))"

definition initialize_game :: "string option \<Rightarrow> board_init_status" where
  "initialize_game board_rep = INIT_SUCCESS"

section \<open>Food\<close>

definition generate_index :: "(nat \<Rightarrow> nat) \<Rightarrow> nat \<Rightarrow> nat \<Rightarrow> nat" where
  "generate_index rands n sz = rands n mod sz"

datatype board_error = Divide_By_Zero | Bad_Index

text \<open>
  \<open>place_food\<close> calls itself until it hits a plain cell: \<open>None\<close> when it never does. The argument of
  \<open>generate_index\<close> has type \<open>unsigned\<close>.
\<close>

partial_function (option) place_food ::
  "(nat \<Rightarrow> nat) \<Rightarrow> nat \<Rightarrow> board \<Rightarrow> (board_error + board \<times> nat) option" where
  "place_food rands n b =
     (let sz = b_width b * b_height b mod 2 ^ 32; food_index = generate_index rands n sz in
      if sz = 0 then Some (Inl Divide_By_Zero)
      else if length (b_cells b) \<le> food_index then Some (Inl Bad_Index)
      else if b_cells b ! food_index = FLAG_PLAIN_CELL
           then Some (Inr (b\<lparr>b_cells := (b_cells b)[food_index := FLAG_FOOD]\<rparr>, n + 1))
           else place_food rands (n + 1) b)"

section \<open>Drawing\<close>

datatype glyph = Snake_Glyph | Food_Glyph | Wall_Glyph | Blank

datatype draw = At int int glyph | Score int int int | Text int int string | Refresh

definition cell_glyph :: "int \<Rightarrow> glyph" where
  "cell_glyph c =
     (if c AND FLAG_SNAKE \<noteq> 0 then Snake_Glyph
      else if c AND FLAG_FOOD \<noteq> 0 then Food_Glyph
      else if c AND FLAG_WALL \<noteq> 0 then Wall_Glyph
      else Blank)"

text \<open>
  The row offset of the board is 1, and the score is in the row above it. The loop counts with an
  \<open>unsigned\<close> number, so it never ends (\<open>None\<close>) on a board of \<open>2 ^ 32\<close> cells or more.
\<close>

definition render_game :: "board \<Rightarrow> int \<Rightarrow> (board_error + draw list) option" where
  "render_game b score =
     (let n = b_width b * b_height b mod 2 ^ 64 in
      if 2 ^ 32 \<le> n then None
      else if length (b_cells b) < n then Some (Inl Bad_Index)
      else Some (Inr (
        map (\<lambda>i. At (int (i div b_width b) + 1) (int (i mod b_width b)) (cell_glyph (b_cells b ! i))) [0..<n]
        @ [Score (- 1 + 1) 0 score, Refresh])))"

text \<open>The conversion of a \<open>size_t\<close> to \<open>int\<close>, and the half that C computes.\<close>

definition size_to_int :: "nat \<Rightarrow> int" where
  "size_to_int n = (int n + 2 ^ 31) mod 2 ^ 32 - 2 ^ 31"

definition c_half :: "int \<Rightarrow> int" where
  "c_half x = (if x < 0 then - (- x div 2) else x div 2)"

datatype terminal_check = Terminal_Ok | Terminal_Too_Small int int

definition check_terminal_size :: "int \<Rightarrow> int \<Rightarrow> board \<Rightarrow> terminal_check" where
  "check_terminal_size LINES COLS b =
     (let req_h = size_to_int (b_height b) + 2; req_w = size_to_int (b_width b) in
      if LINES < req_h \<or> COLS < req_w then Terminal_Too_Small req_w req_h else Terminal_Ok)"

text \<open>
  The window: the calls of curses in their order, and whether the program goes on (\<open>exit(1)\<close> ends it
  if the terminal is too small). The pairs of colours are number, foreground and background.
\<close>

datatype curses_call = Setlocale | Initscr | Halfdelay int | Keypad bool | Endwin | Curs_Set int | Newwin int int
  | Refresh_Screen | Start_Color | Use_Default_Colors | Init_Pair int int int

definition initialize_window :: "int \<Rightarrow> int \<Rightarrow> board \<Rightarrow> curses_call list \<times> bool" where
  "initialize_window LINES COLS b =
     (let before = [Setlocale, Initscr, Halfdelay 1, Keypad True] in
      case check_terminal_size LINES COLS b of
        Terminal_Too_Small req_w req_h \<Rightarrow> (before @ [Endwin], False)
      | Terminal_Ok \<Rightarrow>
          (before @ [Curs_Set 0, Newwin (size_to_int (b_height b)) (size_to_int (b_width b)), Refresh_Screen,
             Start_Color, Use_Default_Colors, Init_Pair 1 0 (- 1), Init_Pair 2 3 (- 1), Init_Pair 3 4 (- 1),
             Init_Pair 4 1 (- 1), Init_Pair 5 7 (- 1)], True))"

text \<open>\<open>end_game\<close>: \<open>teardown\<close> is empty, and the screen at the end is commented out.\<close>

definition end_game :: "curses_call list" where
  "end_game = [Endwin]"

text \<open>\<open>read_name\<close> copies a constant for now; the buffers of its callers have 1000 bytes.\<close>

definition read_name :: string where
  "read_name = ''placeholder''"

text \<open>\<open>ceil(log10(n))\<close> for positive \<open>n\<close>: the least \<open>k\<close> with \<open>n \<le> 10 ^ k\<close>.\<close>

fun ceil_log10 :: "nat \<Rightarrow> nat" where
  "ceil_log10 n = (if n \<le> 1 then 0 else Suc (ceil_log10 ((n + 9) div 10)))"

declare ceil_log10.simps [simp del]

definition number_of_digits_in_score :: "nat \<Rightarrow> int" where
  "number_of_digits_in_score score = (if score \<noteq> 0 then int (ceil_log10 score) else 1)"

text \<open>The row offset of this screen is 2.\<close>

definition render_game_over :: "nat \<Rightarrow> nat \<Rightarrow> string \<Rightarrow> int \<Rightarrow> nat \<Rightarrow> draw list" where
  "render_game_over width height name name_len score =
     (let y_center = c_half (size_to_int height); x_center = c_half (size_to_int width) in
      [Text (y_center - 4 + 2) (x_center - 4) ''GAME OVER'',
       Text (y_center - 2 + 2) (x_center - c_half name_len) name,
       Score (y_center - 1 + 2) (x_center - c_half (7 + number_of_digits_in_score score)) (int score),
       Text (y_center + 2 + 2) (x_center - 10) ''PRESS ANY KEY TO EXIT'',
       Refresh])"

section \<open>Input and the main program\<close>

text \<open>The codes of the arrow keys come from curses.\<close>

record curses_keys =
  key_up :: int
  key_down :: int
  key_left :: int
  key_right :: int

definition get_input :: "curses_keys \<Rightarrow> int \<Rightarrow> input_key" where
  "get_input keys input =
     (if input = key_up keys then INPUT_UP
      else if input = key_down keys then INPUT_DOWN
      else if input = key_left keys then INPUT_LEFT
      else if input = key_right keys then INPUT_RIGHT
      else INPUT_NONE)"

datatype snake_outcome = Snake_Usage | Bad_Grows | Greeting int

text \<open>\<open>main\<close> on the arguments after the program's name; \<open>None\<close> where \<open>atoi\<close> is undefined.\<close>

definition snake_main :: "string list \<Rightarrow> snake_outcome option" where
  "snake_main args =
     (case args of
        [g] \<Rightarrow>
          map_option (\<lambda>snake_grows.
            if snake_grows \<noteq> 1 \<and> snake_grows \<noteq> 0 then Bad_Grows
            else (case initialize_game None of _ \<Rightarrow> Greeting snake_grows)) (atoi g)
      | [g, r] \<Rightarrow>
          map_option (\<lambda>snake_grows.
            if snake_grows \<noteq> 1 \<and> snake_grows \<noteq> 0 then Bad_Grows
            else (case initialize_game (if r = [] then None else Some r) of _ \<Rightarrow> Greeting snake_grows)) (atoi g)
      | _ \<Rightarrow> Some Snake_Usage)"

section \<open>The default board\<close>

lemma length_fold_update [simp]: "length (fold (\<lambda>i c. c[f i := v]) xs cells) = length cells"
  by (induction xs arbitrary: cells) simp_all

lemma nth_update: "j < length xs \<Longrightarrow> xs[i := v] ! j = (if i = j then v else xs ! j)"
  by (cases "i = j") simp_all

lemma nth_fold_update:
  "j < length cells \<Longrightarrow> fold (\<lambda>i c. c[f i := v]) xs cells ! j = (if j \<in> f ` set xs then v else cells ! j)"
  by (induction xs arbitrary: cells) (auto simp: nth_update)

lemma fold_update2:
  "length (fold (\<lambda>i c. c[f i := v, g i := v]) xs cells) = length cells
   \<and> (\<forall>j < length cells. fold (\<lambda>i c. c[f i := v, g i := v]) xs cells ! j
        = (if j \<in> f ` set xs \<union> g ` set xs then v else cells ! j))"
  by (induction xs arbitrary: cells) (auto simp: nth_update)

lemmas nth_fold_update2 = fold_update2 [THEN conjunct2, rule_format]
lemmas length_fold_update2 [simp] = fold_update2 [THEN conjunct1]

text \<open>The default board is closed: walls all around, the snake in row 2 and column 2, plain cells elsewhere.\<close>

definition default_cell :: "nat \<Rightarrow> nat \<Rightarrow> int" where
  "default_cell r c =
     (if r = 0 \<or> r = 9 \<or> c = 0 \<or> c = 19 then FLAG_WALL else if r = 2 \<and> c = 2 then FLAG_SNAKE else FLAG_PLAIN_CELL)"

lemma default_board_cells:
  assumes "initialize_default_board (Some cells) = Some (st, b)" "length cells = 200" "r < 10" "c < 20"
  shows "length (b_cells b) = b_width b * b_height b" "b_cells b ! (b_width b * r + c) = default_cell r c"
proof -
  let ?j = "20 * r + c"
  have j: "?j < 200" using assms(3,4) by simp
  have b: "b_cells b = (left_right_edges (top_bottom_edges (fill_plain cells)))[42 := FLAG_SNAKE]" "b_width b = 20" "b_height b = 10"
    using assms(1) by (auto simp: initialize_default_board_def)
  have p: "length (fill_plain cells) = 200" "fill_plain cells ! ?j = FLAG_PLAIN_CELL"
    using j assms(2) nth_fold_update [of ?j cells "\<lambda>i. i" FLAG_PLAIN_CELL "[0..<200]"] length_fold_update [of "\<lambda>i. i"]
    by (simp_all add: fill_plain_def)
  have t: "length (top_bottom_edges (fill_plain cells)) = 200"
      "top_bottom_edges (fill_plain cells) ! ?j = (if r = 0 \<or> r = 9 then FLAG_WALL else FLAG_PLAIN_CELL)"
  proof -
    have "?j \<in> (\<lambda>i. i) ` set [0..<20] \<union> (\<lambda>i. i + 180) ` set [0..<20] \<longleftrightarrow> r = 0 \<or> r = 9"
      using assms(3,4) by (auto simp: image_iff) (presburger+)?
    then show "top_bottom_edges (fill_plain cells) ! ?j = (if r = 0 \<or> r = 9 then FLAG_WALL else FLAG_PLAIN_CELL)"
      using nth_fold_update2 [of ?j "fill_plain cells" "\<lambda>i. i" FLAG_WALL "\<lambda>i. i + 180" "[0..<20]"] p j
      by (simp add: top_bottom_edges_def)
  qed (simp add: top_bottom_edges_def p)
  have l: "left_right_edges (top_bottom_edges (fill_plain cells)) ! ?j
      = (if r = 0 \<or> r = 9 \<or> c = 0 \<or> c = 19 then FLAG_WALL else FLAG_PLAIN_CELL)"
  proof -
    have "?j \<in> (\<lambda>i. i * 20) ` set [0..<10] \<union> (\<lambda>i. i * 20 + 20 - 1) ` set [0..<10] \<longleftrightarrow> c = 0 \<or> c = 19"
      using assms(3,4) by (auto simp: image_iff) (presburger+)?
    then show ?thesis
      using nth_fold_update2 [of ?j "top_bottom_edges (fill_plain cells)" "\<lambda>i. i * 20" FLAG_WALL "\<lambda>i. i * 20 + 20 - 1" "[0..<10]"] t j
      by (auto simp: left_right_edges_def)
  qed
  have len: "length (left_right_edges (top_bottom_edges (fill_plain cells))) = 200" by (simp add: left_right_edges_def t)
  show "length (b_cells b) = b_width b * b_height b" using b len by simp
  have dm: "?j div 20 = r" "?j mod 20 = c" using assms(4) by simp_all
  have "?j = 42 \<longleftrightarrow> r = 2 \<and> c = 2"
  proof
    assume "?j = 42"
    from dm [unfolded this] show "r = 2 \<and> c = 2" by simp
  qed simp
  then show "b_cells b ! (b_width b * r + c) = default_cell r c"
    using l j len b by (auto simp: default_cell_def nth_list_update)
qed

section \<open>Placing food\<close>

definition board_ok :: "board \<Rightarrow> bool" where
  "board_ok b \<longleftrightarrow> length (b_cells b) = b_width b * b_height b \<and> 0 < length (b_cells b) \<and> length (b_cells b) < 2 ^ 32"

definition hits_plain :: "(nat \<Rightarrow> nat) \<Rightarrow> board \<Rightarrow> nat \<Rightarrow> bool" where
  "hits_plain rands b k \<longleftrightarrow> b_cells b ! (rands k mod length (b_cells b)) = FLAG_PLAIN_CELL"

definition with_food :: "(nat \<Rightarrow> nat) \<Rightarrow> board \<Rightarrow> nat \<Rightarrow> board" where
  "with_food rands b k = b\<lparr>b_cells := (b_cells b)[rands k mod length (b_cells b) := FLAG_FOOD]\<rparr>"

lemma board_ok_size:
  "board_ok b \<Longrightarrow> b_width b * b_height b mod 2 ^ 32 = length (b_cells b)" "board_ok b \<Longrightarrow> length (b_cells b) \<noteq> 0"
  unfolding board_ok_def by (metis mod_less) (metis gr_implies_not0)

lemma place_food_step:
  assumes "board_ok b"
  shows "place_food rands n b = (if hits_plain rands b n then Some (Inr (with_food rands b n, n + 1)) else place_food rands (n + 1) b)"
proof -
  note sz = board_ok_size [OF assms]
  have "\<not> length (b_cells b) \<le> rands n mod length (b_cells b)" using sz(2) by (simp add: not_le)
  with sz show ?thesis
    by (subst place_food.simps) (simp add: Let_def generate_index_def hits_plain_def with_food_def)
qed

lemma place_food_hit:
  assumes "board_ok b" "hits_plain rands b (n + d)" "\<And>i. i < d \<Longrightarrow> \<not> hits_plain rands b (n + i)"
  shows "place_food rands n b = Some (Inr (with_food rands b (n + d), n + d + 1))"
  using assms(2,3)
proof (induction d arbitrary: n)
  case 0
  then show ?case by (subst place_food_step [OF assms(1)]) simp
next
  case (Suc d)
  from Suc.prems(2) [of 0] have "place_food rands n b = place_food rands (n + 1) b"
    by (subst place_food_step [OF assms(1)]) simp
  moreover have "\<not> hits_plain rands b (n + 1 + i)" if "i < d" for i using Suc.prems(2) [of "Suc i"] that by simp
  ultimately show ?case using Suc.IH [of "n + 1"] Suc.prems(1) by simp
qed

lemma place_food_returns_hit:
  "place_food rands n b = Some r \<Longrightarrow> board_ok b \<longrightarrow> (\<exists>k\<ge>n. hits_plain rands b k)"
proof (erule place_food.raw_induct [rotated])
  fix pf :: "(nat \<Rightarrow> nat) \<Rightarrow> nat \<Rightarrow> board \<Rightarrow> (board_error + board \<times> nat) option" and rands n b r
  assume ih: "\<And>rands n b r. pf rands n b = Some r \<Longrightarrow> board_ok b \<longrightarrow> (\<exists>k\<ge>n. hits_plain rands b k)"
    and eq: "(let sz = b_width b * b_height b mod 2 ^ 32; food_index = generate_index rands n sz in
      if sz = 0 then Some (Inl Divide_By_Zero)
      else if length (b_cells b) \<le> food_index then Some (Inl Bad_Index)
      else if b_cells b ! food_index = FLAG_PLAIN_CELL
           then Some (Inr (b\<lparr>b_cells := (b_cells b)[food_index := FLAG_FOOD]\<rparr>, n + 1))
           else pf rands (n + 1) b) = Some r"
  show "board_ok b \<longrightarrow> (\<exists>k\<ge>n. hits_plain rands b k)"
  proof
    assume ok: "board_ok b"
    note sz = board_ok_size [OF ok]
    then have "\<not> length (b_cells b) \<le> rands n mod length (b_cells b)" by (simp add: not_le)
    with eq sz have "hits_plain rands b n \<or> pf rands (n + 1) b = Some r"
      by (auto simp: Let_def generate_index_def hits_plain_def split: if_splits)
    with ih [of rands "n + 1" b r] ok show "\<exists>k\<ge>n. hits_plain rands b k" by (meson add_leD1 order_refl)
  qed
qed

text \<open>
  C39 (placing food): on a well-formed board \<open>place_food\<close> ends exactly if one of the next random
  numbers hits a plain cell. Then the first one that does decides: this cell becomes food, and every
  other cell is as before; if none does (the board is full), the call never returns.
\<close>

theorem place_food_result:
  assumes "board_ok b"
  shows "((\<exists>k\<ge>n. hits_plain rands b k) \<longrightarrow>
      (\<exists>k\<ge>n. hits_plain rands b k \<and> (\<forall>i. n \<le> i \<and> i < k \<longrightarrow> \<not> hits_plain rands b i)
         \<and> place_food rands n b = Some (Inr (with_food rands b k, k + 1))))
    \<and> ((\<nexists>k. n \<le> k \<and> hits_plain rands b k) \<longrightarrow> place_food rands n b = None)
    \<and> (FLAG_PLAIN_CELL \<notin> set (b_cells b) \<longrightarrow> place_food rands n b = None)"
proof (intro conjI impI)
  let ?P = "\<lambda>d. hits_plain rands b (n + d)"
  assume "\<exists>k\<ge>n. hits_plain rands b k"
  then have "\<exists>d. ?P d" by (metis le_iff_add)
  then obtain d where d: "?P d" "\<And>i. i < d \<Longrightarrow> \<not> ?P i" using exists_least_iff [of ?P] by auto
  have "\<not> hits_plain rands b i" if "n \<le> i" "i < n + d" for i
    using d(2) [of "i - n"] that by (simp add: less_diff_conv2)
  with d(1) place_food_hit [OF assms d]
  show "\<exists>k\<ge>n. hits_plain rands b k \<and> (\<forall>i. n \<le> i \<and> i < k \<longrightarrow> \<not> hits_plain rands b i)
         \<and> place_food rands n b = Some (Inr (with_food rands b k, k + 1))"
    by (intro exI [of _ "n + d"]) simp
next
  have never: "place_food rands n b = None" if "\<nexists>k. n \<le> k \<and> hits_plain rands b k"
    using place_food_returns_hit [of rands n b] that assms by (cases "place_food rands n b") auto
  then show "\<nexists>k. n \<le> k \<and> hits_plain rands b k \<Longrightarrow> place_food rands n b = None" .
  assume full: "FLAG_PLAIN_CELL \<notin> set (b_cells b)"
  have "\<not> hits_plain rands b k" for k
  proof -
    have "rands k mod length (b_cells b) < length (b_cells b)" using board_ok_size(2) [OF assms] by simp
    then have "b_cells b ! (rands k mod length (b_cells b)) \<in> set (b_cells b)" by (rule nth_mem)
    with full show ?thesis unfolding hits_plain_def by metis
  qed
  then show "place_food rands n b = None" using never by blast
qed

theorem place_food_result_witness:
  "place_food (\<lambda>k. k * 7) 0 \<lparr>b_cells = [4, 1, 4, 1], b_width = 2, b_height = 2\<rparr>
     = Some (Inr (\<lparr>b_cells = [4, 1, 4, 8], b_width = 2, b_height = 2\<rparr>, 2))
   \<and> place_food (\<lambda>k. k) 0 \<lparr>b_cells = [4, 2], b_width = 2, b_height = 1\<rparr> = None"
proof
  let ?b = "\<lparr>b_cells = [4, 1, 4, 1], b_width = 2, b_height = 2\<rparr>"
  have ok: "board_ok ?b" by (simp add: board_ok_def)
  have h: "hits_plain (\<lambda>k. k * 7) ?b 1" "\<not> hits_plain (\<lambda>k. k * 7) ?b 0" by code_simp+
  have "\<exists>k\<ge>0. hits_plain (\<lambda>k. k * 7) ?b k" using h(1) by (intro exI [of _ 1] conjI) simp_all
  from place_food_result [OF ok, of 0 "\<lambda>k. k * 7", THEN conjunct1, rule_format, OF this] obtain k where
    k: "hits_plain (\<lambda>k. k * 7) ?b k" "\<forall>i. 0 \<le> i \<and> i < k \<longrightarrow> \<not> hits_plain (\<lambda>k. k * 7) ?b i"
      "place_food (\<lambda>k. k * 7) 0 ?b = Some (Inr (with_food (\<lambda>k. k * 7) ?b k, k + 1))" by blast
  have "\<not> 1 < k" using k(2) h(1) by auto
  moreover have "k \<noteq> 0" using k(1) h(2) by (cases "k = 0") simp_all
  ultimately have "k = 1" by linarith
  with k(3) show "place_food (\<lambda>k. k * 7) 0 ?b = Some (Inr (\<lparr>b_cells = [4, 1, 4, 8], b_width = 2, b_height = 2\<rparr>, 2))"
    by (simp add: with_food_def)
  have "board_ok \<lparr>b_cells = [4, 2], b_width = 2, b_height = 1\<rparr>" by (simp add: board_ok_def)
  from place_food_result [OF this, of 0 "\<lambda>k. k"]
  show "place_food (\<lambda>k. k) 0 \<lparr>b_cells = [4, 2], b_width = 2, b_height = 1\<rparr> = None" by simp
qed

section \<open>Drawing\<close>

text \<open>Every cell is drawn once, in its row and column below the score.\<close>

lemma render_game_cell:
  assumes "board_ok b" "r < b_height b" "c < b_width b" "render_game b score = Some (Inr ds)"
  shows "At (int r + 1) (int c) (cell_glyph (b_cells b ! (b_width b * r + c))) \<in> set ds"
proof -
  let ?i = "b_width b * r + c" and ?n = "b_width b * b_height b"
  have "?i < b_width b * Suc r" using assms(3) by simp
  also have "\<dots> \<le> ?n" using assms(2) by (intro mult_le_mono2) simp
  finally have i: "?i < ?n" .
  have "?n < 2 ^ 32" using assms(1) unfolding board_ok_def by metis
  then have "?n mod 2 ^ 64 = ?n" by simp
  then have "At (int (?i div b_width b) + 1) (int (?i mod b_width b)) (cell_glyph (b_cells b ! ?i)) \<in> set ds"
    using assms(4) i unfolding render_game_def Let_def
    by (auto split: if_splits simp del: mod_mult_self4 intro!: image_eqI [where x = ?i])
  then show ?thesis using assms(3) by simp
qed

text \<open>
  The screen is always left as it was found: the program goes on with the board visible in a window
  of its size, or ends after \<open>endwin\<close>.
\<close>

lemma initialize_window_result:
  assumes "b_height b < 2 ^ 31 - 2" "b_width b < 2 ^ 31"
  shows "snd (initialize_window lines cols b) \<longleftrightarrow> int (b_height b) + 2 \<le> lines \<and> int (b_width b) \<le> cols"
    "\<not> snd (initialize_window lines cols b) \<Longrightarrow> last (fst (initialize_window lines cols b)) = Endwin"
    "snd (initialize_window lines cols b) \<Longrightarrow>
       Newwin (int (b_height b)) (int (b_width b)) \<in> set (fst (initialize_window lines cols b))"
proof -
  have "size_to_int (b_height b) = int (b_height b)" "size_to_int (b_width b) = int (b_width b)"
    using assms by (simp_all add: size_to_int_def)
  then show "snd (initialize_window lines cols b) \<longleftrightarrow> int (b_height b) + 2 \<le> lines \<and> int (b_width b) \<le> cols"
    "\<not> snd (initialize_window lines cols b) \<Longrightarrow> last (fst (initialize_window lines cols b)) = Endwin"
    "snd (initialize_window lines cols b) \<Longrightarrow>
       Newwin (int (b_height b)) (int (b_width b)) \<in> set (fst (initialize_window lines cols b))"
    by (auto simp: initialize_window_def check_terminal_size_def Let_def split: if_splits)
qed

text \<open>The executable logarithm is the one of the real numbers, rounded up.\<close>

lemma ceil_log10_le: "ceil_log10 n \<le> k \<longleftrightarrow> n \<le> 10 ^ k"
proof (induction n arbitrary: k rule: ceil_log10.induct)
  case (1 n)
  show ?case
  proof (cases "n \<le> 1")
    case True
    moreover have "(1 :: nat) \<le> 10 ^ k" by simp
    ultimately have "n \<le> 10 ^ k" by linarith
    with True show ?thesis by (subst ceil_log10.simps) simp
  next
    case False
    show ?thesis
    proof (cases k)
      case 0
      with False show ?thesis by (subst ceil_log10.simps) simp
    next
      case (Suc j)
      have "ceil_log10 n \<le> k \<longleftrightarrow> (n + 9) div 10 \<le> 10 ^ j"
        using False "1.IH" [of j] Suc by (subst ceil_log10.simps) simp
      also have "\<dots> \<longleftrightarrow> n \<le> 10 * 10 ^ j" by linarith
      finally show ?thesis using Suc by simp
    qed
  qed
qed

lemma ceil_log10_log: "0 < n \<Longrightarrow> int (ceil_log10 n) = \<lceil>log 10 (real n)\<rceil>"
proof -
  assume n: "0 < n"
  have le: "\<lceil>log 10 (real n)\<rceil> \<le> int k \<longleftrightarrow> ceil_log10 n \<le> k" for k
  proof -
    have "\<lceil>log 10 (real n)\<rceil> \<le> int k \<longleftrightarrow> real n \<le> 10 powr real k"
      using n by (simp add: ceiling_le_iff log_le_iff)
    also have "\<dots> \<longleftrightarrow> real n \<le> real (10 ^ k)" by (simp add: powr_realpow)
    also have "\<dots> \<longleftrightarrow> ceil_log10 n \<le> k" unfolding ceil_log10_le by (rule of_nat_le_iff)
    finally show ?thesis .
  qed
  have "0 \<le> log 10 (real n)" using n by simp
  then have "0 \<le> \<lceil>log 10 (real n)\<rceil>" by simp
  then obtain k where "\<lceil>log 10 (real n)\<rceil> = int k" by (metis nonneg_int_cases)
  then show ?thesis using le [of "ceil_log10 n"] le [of k] by simp
qed

text \<open>The number of digits is wrong for 1 and for the powers of ten.\<close>

lemma score_digits: "map number_of_digits_in_score [0, 1, 9, 10, 11, 99, 100, 101] = [1, 0, 1, 1, 2, 2, 2, 3]"
  by code_simp

end
