(* ===== verification/Alloc.thy ===== *)
theory Alloc
  imports CLib Libc
begin

text \<open>
  The debugging allocator (\<open>assignments/a3\<close>: \<open>basealloc.c\<close>, \<open>dmalloc.c\<close>) and the arena
  (\<open>arenas/arena.c\<close>, \<open>arenas/main.c\<close>), as far as their code is written. \<open>malloc\<close> and \<open>free\<close> are
  parameters with a state of their own, the heap; \<open>malloc\<close> returns 0 when it fails.
\<close>

section \<open>The base allocator\<close>

type_synonym 'h malloc_fun = "u64 \<Rightarrow> 'h \<Rightarrow> u64 \<times> 'h"
type_synonym 'h free_fun = "u64 \<Rightarrow> 'h \<Rightarrow> 'h"

record 'h base =
  disabled :: int
  alloc_x :: u64
  atexit_installed :: bool
  base_heap :: 'h
  base_mem :: memory

definition alloc_random :: "'h base \<Rightarrow> u32 \<times> 'h base" where
  "alloc_random s =
     (let x = alloc_x s * 6364136223846793005 + 1 in (ucast (drop_bit 32 x), s\<lparr>alloc_x := x\<rparr>))"

text \<open>The branch that would reuse a freed block is empty, so the random number has no effect.\<close>

definition base_malloc :: "'h malloc_fun \<Rightarrow> u64 \<Rightarrow> 'h base \<Rightarrow> u64 \<times> 'h base" where
  "base_malloc malloc sz s =
     (if disabled s \<noteq> 0 then let (p, h) = malloc sz (base_heap s) in (p, s\<lparr>base_heap := h\<rparr>)
      else
        let s = s\<lparr>disabled := disabled s + 1\<rparr>;
            s = (if atexit_installed s then s else s\<lparr>atexit_installed := True\<rparr>);
            (r, s) = alloc_random s;
            (ptr, h) = malloc (if sz \<noteq> 0 then sz else 1) (base_heap s);
            s = s\<lparr>base_heap := h\<rparr>
        in (ptr, s\<lparr>disabled := disabled s - 1\<rparr>))"

definition base_free :: "'h free_fun \<Rightarrow> u64 \<Rightarrow> 'h base \<Rightarrow> 'h base" where
  "base_free free ptr s =
     (if disabled s \<noteq> 0 \<or> ptr = 0 then s\<lparr>base_heap := free ptr (base_heap s)\<rparr>
      else let s = s\<lparr>disabled := disabled s + 1\<rparr> in s\<lparr>disabled := disabled s - 1\<rparr>)"

definition base_allocator_disable :: "bool \<Rightarrow> 'h base \<Rightarrow> 'h base" where
  "base_allocator_disable d s = s\<lparr>disabled := if d then 1 else 0\<rparr>"

section \<open>The wrappers\<close>

definition dmalloc :: "'h malloc_fun \<Rightarrow> u64 \<Rightarrow> 'h base \<Rightarrow> u64 \<times> 'h base" where
  "dmalloc malloc sz s = base_malloc malloc sz s"

definition dfree :: "'h free_fun \<Rightarrow> u64 \<Rightarrow> 'h base \<Rightarrow> 'h base" where
  "dfree free ptr s = base_free free ptr s"

definition dcalloc :: "'h malloc_fun \<Rightarrow> u64 \<Rightarrow> u64 \<Rightarrow> 'h base \<Rightarrow> u64 \<times> 'h base" where
  "dcalloc malloc nmemb sz s =
     (let (ptr, s) = dmalloc malloc (nmemb * sz) s in
      if ptr \<noteq> 0 then (ptr, s\<lparr>base_mem := fst (memset (base_mem s) ptr 0 (nmemb * sz))\<rparr>) else (ptr, s))"

record dmalloc_stats =
  nactive :: u64
  active_size :: u64
  ntotal :: u64
  total_size :: u64
  nfail :: u64
  fail_size :: u64
  heap_min :: u64
  heap_max :: u64

text \<open>\<open>memset(stats, 255, sizeof(dmalloc_stats))\<close>.\<close>

definition get_statistics :: dmalloc_stats where
  "get_statistics =
     \<lparr>nactive = - 1, active_size = - 1, ntotal = - 1, total_size = - 1, nfail = - 1, fail_size = - 1,
      heap_min = - 1, heap_max = - 1\<rparr>"

definition print_statistics :: "(string \<times> u64 \<times> u64 \<times> u64) list" where
  "print_statistics =
     (let stats = get_statistics in
      [(''alloc count'', nactive stats, ntotal stats, nfail stats),
       (''alloc size'', active_size stats, total_size stats, fail_size stats)])"

section \<open>The arena\<close>

record Arena =
  buff :: u64
  arena_size :: u64
  arena_offset :: u64

datatype arena_error = Exit_1 | Null_Write

text \<open>\<open>arena_init\<close> asks for \<open>NULL\<close> bytes, and sets neither the size nor the offset.\<close>

definition arena_init :: "'h malloc_fun \<Rightarrow> u64 \<Rightarrow> Arena \<times> 'h \<Rightarrow> arena_error + Arena \<times> 'h" where
  "arena_init malloc buffer_size s =
     (case s of (a, h) \<Rightarrow> let (p, h) = malloc 0 h in if p = 0 then Inl Exit_1 else Inr (a\<lparr>buff := p\<rparr>, h))"

definition arena_aligned :: "u64 \<Rightarrow> u64" where
  "arena_aligned bytes = (bytes + 31) AND NOT 31"

definition arena_alloc :: "u64 \<Rightarrow> Arena \<Rightarrow> arena_error + u64 \<times> Arena" where
  "arena_alloc bytes a =
     (if arena_size a < arena_offset a + arena_aligned bytes then Inl Exit_1 else Inr (0, a))"

definition arena_reset :: "Arena \<Rightarrow> Arena" where "arena_reset a = a"

definition arena_free :: "Arena \<Rightarrow> Arena" where "arena_free a = a"

text \<open>\<open>use_our_arena\<close> of \<open>main.c\<close>: ten numbers and a string in memory from the arena.\<close>

definition use_our_arena :: "Arena \<Rightarrow> memory \<Rightarrow> arena_error + (Arena \<times> memory)" where
  "use_our_arena a m =
     bindR (arena_alloc (10 * 4) a) (\<lambda>(myint, a).
       if myint = 0 then Inl Null_Write
       else
         let m = fold (\<lambda>i m. m(myint + 4 * of_nat i := of_nat i, myint + 4 * of_nat i + 1 := 0,
                       myint + 4 * of_nat i + 2 := 0, myint + 4 * of_nat i + 3 := 0)) [0..<10] m in
         bindR (arena_alloc (11 + 1) a) (\<lambda>(msg, a).
           if msg = 0 then Inl Null_Write
           else
             let m = fold (\<lambda>i m. m(msg + of_nat i := of_nat (of_char (''hello world'' ! i)))) [0..<11] m in
             Inr (a, m(msg + 11 := 0))))"

definition arena_main :: "'h malloc_fun \<Rightarrow> Arena \<Rightarrow> 'h \<Rightarrow> memory \<Rightarrow> arena_error + int" where
  "arena_main malloc a h m =
     bindR (arena_init malloc 1024 (a, h)) (\<lambda>(a, h).
     bindR (use_our_arena a m) (\<lambda>(a, m).
     bindR (use_our_arena (arena_reset a) m) (\<lambda>(a, m). let a = arena_free a in Inr 0)))"

section \<open>Properties\<close>

text \<open>The allocator is enabled again after a call, and calls nothing but \<open>malloc\<close>.\<close>

lemma base_malloc_result:
  "base_malloc malloc sz s = (p, s') \<Longrightarrow>
     disabled s' = disabled s \<and> base_mem s' = base_mem s
     \<and> (p, base_heap s') = malloc (if sz \<noteq> 0 \<or> disabled s \<noteq> 0 then sz else 1) (base_heap s)"
  by (auto simp: base_malloc_def alloc_random_def Let_def split: if_splits prod.splits)

text \<open>While it is enabled, \<open>base_free\<close> frees nothing.\<close>

lemma base_free_leaks: "disabled s = 0 \<Longrightarrow> ptr \<noteq> 0 \<Longrightarrow> base_free free ptr s = s"
  by (simp add: base_free_def)

text \<open>
  \<open>dcalloc\<close> clears the block that it asked for. The size is computed without a check: when the
  product does not fit, the block is smaller than the array.
\<close>

lemma dcalloc_clears:
  assumes "dcalloc malloc nmemb sz s = (p, s')" "p \<noteq> 0"
  shows "base_mem s' a = (if in_range p (unat (nmemb * sz)) a then 0 else base_mem s a)"
proof -
  obtain s1 where s1: "base_malloc malloc (nmemb * sz) s = (p, s1)" "s' = s1\<lparr>base_mem := fst (memset (base_mem s1) p 0 (nmemb * sz))\<rparr>"
    using assms by (auto simp: dcalloc_def dmalloc_def Let_def split: prod.splits if_splits)
  then show ?thesis using base_malloc_result [OF s1(1)] by (simp add: memset_def memset_loop_eq less_imp_le)
qed

lemma dcalloc_overflow:
  "fst (dcalloc malloc 0x8000000000000000 2 s) = fst (malloc (if disabled s \<noteq> 0 then 0 else 1) (base_heap s))"
proof -
  have "(0x8000000000000000 * 2 :: u64) = 0" by code_simp
  then show ?thesis
    unfolding dcalloc_def dmalloc_def
    by (simp only:) (auto simp: base_malloc_def alloc_random_def Let_def split: prod.splits)
qed

text \<open>The arena rounds up to 32 bytes; it never gives out memory.\<close>

lemma arena_aligned_value:
  assumes "unat bytes + 31 < 18446744073709551616"
  shows "unat (arena_aligned bytes) = 32 * ((unat bytes + 31) div 32)"
  using unat_clear_low_bits [of "bytes + 31" 5] assms
  by (simp add: arena_aligned_def mask_numeral unat_add_u64 minus_mod_eq_mult_div)

lemma arena_alloc_null: "arena_alloc bytes a = Inr (p, a') \<Longrightarrow> p = 0 \<and> a' = a"
  by (simp add: arena_alloc_def split: if_splits)

lemma arena_main_fails: "\<exists>e. arena_main malloc a h m = Inl e"
  by (auto simp: arena_main_def use_our_arena_def arena_alloc_def arena_init_def bindR_def split: sum.splits prod.splits)

end
