(* ===== verification/Nograb.thy ===== *)
theory Nograb
  imports CLib
begin

text \<open>
  The library that keeps QEMU from grabbing the mouse (\<open>build/qemu-nograb.c\<close>): it replaces \<open>malloc\<close>
  and \<open>calloc\<close> of the emulator, recognises the allocation of the mouse device by two sizes in a row,
  and later sets one flag in it. The allocators that it calls are parameters, with a heap of their
  own; memory is that of the emulator.
\<close>

section \<open>The code\<close>

record nograb =
  test_mode :: int
  test_event :: u64
  test_name :: u64
  next_found :: bool
  ng_mem :: memory

definition mouse_string :: "u8 list" where
  "mouse_string = map (\<lambda>c. of_nat (of_char c)) ''QEMU PS/2 Mouse'' @ [0]"

text \<open>The layout of \<open>fake_qemu_put_mouse_event\<close>: 56 bytes, the flag at 16 and the name at 24.\<close>

abbreviation SIZEOF_EVENT :: u64 where "SIZEOF_EVENT \<equiv> 56"
abbreviation SIZEOF_NAME :: u64 where "SIZEOF_NAME \<equiv> 16"

definition event_absolute :: "memory \<Rightarrow> u64 \<Rightarrow> u32" where
  "event_absolute m e = ucast (read64 m (e + 16))"

definition set_absolute :: "u64 \<Rightarrow> memory \<Rightarrow> memory" where
  "set_absolute e m = m(e + 16 := 1, e + 17 := 0, e + 18 := 0, e + 19 := 0)"

definition event_name :: "memory \<Rightarrow> u64 \<Rightarrow> u64" where
  "event_name m e = read64 m (e + 24)"

definition nograb_check :: "nograb \<Rightarrow> nograb" where
  "nograb_check s =
     (if test_mode s = 2 \<and> test_event s \<noteq> 0 \<and> event_name (ng_mem s) (test_event s) = test_name s
         \<and> map (\<lambda>i. ng_mem s (test_name s + of_nat i)) [0..<16] = mouse_string
         \<and> event_absolute (ng_mem s) (test_event s) = 0
      then s\<lparr>ng_mem := set_absolute (test_event s) (ng_mem s), test_mode := - 1\<rparr>
      else s)"

definition track :: "u64 \<Rightarrow> u64 \<Rightarrow> u64 \<Rightarrow> nograb \<Rightarrow> nograb" where
  "track nmemb sz ptr s =
     (if test_mode s = 1 \<and> sz = SIZEOF_NAME \<and> nmemb = 1 then s\<lparr>test_name := ptr, test_mode := 2\<rparr>
      else if sz = SIZEOF_EVENT \<and> nmemb = 1 then s\<lparr>test_event := ptr, test_mode := 1\<rparr>
      else s\<lparr>test_mode := 0\<rparr>)"

definition nograb_malloc :: "(u64 \<Rightarrow> 'h \<Rightarrow> u64 \<times> 'h) \<Rightarrow> u64 \<Rightarrow> nograb \<times> 'h \<Rightarrow> u64 \<times> nograb \<times> 'h" where
  "nograb_malloc next_malloc sz sh =
     (case sh of (s, h) \<Rightarrow>
      let s = (if next_found s then s else s\<lparr>next_found := True\<rparr>);
          s = (if test_mode s = 2 then nograb_check s else s);
          (ptr, h) = next_malloc sz h;
          s = (if test_mode s \<ge> 0 then track 1 sz ptr s else s)
      in (ptr, s, h))"

text \<open>Before the first \<open>malloc\<close> the original \<open>calloc\<close> is called by another name.\<close>

definition nograb_calloc ::
  "(u64 \<Rightarrow> u64 \<Rightarrow> 'h \<Rightarrow> u64 \<times> 'h) \<Rightarrow> (u64 \<Rightarrow> u64 \<Rightarrow> 'h \<Rightarrow> u64 \<times> 'h) \<Rightarrow> u64 \<Rightarrow> u64 \<Rightarrow> nograb \<times> 'h \<Rightarrow> u64 \<times> nograb \<times> 'h" where
  "nograb_calloc libc_calloc next_calloc nmemb sz sh =
     (case sh of (s, h) \<Rightarrow>
      if \<not> next_found s then let (ptr, h) = libc_calloc nmemb sz h in (ptr, s, h)
      else
        let s = (if test_mode s = 2 then nograb_check s else s);
            (ptr, h) = next_calloc nmemb sz h;
            s = (if test_mode s \<ge> 0 then track 1 sz ptr s else s)
        in (ptr, s, h))"

section \<open>Properties\<close>

text \<open>
  The wrappers are transparent: they return what the next allocator returns, and leave its heap. In
  memory they change at most the flag of an event whose name is the mouse's; once they did, they
  never touch anything again.
\<close>

definition only_flag :: "nograb \<Rightarrow> nograb \<Rightarrow> bool" where
  "only_flag s s' \<longleftrightarrow>
     ng_mem s' = ng_mem s
     \<or> test_mode s' = - 1 \<and> event_absolute (ng_mem s) (test_event s) = 0
         \<and> ng_mem s' = set_absolute (test_event s) (ng_mem s)"

lemma nograb_malloc_transparent:
  assumes "nograb_malloc next_malloc sz (s, h) = (ptr, s', h')"
  shows "(ptr, h') = next_malloc sz h \<and> only_flag s s' \<and> (test_mode s = - 1 \<longrightarrow> test_mode s' = - 1 \<and> ng_mem s' = ng_mem s)"
  using assms
  by (auto simp: nograb_malloc_def nograb_check_def track_def only_flag_def Let_def split: if_splits prod.splits)

lemma nograb_calloc_transparent:
  assumes "nograb_calloc libc_calloc next_calloc nmemb sz (s, h) = (ptr, s', h')"
  shows "(ptr, h') = (if next_found s then next_calloc else libc_calloc) nmemb sz h \<and> only_flag s s'
    \<and> (test_mode s = - 1 \<longrightarrow> test_mode s' = - 1 \<and> ng_mem s' = ng_mem s)"
  using assms
  by (auto simp: nograb_calloc_def nograb_check_def track_def only_flag_def Let_def split: if_splits prod.splits)

end
