(* ===== verification/Words.thy ===== *)
theory Words
  imports Libc
begin

text \<open>
  The line filters of assignment a1 and lab 2 as they stand. \<open>makewords\<close> and \<open>linebreaker\<close> copy each
  line of the input to a block from \<open>malloc\<close>; the others echo their input or read a file. A block is the list of its bytes (\<open>None\<close>: not yet
  written); a store behind its end is an error.
\<close>

datatype words_error = Heap_Overflow | Out_Of_Memory | Indeterminate_Stream

definition store_byte :: "nat \<Rightarrow> char \<Rightarrow> char option list \<Rightarrow> words_error + char option list" where
  "store_byte i c b = (if i < length b then Inr (b[i := Some c]) else Inl Heap_Overflow)"

text \<open>\<open>strcpy\<close> of a string to a block, terminator included.\<close>

fun store_string :: "nat \<Rightarrow> string \<Rightarrow> char option list \<Rightarrow> words_error + char option list" where
  "store_string i [] b = store_byte i CHR 0x00 b"
| "store_string i (c # s) b = bindR (store_byte i c b) (store_string (Suc i) s)"

definition makewords :: "bool \<Rightarrow> string \<Rightarrow> words_error + char option list" where
  "makewords malloc_ok input =
     (let maxLen = length input + 1 in
      if \<not> malloc_ok then Inl Out_Of_Memory
      else bindR (store_string 0 input (replicate maxLen None)) (store_byte maxLen CHR 0x00))"

definition linebreaker :: "bool \<Rightarrow> string \<Rightarrow> string \<times> (words_error + char option list)" where
  "linebreaker malloc_ok input =
     (let maxLen = length input + 1 in
      if \<not> malloc_ok then ([], Inl Out_Of_Memory)
      else ([CHR 0x0A], bindR (store_string 0 input (replicate maxLen None)) (store_byte maxLen CHR 0x00)))"

text \<open>The string that a block holds, up to its terminator.\<close>

definition block_string :: "char option list \<Rightarrow> string" where
  "block_string b = map the (takeWhile (\<lambda>c. c \<noteq> Some CHR 0x00) b)"

text \<open>A call of \<open>fgets\<close> that is not at the end of the input makes progress.\<close>

lemma fgets_1023_shorter: "s \<noteq> [] \<Longrightarrow> fgets_chars 1023 s = (line, rest) \<Longrightarrow> length rest < length s"
  using fgets_chars_progress [of 1022] by (cases s) (simp_all add: numeral_eq_Suc)

text \<open>The main loops: the output so far, and how it ended.\<close>

function makewords_main :: "(nat \<Rightarrow> bool) \<Rightarrow> nat \<Rightarrow> string \<Rightarrow> string \<times> words_error option" where
  "makewords_main malloc_ok n stdin =
     (if stdin = [] then ([], None)
      else
        let (line, rest) = fgets_chars 1023 stdin in
        case makewords (malloc_ok n) (c_string line) of
          Inl e \<Rightarrow> ([], Some e)
        | Inr b \<Rightarrow> (let (out, r) = makewords_main malloc_ok (n + 1) rest in (block_string b @ out, r)))"
  by pat_completeness auto
termination
proof (relation "measure (\<lambda>(ok, n, stdin). length stdin)")
  fix stdin line rest :: string and p :: "string \<times> string" and malloc_ok :: "nat \<Rightarrow> bool" and n b
  assume "stdin \<noteq> []" "p = fgets_chars 1023 stdin" "(line, rest) = p"
  then show "((malloc_ok, n + 1, rest), malloc_ok, n, stdin) \<in> measure (\<lambda>(ok, n, stdin). length stdin)"
    using fgets_1023_shorter [of stdin line rest] by simp
qed simp

declare makewords_main.simps [simp del]

function linebreaker_main :: "(nat \<Rightarrow> bool) \<Rightarrow> nat \<Rightarrow> string \<Rightarrow> string \<times> words_error option" where
  "linebreaker_main malloc_ok n stdin =
     (if stdin = [] then ([], None)
      else
        let (line, rest) = fgets_chars 1023 stdin in
        case linebreaker (malloc_ok n) (c_string line) of
          (out, Inl e) \<Rightarrow> (out, Some e)
        | (out, Inr b) \<Rightarrow>
            (let (out', r) = linebreaker_main malloc_ok (n + 1) rest in (out @ block_string b @ out', r)))"
  by pat_completeness auto
termination
proof (relation "measure (\<lambda>(ok, n, stdin). length stdin)")
  fix stdin line rest :: string and p :: "string \<times> string" and malloc_ok :: "nat \<Rightarrow> bool" and n a out b
  assume "stdin \<noteq> []" "p = fgets_chars 1023 stdin" "(line, rest) = p"
  then show "((malloc_ok, n + 1, rest), malloc_ok, n, stdin) \<in> measure (\<lambda>(ok, n, stdin). length stdin)"
    using fgets_1023_shorter [of stdin line rest] by simp
qed simp

declare linebreaker_main.simps [simp del]

lemma store_string_fits:
  "i + length s < length b \<Longrightarrow> \<exists>b'. store_string i s b = Inr b' \<and> length b' = length b"
proof (induction s arbitrary: i b)
  case (Cons c s)
  then show ?case using Cons.IH [of "Suc i" "b[i := Some c]"] by (simp add: store_byte_def bindR_def)
qed (simp add: store_byte_def)

text \<open>The last store, which is meant to terminate the string, is one byte behind the block.\<close>

lemma makewords_overflows: "makewords malloc_ok input = Inl (if malloc_ok then Heap_Overflow else Out_Of_Memory)"
proof -
  obtain b where "store_string 0 input (replicate (length input + 1) None) = Inr b" "length b = length input + 1"
    using store_string_fits [of 0 input "replicate (length input + 1) None"] by auto
  then show ?thesis by (simp add: makewords_def Let_def bindR_def store_byte_def)
qed

lemma linebreaker_overflows: "snd (linebreaker True input) = Inl Heap_Overflow"
  using makewords_overflows [of True input] by (simp add: linebreaker_def makewords_def Let_def)

lemma linebreaker_main_fails:
  assumes "stdin \<noteq> []" "malloc_ok n"
  shows "linebreaker_main malloc_ok n stdin = ([CHR 0x0A], Some Heap_Overflow)"
proof -
  have "linebreaker True input = ([CHR 0x0A], Inl Heap_Overflow)" for input
    using linebreaker_overflows [of input] by (simp add: linebreaker_def Let_def)
  with assms show ?thesis by (subst linebreaker_main.simps) (simp split: prod.split)
qed

lemma makewords_main_fails: "stdin \<noteq> [] \<Longrightarrow> \<exists>e. makewords_main malloc_ok n stdin = ([], Some e)"
  by (subst makewords_main.simps) (simp add: makewords_overflows split: prod.split)

section \<open>The filters that are still to be written\<close>

text \<open>
  \<open>fsrecursive\<close>, \<open>lowercase\<close>, \<open>mismatch\<close>, \<open>sort\<close> and \<open>unique\<close> have the same main loop: lines (or
  pieces of 1023 characters) go from \<open>fgets\<close> to \<open>fputs\<close>.
\<close>

function echo_lines :: "string \<Rightarrow> string" where
  "echo_lines stdin =
     (if stdin = [] then []
      else let (line, rest) = fgets_chars 1023 stdin in c_string line @ echo_lines rest)"
  by pat_completeness auto
termination
proof (relation "measure length")
  fix stdin line rest :: string and p :: "string \<times> string"
  assume "stdin \<noteq> []" "p = fgets_chars 1023 stdin" "(line, rest) = p"
  then show "(rest, stdin) \<in> measure length"
    using fgets_1023_shorter [of stdin line rest] by simp
qed simp

declare echo_lines.simps [simp del]

definition fsrecursive_main :: "string \<Rightarrow> string" where
  "fsrecursive_main stdin = echo_lines stdin"

definition lowercase_main :: "string \<Rightarrow> string" where
  "lowercase_main stdin = echo_lines stdin"

definition mismatch_main :: "string \<Rightarrow> string" where
  "mismatch_main stdin = echo_lines stdin"

definition sort_main :: "string \<Rightarrow> string" where
  "sort_main stdin = echo_lines stdin"

definition unique_main :: "string \<Rightarrow> string" where
  "unique_main stdin = echo_lines stdin"

text \<open>The pieces that successive calls of \<open>fgets\<close> return make up the input.\<close>

function pieces :: "string \<Rightarrow> string list" where
  "pieces s = (if s = [] then [] else let (line, rest) = fgets_chars 1023 s in line # pieces rest)"
  by pat_completeness auto
termination
proof (relation "measure length")
  fix s line rest :: string and p :: "string \<times> string"
  assume "s \<noteq> []" "p = fgets_chars 1023 s" "(line, rest) = p"
  then show "(rest, s) \<in> measure length"
    using fgets_1023_shorter [of s line rest] by simp
qed simp

declare pieces.simps [simp del]

lemma concat_pieces: "concat (pieces s) = s"
proof (induction s rule: pieces.induct)
  case (1 s)
  obtain line rest where f: "fgets_chars 1023 s = (line, rest)" by fastforce
  have "concat (pieces s) = (if s = [] then [] else line @ concat (pieces rest))"
    by (simp add: pieces.simps [of s] f)
  also have "\<dots> = s" using 1 f fgets_chars_split [OF f] by simp
  finally show ?case .
qed

lemma echo_lines_pieces: "echo_lines s = concat (map c_string (pieces s))"
proof (induction s rule: pieces.induct)
  case (1 s)
  obtain line rest where "fgets_chars 1023 s = (line, rest)" by fastforce
  with 1 show ?case by (simp add: pieces.simps [of s] echo_lines.simps [of s])
qed

text \<open>A text without zero bytes passes unchanged, whatever the filter is called.\<close>

lemma echo_lines_text:
  assumes "CHR 0x00 \<notin> set s"
  shows "echo_lines s = s"
proof -
  have "c_string l = l" if "l \<in> set (pieces s)" for l
  proof -
    have "set l \<subseteq> set (concat (pieces s))" using that by auto
    then show ?thesis using assms by (auto simp: c_string_def concat_pieces takeWhile_eq_all_conv)
  qed
  then have "map c_string (pieces s) = pieces s" by (simp add: map_idI)
  then show ?thesis by (simp add: echo_lines_pieces concat_pieces)
qed

section \<open>Reading a file\<close>

text \<open>
  \<open>openFile\<close> of the library \<open>fio\<close>, which both copies have: the stream, if the file can be opened,
  and what \<open>perror\<close> reports otherwise.
\<close>

definition openFile :: "(string \<Rightarrow> string option) \<Rightarrow> string \<Rightarrow> string option \<times> string option" where
  "openFile files filename =
     (case files filename of Some s \<Rightarrow> (Some s, None) | None \<Rightarrow> (None, Some ''Error opening file''))"

text \<open>
  \<open>sentence\<close> and \<open>readfile\<close> read from a stream pointer that nothing has set (\<open>None\<close>); the lines that
  they read are dropped.
\<close>

definition drop_lines :: "string option \<Rightarrow> words_error + int" where
  "drop_lines file = (case file of None \<Rightarrow> Inl Indeterminate_Stream | Some content \<Rightarrow> Inr 0)"

definition sentence_main :: "words_error + int" where
  "sentence_main = drop_lines None"

definition readfile_main :: "words_error + int" where
  "readfile_main = drop_lines None"

end
