(* ===== verification/CppInk.thy ===== *)
theory CppInk
  imports Libc Transition "HOL-Library.Signed_Division"
begin

text \<open>
  The C++ front end of inklings (\<open>assignments/a4/a4_cpp/stencil_old\<close>): the global state of
  \<open>main.cpp\<close>, its ink tanks and sleep times, the drawing functions, the keyboard and the event loop
  of \<open>ascii_art.cpp\<close>, and \<open>main\<close>. An operation that can end the process, overflow an \<open>int\<close> or
  touch the grid before it exists returns a sum. What is written to \<open>std::cout\<close> is appended to a
  field of the state. The bodies that the stencil leaves empty (the thread functions of inklings
  and producers) are called by nothing.

  The functions are modelled twice where it matters: run by one thread, as functions of the state
  (\<open>myKeyboard\<close>, \<open>cleanupAndQuit\<close>), and as the single accesses to the shared variables that the
  threads of the event loop interleave (\<open>key_step\<close>, \<open>cleanup_step\<close>), since no lock protects them.
\<close>

section \<open>Data\<close>

datatype TravelDirection = NORTH | WEST | SOUTH | EAST | NUM_TRAVEL_DIRECTIONS

fun direction_value :: "TravelDirection \<Rightarrow> int" where
  "direction_value NORTH = 0"
| "direction_value WEST = 1"
| "direction_value SOUTH = 2"
| "direction_value EAST = 3"
| "direction_value NUM_TRAVEL_DIRECTIONS = 4"

text \<open>The icons are the UTF-8 bytes of the four arrows.\<close>

fun iconDirections :: "TravelDirection \<Rightarrow> string" where
  "iconDirections NORTH = [CHR 0xE2, CHR 0x86, CHR 0x91]"
| "iconDirections WEST = [CHR 0xE2, CHR 0x86, CHR 0x90]"
| "iconDirections SOUTH = [CHR 0xE2, CHR 0x86, CHR 0x93]"
| "iconDirections EAST = [CHR 0xE2, CHR 0x86, CHR 0x92]"
| "iconDirections NUM_TRAVEL_DIRECTIONS = '' ''"

datatype TextColor = DEFAULT | BLACK | RED | GREEN | YELLOW | BLUE | MAGENTA | CYAN | WHITE

fun color_value :: "TextColor \<Rightarrow> int" where
  "color_value DEFAULT = 39"
| "color_value BLACK = 30"
| "color_value RED = 31"
| "color_value GREEN = 32"
| "color_value YELLOW = 33"
| "color_value BLUE = 34"
| "color_value MAGENTA = 35"
| "color_value CYAN = 36"
| "color_value WHITE = 37"

datatype InklingType = RED_TRAV | GREEN_TRAV | BLUE_TRAV | NUM_TRAV_TYPES

record InklingInfo =
  type :: InklingType
  row :: int
  col :: int
  dir :: TravelDirection
  isLive :: bool

text \<open>
  The pointer \<open>grid\<close> and what it points to: null, an array of rows of which some may have been freed
  (\<open>None\<close>), or an array that has been freed itself.
\<close>

datatype grid_memory = Null | Freed | Rows "int list option list"

text \<open>
  The globals of \<open>main.cpp\<close> and \<open>ascii_art.cpp\<close>. Left out are the ones
  that no code reads: \<open>REFILL_INK\<close>, \<open>DRAW_COLORED_TRAVELER_HEADS\<close> and the locks of the colours. The
  field \<open>c_lflag\<close> is the mode of the terminal, \<open>cout\<close> what was printed.
\<close>

record cpp_app =
  grid :: grid_memory
  NUM_ROWS :: int
  NUM_COLS :: int
  MAX_NUM_TRAVELER_THREADS :: int
  numLiveThreads :: int
  info :: "InklingInfo list"
  MAX_LEVEL :: int
  MAX_ADD_INK :: int
  redLevel :: int
  greenLevel :: int
  blueLevel :: int
  producerSleepTime :: int
  inklingSleepTime :: int
  numPipesOpen :: u32
  pipe_fd :: int
  recursiveDepth :: int
  c_lflag :: u32
  cout :: string

definition MIN_SLEEP_TIME :: int where
  "MIN_SLEEP_TIME = 30000"

definition initial_app :: "u32 \<Rightarrow> cpp_app" where
  "initial_app lflag =
     \<lparr>grid = Null, NUM_ROWS = 0, NUM_COLS = 0, MAX_NUM_TRAVELER_THREADS = 0, numLiveThreads = 0, info = [],
      MAX_LEVEL = 50, MAX_ADD_INK = 10, redLevel = 20, greenLevel = 10, blueLevel = 40,
      producerSleepTime = 100000, inklingSleepTime = 1000000,
      numPipesOpen = 0, pipe_fd = 0, recursiveDepth = 0, c_lflag = lflag, cout = []\<rparr>"

text \<open>How the process ends: by \<open>exit(0)\<close>, or with undefined behaviour.\<close>

datatype cpp_stop =
  Quit cpp_app | Signed_Overflow | Null_Grid | Out_Of_Bounds | Use_After_Free | Double_Free

text \<open>The value of an \<open>int\<close> expression.\<close>

definition int_res :: "int \<Rightarrow> cpp_stop + int" where
  "int_res n = (if int_ok n then Inr n else Inl Signed_Overflow)"

section \<open>Ink tanks and sleep times\<close>

definition acquire :: "int \<Rightarrow> int \<Rightarrow> cpp_stop + bool \<times> int" where
  "acquire level amount =
     (if level \<ge> amount then bindR (int_res (level - amount)) (\<lambda>l. Inr (True, l)) else Inr (False, level))"

definition refill :: "int \<Rightarrow> int \<Rightarrow> int \<Rightarrow> cpp_stop + bool \<times> int" where
  "refill max_level level amount =
     bindR (int_res (level + amount)) (\<lambda>l. if l \<le> max_level then Inr (True, l) else Inr (False, level))"

definition acquireRedInk :: "int \<Rightarrow> cpp_app \<Rightarrow> cpp_stop + bool \<times> cpp_app" where
  "acquireRedInk theRed a = bindR (acquire (redLevel a) theRed) (\<lambda>(ok, l). Inr (ok, a\<lparr>redLevel := l\<rparr>))"

definition acquireGreenInk :: "int \<Rightarrow> cpp_app \<Rightarrow> cpp_stop + bool \<times> cpp_app" where
  "acquireGreenInk theGreen a = bindR (acquire (greenLevel a) theGreen) (\<lambda>(ok, l). Inr (ok, a\<lparr>greenLevel := l\<rparr>))"

definition acquireBlueInk :: "int \<Rightarrow> cpp_app \<Rightarrow> cpp_stop + bool \<times> cpp_app" where
  "acquireBlueInk theBlue a = bindR (acquire (blueLevel a) theBlue) (\<lambda>(ok, l). Inr (ok, a\<lparr>blueLevel := l\<rparr>))"

definition refillRedInk :: "int \<Rightarrow> cpp_app \<Rightarrow> cpp_stop + bool \<times> cpp_app" where
  "refillRedInk theRed a =
     bindR (refill (MAX_LEVEL a) (redLevel a) theRed) (\<lambda>(ok, l). Inr (ok, a\<lparr>redLevel := l\<rparr>))"

definition refillGreenInk :: "int \<Rightarrow> cpp_app \<Rightarrow> cpp_stop + bool \<times> cpp_app" where
  "refillGreenInk theGreen a =
     bindR (refill (MAX_LEVEL a) (greenLevel a) theGreen) (\<lambda>(ok, l). Inr (ok, a\<lparr>greenLevel := l\<rparr>))"

definition refillBlueInk :: "int \<Rightarrow> cpp_app \<Rightarrow> cpp_stop + bool \<times> cpp_app" where
  "refillBlueInk theBlue a =
     bindR (refill (MAX_LEVEL a) (blueLevel a) theBlue) (\<lambda>(ok, l). Inr (ok, a\<lparr>blueLevel := l\<rparr>))"

definition speedupProducers :: "cpp_app \<Rightarrow> cpp_stop + cpp_app" where
  "speedupProducers a =
     bindR (int_res (8 * producerSleepTime a)) (\<lambda>n.
       let newSleepTime = n sdiv 10 in
       if newSleepTime > MIN_SLEEP_TIME then Inr (a\<lparr>producerSleepTime := newSleepTime\<rparr>) else Inr a)"

definition slowdownProducers :: "cpp_app \<Rightarrow> cpp_stop + cpp_app" where
  "slowdownProducers a =
     bindR (int_res (12 * producerSleepTime a)) (\<lambda>n. Inr (a\<lparr>producerSleepTime := n sdiv 10\<rparr>))"

section \<open>Terminal output\<close>

text \<open>The arguments of the variadic templates \<open>print\<close> and \<open>printCell\<close>.\<close>

datatype cout_arg = Color TextColor | Text string | Number int

definition setTextColor :: "TextColor \<Rightarrow> string" where
  "setTextColor color = CHR 0x1B # ''['' @ show_int (color_value color) @ ''m''"

definition resetTextColor :: string where
  "resetTextColor = setTextColor DEFAULT"

fun print_args :: "cout_arg list \<Rightarrow> string" where
  "print_args [] = resetTextColor @ [CHR 0x0A]"
| "print_args (Color c # rest) = setTextColor c @ print_args rest"
| "print_args (Text s # rest) = s @ print_args rest"
| "print_args (Number n # rest) = show_int n @ print_args rest"

fun printCell :: "cout_arg list \<Rightarrow> string" where
  "printCell [] = resetTextColor"
| "printCell (Color c # rest) = setTextColor c @ printCell rest"
| "printCell (Text s # rest) = s @ printCell rest"
| "printCell (Number n # rest) = show_int n @ printCell rest"

definition clearTerminal :: "cpp_app \<Rightarrow> cpp_app" where
  "clearTerminal a = a\<lparr>cout := cout a @ CHR 0x1B # ''[H'' @ CHR 0x1B # ''[J''\<rparr>"

text \<open>The loop over the inklings for one cell: what it prints, and whether it found one.\<close>

definition inklingCell :: "InklingInfo \<Rightarrow> string \<times> bool" where
  "inklingCell inkling =
     (case type inkling of
        RED_TRAV \<Rightarrow> (printCell [Color RED, Text ''['', Text (iconDirections (dir inkling)), Text '']''], True)
      | GREEN_TRAV \<Rightarrow> (printCell [Color GREEN, Text ''['', Text (iconDirections (dir inkling)), Text '']''], True)
      | BLUE_TRAV \<Rightarrow> (printCell [Color BLUE, Text ''['', Text (iconDirections (dir inkling)), Text '']''], True)
      | NUM_TRAV_TYPES \<Rightarrow> ([], False))"

fun inklings_at :: "int \<Rightarrow> int \<Rightarrow> InklingInfo list \<Rightarrow> bool \<Rightarrow> string \<times> bool" where
  "inklings_at r c [] inklingFound = ([], inklingFound)"
| "inklings_at r c (inkling # rest) inklingFound =
     (let (s, found) =
            (if isLive inkling \<and> r = row inkling \<and> c = col inkling then inklingCell inkling else ([], False));
          (s', found') = inklings_at r c rest (inklingFound \<or> found)
      in (s @ s', found'))"

definition drawCell :: "InklingInfo list \<Rightarrow> int \<Rightarrow> int \<Rightarrow> string" where
  "drawCell inklingList r c =
     (let (s, inklingFound) = inklings_at r c inklingList False in
      if \<not> inklingFound then s @ printCell [Color BLACK, Text ''[ ]''] else s)"

definition drawRow :: "int \<Rightarrow> InklingInfo list \<Rightarrow> int \<Rightarrow> string" where
  "drawRow numCols inklingList r =
     concat (map (\<lambda>c. drawCell inklingList r (int c)) [0..<nat numCols]) @ [CHR 0x0A]"

definition drawGridAndInklingsASCII :: "int \<Rightarrow> int \<Rightarrow> InklingInfo list \<Rightarrow> cpp_app \<Rightarrow> cpp_app" where
  "drawGridAndInklingsASCII numRows numCols inklingList a =
     a\<lparr>cout := cout a @ concat (map (\<lambda>r. drawRow numCols inklingList (int r)) [0..<nat numRows])\<rparr>"

definition fillTank :: "int \<Rightarrow> int \<Rightarrow> cpp_app \<Rightarrow> cpp_app" where
  "fillTank y LEVEL_WIDTH a = a\<lparr>cout := cout a @ print_args [Text ''fillTank'', Number y, Number LEVEL_WIDTH]\<rparr>"

text \<open>
  \<open>delete []grid[i]\<close> reads the pointer array and frees a row; \<open>delete []grid\<close> frees the array, and does
  nothing with a null pointer. The global pointer keeps its value.
\<close>

definition delete_row :: "int \<Rightarrow> cpp_app \<Rightarrow> cpp_stop + cpp_app" where
  "delete_row i a =
     (case grid a of
        Null \<Rightarrow> Inl Null_Grid
      | Freed \<Rightarrow> Inl Use_After_Free
      | Rows rs \<Rightarrow>
          if i < 0 \<or> int (length rs) \<le> i then Inl Out_Of_Bounds
          else if rs ! nat i = None then Inl Double_Free
          else Inr (a\<lparr>grid := Rows (rs[nat i := None])\<rparr>))"

definition delete_grid :: "cpp_app \<Rightarrow> cpp_stop + cpp_app" where
  "delete_grid a =
     (case grid a of Null \<Rightarrow> Inr a | Freed \<Rightarrow> Inl Double_Free | Rows rs \<Rightarrow> Inr (a\<lparr>grid := Freed\<rparr>))"

primrec delete_rows :: "int list \<Rightarrow> cpp_app \<Rightarrow> cpp_stop + cpp_app" where
  "delete_rows [] a = Inr a"
| "delete_rows (i # is) a = bindR (delete_row i a) (delete_rows is)"

definition quit_message :: "string \<Rightarrow> cpp_app \<Rightarrow> cpp_app" where
  "quit_message msg a =
     a\<lparr>cout := cout a @
       ''Somebody called quits, goodbye sweet digital world, this was their message: '' @ CHR 0x0A # msg\<rparr>"

definition cleanupAndQuit :: "string \<Rightarrow> cpp_app \<Rightarrow> cpp_stop + cpp_app" where
  "cleanupAndQuit msg a =
     bindR (delete_rows [0..NUM_ROWS a - 1] (quit_message msg a)) (\<lambda>a.
       bindR (delete_grid a) (\<lambda>a. Inl (Quit a)))"

definition showState :: "int \<Rightarrow> int \<Rightarrow> int \<Rightarrow> int \<Rightarrow> cpp_app \<Rightarrow> cpp_app" where
  "showState live red green blue a =
     a\<lparr>cout := cout a
       @ print_args [Color BLACK, Text ''Ink Tank Levels, the MAX is: '', Number (MAX_LEVEL a)]
       @ print_args [Color RED, Text ''Red: '', Number red, Color GREEN, Text '' Green: '', Number green,
           Color BLUE, Text '' Blue: '', Number blue]
       @ print_args [Text ''Live Threads: '', Number live]
       @ print_args []\<rparr>"

definition no_threads_message :: string where
  "no_threads_message = ''drawState callint it quits, no threads left...''"

definition drawState :: "int \<Rightarrow> int \<Rightarrow> int \<Rightarrow> int \<Rightarrow> cpp_app \<Rightarrow> cpp_stop + cpp_app" where
  "drawState live red green blue a =
     (let a = showState live red green blue a in
      if live = 0 then cleanupAndQuit no_threads_message a else Inr a)"

definition displayGridPane :: "cpp_app \<Rightarrow> cpp_app" where
  "displayGridPane a = drawGridAndInklingsASCII (NUM_ROWS a) (NUM_COLS a) (info a) a"

definition displayStatePane :: "cpp_app \<Rightarrow> cpp_stop + cpp_app" where
  "displayStatePane a = drawState (numLiveThreads a) (redLevel a) (greenLevel a) (blueLevel a) a"

text \<open>The callbacks are the two panes, and neither throws, so the handlers are not reached.\<close>

definition updateTerminal :: "cpp_app \<Rightarrow> cpp_stop + cpp_app" where
  "updateTerminal a = displayStatePane (displayGridPane (clearTerminal a))"

section \<open>Keyboard\<close>

definition ICANON :: u32 where "ICANON = 0x2"

definition ECHO :: u32 where "ECHO = 0x8"

definition enableRawMode :: "cpp_app \<Rightarrow> cpp_app" where
  "enableRawMode a = a\<lparr>c_lflag := c_lflag a AND NOT (ICANON OR ECHO)\<rparr>"

definition disableRawMode :: "cpp_app \<Rightarrow> cpp_app" where
  "disableRawMode a = a\<lparr>c_lflag := c_lflag a OR (ICANON OR ECHO)\<rparr>"

definition esc_message :: string where
  "esc_message = ''I see you pressed ESC, game over...''"

definition myKeyboard :: "char \<Rightarrow> cpp_app \<Rightarrow> cpp_stop + cpp_app" where
  "myKeyboard c a =
     (if c = CHR 0x1B then cleanupAndQuit esc_message a
      else if c = CHR ''<'' then slowdownProducers a
      else if c = CHR ''>'' then speedupProducers a
      else if c = CHR ''r'' then bindR (refillRedInk (MAX_ADD_INK a) a) (\<lambda>(ok, a). Inr a)
      else if c = CHR ''+'' then
        bindR (int_res (inklingSleepTime a - 100000)) (\<lambda>n.
          if n > 0 then Inr (a\<lparr>inklingSleepTime := n\<rparr>) else Inr a)
      else if c = CHR ''-'' then
        bindR (int_res (inklingSleepTime a + 100000)) (\<lambda>n.
          if n < 2147483647 then Inr (a\<lparr>inklingSleepTime := n\<rparr>) else Inr a)
      else if c = CHR ''g'' then bindR (refillGreenInk (MAX_ADD_INK a) a) (\<lambda>(ok, a). Inr a)
      else if c = CHR ''b'' then bindR (refillBlueInk (MAX_ADD_INK a) a) (\<lambda>(ok, a). Inr a)
      else Inr a)"

text \<open>The listener reads one character; at the end of the input \<open>get\<close> returns \<open>EOF\<close>, the byte 0xFF.\<close>

definition keyListener :: "char option \<Rightarrow> cpp_app \<Rightarrow> cpp_stop + cpp_app" where
  "keyListener input a =
     bindR (myKeyboard (case input of Some c \<Rightarrow> c | None \<Rightarrow> CHR 0xFF) (enableRawMode a))
       (\<lambda>a. Inr (disableRawMode a))"

section \<open>The event loop\<close>

text \<open>
  Each run of \<open>myEventLoop\<close> is a thread that passes these points: drawing, the guarded increment of
  \<open>recursiveDepth\<close>, the start of a timer thread that will run \<open>myEventLoop\<close> again, the decrement, and
  (a second later) opening and reading the pipe and handling the key. Only the two sections that hold
  \<open>mtx\<close> are steps as a whole; of everything else that is written, every load and every store of a
  shared variable is a step of its own, and a point carries the values its thread has loaded. The steps
  interleave arbitrarily, which includes every timing of the sleeps; the accesses are sequentially
  consistent, and the system always has room for one more thread. A drawing is one step: it reads the
  tanks but writes only to \<open>std::cout\<close>.
\<close>

datatype ink = Red_Ink | Green_Ink | Blue_Ink

fun tank :: "ink \<Rightarrow> cpp_app \<Rightarrow> int" where
  "tank Red_Ink a = redLevel a"
| "tank Green_Ink a = greenLevel a"
| "tank Blue_Ink a = blueLevel a"

fun set_tank :: "ink \<Rightarrow> int \<Rightarrow> cpp_app \<Rightarrow> cpp_app" where
  "set_tank Red_Ink n a = a\<lparr>redLevel := n\<rparr>"
| "set_tank Green_Ink n a = a\<lparr>greenLevel := n\<rparr>"
| "set_tank Blue_Ink n a = a\<lparr>blueLevel := n\<rparr>"

datatype key_point =
  Press char | Add_Ink ink | Set_Ink ink int | Set_Producer int | Add_Sleep int | Set_Sleep int

datatype cleanup_point = Message string | Delete_Row int | Delete_Grid | Exit

datatype pipe_point = Access | Test_Count | Open | Set_Fd int | Load_Count | Set_Count u32 | Test_Fd | Read

datatype point =
  Draw | Enter | Spawn | Leave | Pipe pipe_point | Keyboard key_point | Quitting cleanup_point | Returned

text \<open>What the system answers: whether the pipe exists, the result of \<open>open\<close>, the byte that is read.\<close>

record pipe_env =
  pipe_exists :: bool
  pipe_open :: int
  pipe_byte :: "char option"

text \<open>The functions that \<open>myKeyboard\<close> calls: the test of a refill, then the load and the store of \<open>+=\<close>.\<close>

definition refill_test :: "ink \<Rightarrow> cpp_app \<Rightarrow> cpp_stop + cpp_app \<times> point" where
  "refill_test k a =
     bindR (int_res (tank k a + MAX_ADD_INK a)) (\<lambda>n.
       Inr (a, if n \<le> MAX_LEVEL a then Keyboard (Add_Ink k) else Returned))"

definition press_step :: "char \<Rightarrow> cpp_app \<Rightarrow> cpp_stop + cpp_app \<times> point" where
  "press_step c a =
     (if c = CHR 0x1B then Inr (a, Quitting (Message esc_message))
      else if c = CHR ''<'' then
        bindR (int_res (12 * producerSleepTime a)) (\<lambda>n. Inr (a, Keyboard (Set_Producer (n sdiv 10))))
      else if c = CHR ''>'' then
        bindR (int_res (8 * producerSleepTime a)) (\<lambda>n.
          let newSleepTime = n sdiv 10 in
          Inr (a, if newSleepTime > MIN_SLEEP_TIME then Keyboard (Set_Producer newSleepTime) else Returned))
      else if c = CHR ''r'' then refill_test Red_Ink a
      else if c = CHR ''+'' then
        bindR (int_res (inklingSleepTime a - 100000)) (\<lambda>n.
          Inr (a, if n > 0 then Keyboard (Add_Sleep (- 100000)) else Returned))
      else if c = CHR ''-'' then
        bindR (int_res (inklingSleepTime a + 100000)) (\<lambda>n.
          Inr (a, if n < 2147483647 then Keyboard (Add_Sleep 100000) else Returned))
      else if c = CHR ''g'' then refill_test Green_Ink a
      else if c = CHR ''b'' then refill_test Blue_Ink a
      else Inr (a, Returned))"

fun key_step :: "key_point \<Rightarrow> cpp_app \<Rightarrow> cpp_stop + cpp_app \<times> point" where
  "key_step (Press c) a = press_step c a"
| "key_step (Add_Ink k) a = bindR (int_res (tank k a + MAX_ADD_INK a)) (\<lambda>n. Inr (a, Keyboard (Set_Ink k n)))"
| "key_step (Set_Ink k n) a = Inr (set_tank k n a, Returned)"
| "key_step (Set_Producer n) a = Inr (a\<lparr>producerSleepTime := n\<rparr>, Returned)"
| "key_step (Add_Sleep d) a = bindR (int_res (inklingSleepTime a + d)) (\<lambda>n. Inr (a, Keyboard (Set_Sleep n)))"
| "key_step (Set_Sleep n) a = Inr (a\<lparr>inklingSleepTime := n\<rparr>, Returned)"

fun cleanup_step :: "cleanup_point \<Rightarrow> cpp_app \<Rightarrow> cpp_stop + cpp_app \<times> point" where
  "cleanup_step (Message msg) a = Inr (quit_message msg a, Quitting (Delete_Row 0))"
| "cleanup_step (Delete_Row i) a =
     (if i < NUM_ROWS a then bindR (delete_row i a) (\<lambda>a. Inr (a, Quitting (Delete_Row (i + 1))))
      else Inr (a, Quitting Delete_Grid))"
| "cleanup_step Delete_Grid a = bindR (delete_grid a) (\<lambda>a. Inr (a, Quitting Exit))"
| "cleanup_step Exit a = Inl (Quit a)"

fun pipe_step :: "pipe_env \<Rightarrow> pipe_point \<Rightarrow> cpp_app \<Rightarrow> cpp_app \<times> point" where
  "pipe_step env Access a = (a, if pipe_exists env then Pipe Test_Count else Returned)"
| "pipe_step env Test_Count a = (a, if numPipesOpen a = 0 then Pipe Open else Pipe Test_Fd)"
| "pipe_step env Open a = (a, Pipe (Set_Fd (pipe_open env)))"
| "pipe_step env (Set_Fd fd) a = (a\<lparr>pipe_fd := fd\<rparr>, Pipe Load_Count)"
| "pipe_step env Load_Count a = (a, Pipe (Set_Count (numPipesOpen a + 1)))"
| "pipe_step env (Set_Count n) a = (a\<lparr>numPipesOpen := n\<rparr>, Pipe Test_Fd)"
| "pipe_step env Test_Fd a = (a, if pipe_fd a > 0 then Pipe Read else Returned)"
| "pipe_step env Read a =
     (a, case pipe_byte env of
           Some command \<Rightarrow> if pipe_fd a \<ge> 0 then Keyboard (Press command) else Returned
         | None \<Rightarrow> Returned)"

text \<open>The threads that \<open>customTimerFunc\<close> starts: one, which sleeps and then runs \<open>func\<close>.\<close>

definition customTimerFunc :: "int \<Rightarrow> point \<Rightarrow> point list" where
  "customTimerFunc milliseconds func = [func]"

text \<open>The drawing of \<open>updateTerminal\<close>, without the end of the process in \<open>drawState\<close>.\<close>

definition redraw :: "cpp_app \<Rightarrow> cpp_app" where
  "redraw a =
     (let a = displayGridPane (clearTerminal a) in
      showState (numLiveThreads a) (redLevel a) (greenLevel a) (blueLevel a) a)"

text \<open>One step of \<open>myEventLoop\<close>: the new state, the next point, and the threads it starts.\<close>

fun myEventLoop :: "pipe_env \<Rightarrow> point \<Rightarrow> cpp_app \<Rightarrow> cpp_stop + cpp_app \<times> point \<times> point list" where
  "myEventLoop env Draw a =
     Inr (redraw a, if numLiveThreads a = 0 then Quitting (Message no_threads_message) else Enter, [])"
| "myEventLoop env Enter a =
     (if recursiveDepth a \<ge> 5 then Inr (a, Returned, [])
      else Inr (a\<lparr>recursiveDepth := recursiveDepth a + 1\<rparr>, Spawn, []))"
| "myEventLoop env Spawn a = Inr (a, Leave, customTimerFunc 1000 Draw)"
| "myEventLoop env Leave a = Inr (a\<lparr>recursiveDepth := recursiveDepth a - 1\<rparr>, Pipe Access, [])"
| "myEventLoop env (Pipe q) a = (let (a', p) = pipe_step env q a in Inr (a', p, []))"
| "myEventLoop env (Keyboard k) a = bindR (key_step k a) (\<lambda>(a', p). Inr (a', p, []))"
| "myEventLoop env (Quitting q) a = bindR (cleanup_step q a) (\<lambda>(a', p). Inr (a', p, []))"
| "myEventLoop env Returned a = Inr (a, Returned, [])"

text \<open>The process: thread 0 is \<open>main\<close>, which ends the process when it returns.\<close>

datatype cpp_proc = Running cpp_app "point list" | Stopped cpp_stop

definition advance_thread :: "pipe_env \<Rightarrow> nat \<Rightarrow> cpp_app \<Rightarrow> point list \<Rightarrow> cpp_proc" where
  "advance_thread env i a ps =
     (if i = 0 \<and> ps ! i = Returned then Stopped (Quit a)
      else
        case myEventLoop env (ps ! i) a of
          Inl e \<Rightarrow> Stopped e
        | Inr (a', p, new) \<Rightarrow> Running a' (ps[i := p] @ new))"

inductive loop_step :: "cpp_proc \<Rightarrow> cpp_proc \<Rightarrow> bool" where
  "i < length ps \<Longrightarrow> loop_step (Running a ps) (advance_thread env i a ps)"

inductive_cases loop_stepE: "loop_step s s'"

section \<open>Initialisation and \<open>main\<close>\<close>

datatype cpp_exception = invalid_argument | out_of_range | bad_alloc

definition stoi :: "string \<Rightarrow> cpp_exception + int" where
  "stoi s =
     (let t = dropWhile isspace s;
          u = (if t \<noteq> [] \<and> (hd t = CHR ''-'' \<or> hd t = CHR ''+'') then tl t else t)
      in if u = [] \<or> \<not> isdigit (hd u) then Inl invalid_argument
         else if int_ok (atoi_value s) then Inr (atoi_value s) else Inl out_of_range)"

text \<open>The condition of the size check: \<open>&&\<close> stops at the first number that is too small.\<close>

fun sizes_ok :: "(string \<times> int) list \<Rightarrow> cpp_exception + bool" where
  "sizes_ok [] = Inr True"
| "sizes_ok ((s, least) # rest) = bindR (stoi s) (\<lambda>n. if n \<ge> least then sizes_ok rest else Inr False)"

definition main_arguments :: "string list \<Rightarrow> cpp_app \<Rightarrow> cpp_exception + cpp_app" where
  "main_arguments args a =
     (case args of
        [rows, cols, threads] \<Rightarrow>
          bindR (sizes_ok [(rows, 20), (cols, 20), (threads, 8)]) (\<lambda>ok.
            if ok then
              bindR (stoi rows) (\<lambda>r. bindR (stoi cols) (\<lambda>c. bindR (stoi threads) (\<lambda>t.
                Inr (a\<lparr>NUM_ROWS := r, NUM_COLS := c, MAX_NUM_TRAVELER_THREADS := t, numLiveThreads := t\<rparr>))))
            else Inr a)
      | _ \<Rightarrow>
          Inr (clearTerminal (a\<lparr>cout := cout a
                 @ ''No arguments provided, running with 8x8 grid and 4 threads.'' @ [CHR 0x0A, CHR 0x09]
                 @ ''This message will dissapear in 2 seconds... '' @ [CHR 0x0A]\<rparr>)
               \<lparr>NUM_ROWS := 8, NUM_COLS := 8, MAX_NUM_TRAVELER_THREADS := 4, numLiveThreads := 4\<rparr>))"

definition initializeFrontEnd :: "cpp_app \<Rightarrow> cpp_stop + cpp_app" where
  "initializeFrontEnd a = updateTerminal a"

definition initializeApplication :: "cpp_app \<Rightarrow> cpp_app" where
  "initializeApplication a =
     a\<lparr>grid := Rows (replicate (nat (NUM_ROWS a)) (Some (replicate (nat (NUM_COLS a)) 0))),
       info := info a @ [\<lparr>type = RED_TRAV, row = 1, col = 5, dir = EAST, isLive = True\<rparr>]\<rparr>"

text \<open>
  \<open>main\<close> up to the event loop, which it then runs as thread 0. The parameter says whether \<open>new\<close>
  finds memory for the grid; a caught exception is reported on \<open>std::cerr\<close> and \<open>main\<close> returns 0.
\<close>

datatype main_result = Caught cpp_exception cpp_app | Ended cpp_stop | Looping cpp_app

definition cpp_main :: "(int \<Rightarrow> int \<Rightarrow> bool) \<Rightarrow> string list \<Rightarrow> cpp_app \<Rightarrow> main_result" where
  "cpp_main new_ok args a =
     (case main_arguments args a of
        Inl e \<Rightarrow> Caught e a
      | Inr a \<Rightarrow>
          (case initializeFrontEnd a of
             Inl e \<Rightarrow> Ended e
           | Inr a \<Rightarrow>
               if new_ok (NUM_ROWS a) (NUM_COLS a) then Looping (initializeApplication a)
               else Caught bad_alloc a))"

definition main_start :: "(int \<Rightarrow> int \<Rightarrow> bool) \<Rightarrow> string list \<Rightarrow> u32 \<Rightarrow> cpp_proc \<Rightarrow> bool" where
  "main_start new_ok args lflag s =
     (\<exists>a. cpp_main new_ok args (initial_app lflag) = Looping a \<and> s = Running a [Draw])"

end
