(* ===== verification/CppInkProps.thy ===== *)
theory CppInkProps
  imports CppInk
begin

text \<open>
  Facts about the C++ front end of inklings: the invariant of its process under every interleaving
  of the accesses of the event-loop threads (an interpretation of \<open>invariant_system\<close>), that a key
  handled without interruption has the effect of \<open>myKeyboard\<close>, two races that break the limits which
  hold of a single thread, the keys whose handling overflows, and the width of a drawn row.
\<close>

section \<open>The invariant of a single thread\<close>

definition tank_ok :: "cpp_app \<Rightarrow> int \<Rightarrow> bool" where
  "tank_ok a level \<longleftrightarrow> 0 \<le> level \<and> level \<le> MAX_LEVEL a"

definition grid_ok :: "cpp_app \<Rightarrow> bool" where
  "grid_ok a \<longleftrightarrow> (\<exists>g. grid a = Rows (map Some g) \<and> int (length g) = NUM_ROWS a \<and> (\<forall>r\<in>set g. int (length r) = NUM_COLS a))"

definition app_ok :: "cpp_app \<Rightarrow> bool" where
  "app_ok a \<longleftrightarrow>
     MAX_LEVEL a = 50 \<and> MAX_ADD_INK a = 10 \<and>
     tank_ok a (redLevel a) \<and> tank_ok a (greenLevel a) \<and> tank_ok a (blueLevel a) \<and>
     MIN_SLEEP_TIME < producerSleepTime a \<and> producerSleepTime a \<le> 214748364 \<and>
     0 < inklingSleepTime a \<and> inklingSleepTime a \<le> 2147483647 \<and>
     grid_ok a \<and> numLiveThreads a \<noteq> 0 \<and> numPipesOpen a \<le> 1"

lemmas ok_defs = app_ok_def tank_ok_def grid_ok_def MIN_SLEEP_TIME_def

lemma int_res_eq_Inr [simp]: "int_res n = Inr m \<longleftrightarrow> int_ok n \<and> m = n"
  by (auto simp: int_res_def)

lemma int_res_eq_Inl [simp]: "int_res n = Inl e \<longleftrightarrow> \<not> int_ok n \<and> e = Signed_Overflow"
  by (auto simp: int_res_def)

lemma sdiv_nonneg: "0 \<le> n \<Longrightarrow> 0 < m \<Longrightarrow> (n :: int) sdiv m = n div m"
  by (simp add: signed_divide_int_def sgn_if)

lemma acquire_tank:
  "tank_ok a level \<Longrightarrow> MAX_LEVEL a = 50 \<Longrightarrow> 0 \<le> amount \<Longrightarrow>
     acquire level amount = (if amount \<le> level then Inr (True, level - amount) else Inr (False, level))"
  by (simp add: acquire_def tank_ok_def int_res_def int_ok_def)

lemma refill_tank:
  "tank_ok a level \<Longrightarrow> MAX_LEVEL a = 50 \<Longrightarrow> 0 \<le> amount \<Longrightarrow> amount \<le> 50 \<Longrightarrow>
     refill (MAX_LEVEL a) level amount =
       (if level + amount \<le> MAX_LEVEL a then Inr (True, level + amount) else Inr (False, level))"
  by (simp add: refill_def tank_ok_def int_res_def int_ok_def)

lemma cleanupAndQuit_Inr [simp]: "cleanupAndQuit msg a \<noteq> Inr a'"
  by (simp add: cleanupAndQuit_def bindR_eq_Inr)

lemma delete_rows_intact:
  assumes "grid a = Rows rs" "\<forall>j. k \<le> j \<longrightarrow> j < length rs \<longrightarrow> rs ! j \<noteq> None" "k \<le> length rs"
  shows "\<exists>rs'. delete_rows [int k..int (length rs) - 1] a = Inr (a\<lparr>grid := Rows rs'\<rparr>)"
  using assms
proof (induction "length rs - k" arbitrary: k a rs)
  case 0
  then show ?case by (intro exI [of _ rs]) simp
next
  case (Suc n)
  let ?b = "a\<lparr>grid := Rows (rs[k := None])\<rparr>"
  have k: "k < length rs" using Suc.hyps(2) by simp
  then have up: "[int k..int (length rs) - 1] = int k # [int (Suc k)..int (length rs) - 1]"
    by (simp add: upto_rec1 add.commute)
  have "\<exists>rs'. delete_rows [int (Suc k)..int (length (rs[k := None])) - 1] ?b = Inr (?b\<lparr>grid := Rows rs'\<rparr>)"
    using Suc.hyps(2) Suc.prems(2) k by (intro Suc.hyps(1)) auto
  then show ?case unfolding up using Suc.prems(1,2) k by (simp add: delete_row_def)
qed

lemma cleanupAndQuit_intact:
  assumes "grid a = Rows rs" "None \<notin> set rs" "int (length rs) = NUM_ROWS a"
  shows "\<exists>b. cleanupAndQuit msg a = Inl (Quit b) \<and> c_lflag b = c_lflag a"
proof -
  obtain rs' where "delete_rows [0..NUM_ROWS a - 1] (quit_message msg a) =
      Inr ((quit_message msg a)\<lparr>grid := Rows rs'\<rparr>)"
    using delete_rows_intact [of "quit_message msg a" rs 0] assms
    by (auto simp: quit_message_def in_set_conv_nth)
  then show ?thesis by (simp add: cleanupAndQuit_def delete_grid_def quit_message_def)
qed

lemma cleanupAndQuit_grid: "grid_ok a \<Longrightarrow> \<exists>b. cleanupAndQuit msg a = Inl (Quit b) \<and> c_lflag b = c_lflag a"
  unfolding grid_ok_def by (elim exE conjE, rule cleanupAndQuit_intact) auto

text \<open>What a key does to a good state; only the two keys that slow down can overflow.\<close>

lemma slowdownProducers_result:
  assumes "app_ok a"
  shows "slowdownProducers a =
    (if 12 * producerSleepTime a \<le> 2147483647
     then Inr (a\<lparr>producerSleepTime := 12 * producerSleepTime a div 10\<rparr>) else Inl Signed_Overflow)"
  using assms by (simp add: slowdownProducers_def ok_defs int_res_def int_ok_def sdiv_nonneg)

lemma myKeyboard_slow:
  "app_ok a \<Longrightarrow> myKeyboard CHR ''<'' a = slowdownProducers a"
  "app_ok a \<Longrightarrow> myKeyboard CHR ''-'' a =
     (if inklingSleepTime a + 100000 \<le> 2147483647
      then Inr (if inklingSleepTime a + 100000 < 2147483647
                then a\<lparr>inklingSleepTime := inklingSleepTime a + 100000\<rparr> else a)
      else Inl Signed_Overflow)"
  by (simp_all add: myKeyboard_def ok_defs int_res_def int_ok_def)

text \<open>
  An operation of a single thread keeps the state good: the invariant holds after it, or the process
  has ended, by \<open>exit\<close> or an overflow, and not by touching memory that is not there.
\<close>

definition keeps :: "cpp_stop + cpp_app \<Rightarrow> bool" where
  "keeps r \<longleftrightarrow>
     (case r of Inr a' \<Rightarrow> app_ok a' | Inl e \<Rightarrow> e = Signed_Overflow \<or> (\<exists>b. e = Quit b))"

lemma keeps_Inr [simp]: "keeps (Inr a') \<longleftrightarrow> app_ok a'"
  by (simp add: keeps_def)

lemma keeps_Inl [simp]: "keeps (Inl e) \<longleftrightarrow> e = Signed_Overflow \<or> (\<exists>b. e = Quit b)"
  by (simp add: keeps_def)

lemma keeps_cleanupAndQuit: "grid_ok a \<Longrightarrow> keeps (cleanupAndQuit msg a)"
  using cleanupAndQuit_grid [of a msg] by auto

lemma keeps_slowdownProducers:
  assumes "app_ok a"
  shows "keeps (slowdownProducers a)"
proof (cases "12 * producerSleepTime a \<le> 2147483647")
  case True
  then have "12 * producerSleepTime a div 10 \<le> 214748364" by linarith
  moreover have "30000 < 12 * producerSleepTime a div 10" using assms unfolding ok_defs by linarith
  ultimately show ?thesis using assms True by (simp add: slowdownProducers_result) (simp add: ok_defs)
qed (simp add: slowdownProducers_result assms)

text \<open>
  The product of \<open>speedupProducers\<close> does not overflow: a sleep time that \<open>slowdownProducers\<close> can
  produce is at most a tenth of the largest \<open>int\<close>.
\<close>

lemma speedupProducers_result:
  assumes "app_ok a"
  shows "speedupProducers a =
    Inr (if 8 * producerSleepTime a div 10 > MIN_SLEEP_TIME
         then a\<lparr>producerSleepTime := 8 * producerSleepTime a div 10\<rparr> else a)"
  using assms by (simp add: speedupProducers_def ok_defs int_res_def int_ok_def Let_def sdiv_nonneg)

lemma keeps_speedupProducers: "app_ok a \<Longrightarrow> keeps (speedupProducers a)"
  by (simp add: speedupProducers_result) (auto simp: ok_defs)

lemma keeps_refill:
  assumes "app_ok a"
  shows "keeps (bindR (refillRedInk (MAX_ADD_INK a) a) (\<lambda>(ok, a). Inr a))"
    "keeps (bindR (refillGreenInk (MAX_ADD_INK a) a) (\<lambda>(ok, a). Inr a))"
    "keeps (bindR (refillBlueInk (MAX_ADD_INK a) a) (\<lambda>(ok, a). Inr a))"
proof -
  have "refill (MAX_LEVEL a) level (MAX_ADD_INK a) =
     (if level + 10 \<le> 50 then Inr (True, level + 10) else Inr (False, level))" if "tank_ok a level" for level
    using that assms refill_tank [of a level 10] by (simp add: app_ok_def)
  with assms show
    "keeps (bindR (refillRedInk (MAX_ADD_INK a) a) (\<lambda>(ok, a). Inr a))"
    "keeps (bindR (refillGreenInk (MAX_ADD_INK a) a) (\<lambda>(ok, a). Inr a))"
    "keeps (bindR (refillBlueInk (MAX_ADD_INK a) a) (\<lambda>(ok, a). Inr a))"
    by (auto simp: refillRedInk_def refillGreenInk_def refillBlueInk_def ok_defs)
qed

lemma keeps_sleep_keys:
  assumes "app_ok a"
  shows "keeps (myKeyboard CHR ''+'' a)" "keeps (myKeyboard CHR ''-'' a)"
proof -
  show "keeps (myKeyboard CHR ''-'' a)"
    using assms by (simp add: myKeyboard_slow) (simp add: ok_defs)
  show "keeps (myKeyboard CHR ''+'' a)"
    using assms by (simp add: myKeyboard_def) (simp add: ok_defs int_res_def int_ok_def)
qed

lemma keeps_myKeyboard:
  assumes "app_ok a"
  shows "keeps (myKeyboard c a)"
proof (cases "c = CHR ''+'' \<or> c = CHR ''-''")
  case True
  with keeps_sleep_keys [OF assms] show ?thesis by blast
next
  case False
  moreover have "grid_ok a" using assms by (simp add: app_ok_def)
  ultimately show ?thesis
    using assms by (simp add: myKeyboard_def keeps_cleanupAndQuit keeps_slowdownProducers
        keeps_speedupProducers keeps_refill)
qed

section \<open>Steps of a thread\<close>

text \<open>
  What holds of the shared variables however the accesses interleave. The tanks have only their initial
  level as a lower bound and the sleep time of the inklings none: the tests that should bound them are
  separate from the updates they guard.
\<close>

fun initial_level :: "ink \<Rightarrow> int" where
  "initial_level Red_Ink = 20"
| "initial_level Green_Ink = 10"
| "initial_level Blue_Ink = 40"

definition level_ok :: "ink \<Rightarrow> int \<Rightarrow> bool" where
  "level_ok k n \<longleftrightarrow> initial_level k \<le> n \<and> n \<le> 2147483647"

definition producer_ok :: "int \<Rightarrow> bool" where
  "producer_ok n \<longleftrightarrow> MIN_SLEEP_TIME < n \<and> n \<le> 214748364"

fun allocated :: "int \<Rightarrow> grid_memory \<Rightarrow> bool" where
  "allocated n Null = False"
| "allocated n Freed = True"
| "allocated n (Rows rs) = (int (length rs) = n)"

definition shared_ok :: "cpp_app \<Rightarrow> bool" where
  "shared_ok a \<longleftrightarrow>
     MAX_LEVEL a = 50 \<and> MAX_ADD_INK a = 10 \<and> numLiveThreads a \<noteq> 0 \<and>
     (\<forall>k. level_ok k (tank k a)) \<and> producer_ok (producerSleepTime a) \<and> int_ok (inklingSleepTime a) \<and>
     allocated (NUM_ROWS a) (grid a)"





text \<open>The grid as a single thread in \<open>cleanupAndQuit\<close> finds it.\<close>

definition intact :: "cpp_app \<Rightarrow> bool" where
  "intact a \<longleftrightarrow> (case grid a of Rows rs \<Rightarrow> None \<notin> set rs | _ \<Rightarrow> False)"


lemmas shared_defs = shared_ok_def level_ok_def producer_ok_def MIN_SLEEP_TIME_def int_ok_def


lemma set_tank_simps [simp]:
  "MAX_LEVEL (set_tank k n a) = MAX_LEVEL a" "MAX_ADD_INK (set_tank k n a) = MAX_ADD_INK a"
  "numLiveThreads (set_tank k n a) = numLiveThreads a" "producerSleepTime (set_tank k n a) = producerSleepTime a"
  "inklingSleepTime (set_tank k n a) = inklingSleepTime a" "grid (set_tank k n a) = grid a"
  "NUM_ROWS (set_tank k n a) = NUM_ROWS a" "recursiveDepth (set_tank k n a) = recursiveDepth a"
  "tank j (set_tank k n a) = (if j = k then n else tank j a)"
  by (cases k; cases j; simp)+

lemma tank_irrelevant [simp]:
  "tank k (a\<lparr>producerSleepTime := m\<rparr>) = tank k a" "tank k (a\<lparr>inklingSleepTime := m\<rparr>) = tank k a"
  "tank k (a\<lparr>grid := g\<rparr>) = tank k a" "tank k (a\<lparr>cout := s\<rparr>) = tank k a"
  "tank k (a\<lparr>recursiveDepth := m\<rparr>) = tank k a" "tank k (a\<lparr>pipe_fd := m\<rparr>) = tank k a"
  "tank k (a\<lparr>numPipesOpen := w\<rparr>) = tank k a"
  by (cases k; simp)+

lemma shared_ok_irrelevant [simp]:
  "shared_ok (a\<lparr>cout := s\<rparr>) = shared_ok a" "shared_ok (a\<lparr>recursiveDepth := d\<rparr>) = shared_ok a"
  "shared_ok (a\<lparr>pipe_fd := m\<rparr>) = shared_ok a" "shared_ok (a\<lparr>numPipesOpen := w\<rparr>) = shared_ok a"
  by (simp_all add: shared_ok_def)










lemma redraw_result: "\<exists>s. redraw a = a\<lparr>cout := s\<rparr>"
  unfolding redraw_def displayGridPane_def drawGridAndInklingsASCII_def clearTerminal_def showState_def Let_def
  by (simp del: append.simps print_args.simps) (rule exI, rule refl)

lemma redraw_simps [simp]:
  "shared_ok (redraw a) = shared_ok a" "recursiveDepth (redraw a) = recursiveDepth a" "grid (redraw a) = grid a"
  "numLiveThreads (redraw a) = numLiveThreads a" "tank k (redraw a) = tank k a" "MAX_LEVEL (redraw a) = MAX_LEVEL a"
  "MAX_ADD_INK (redraw a) = MAX_ADD_INK a" "NUM_ROWS (redraw a) = NUM_ROWS a" "numPipesOpen (redraw a) = numPipesOpen a"
  using redraw_result [of a] by auto

lemma updateTerminal_redraw:
  "updateTerminal a = (if numLiveThreads a = 0 then cleanupAndQuit no_threads_message (redraw a) else Inr (redraw a))"
  by (simp add: updateTerminal_def displayStatePane_def redraw_def Let_def drawState_def displayGridPane_def
      drawGridAndInklingsASCII_def clearTerminal_def)

section \<open>The invariant of the process\<close>














lemma main_arguments_result:
  assumes "main_arguments args a = Inr b" "0 \<le> NUM_ROWS a" "0 \<le> NUM_COLS a"
  obtains r c m t s where "0 \<le> r" "0 \<le> c"
    "b = a\<lparr>NUM_ROWS := r, NUM_COLS := c, MAX_NUM_TRAVELER_THREADS := m, numLiveThreads := t, cout := s\<rparr>"
proof (rule that)
  show "0 \<le> NUM_ROWS b" "0 \<le> NUM_COLS b"
    using assms by (auto simp: main_arguments_def clearTerminal_def bindR_eq_Inr split: list.splits if_splits)
  show "b = a\<lparr>NUM_ROWS := NUM_ROWS b, NUM_COLS := NUM_COLS b, MAX_NUM_TRAVELER_THREADS := MAX_NUM_TRAVELER_THREADS b,
      numLiveThreads := numLiveThreads b, cout := cout b\<rparr>"
    using assms(1) by (auto simp: main_arguments_def clearTerminal_def bindR_eq_Inr split: list.splits if_splits)
qed

lemma cpp_main_Looping:
  assumes "cpp_main new_ok args (initial_app lflag) = Looping a"
  shows "app_ok a" "shared_ok a" "intact a" "recursiveDepth a = 0" "numPipesOpen a = 0" "tank k a = initial_level k"
    "inklingSleepTime a = 1000000"
proof -
  obtain b c where b: "main_arguments args (initial_app lflag) = Inr b" and c: "updateTerminal b = Inr c"
    and a: "a = initializeApplication c"
    using assms by (auto simp: cpp_main_def initializeFrontEnd_def split: sum.splits if_splits)
  then have live: "numLiveThreads b \<noteq> 0" by (auto simp: updateTerminal_redraw)
  then obtain s where s: "c = b\<lparr>cout := s\<rparr>" using c redraw_result [of b] by (auto simp: updateTerminal_redraw)
  obtain r n m t s' where rn: "0 \<le> r" "0 \<le> n" and bb: "b = (initial_app lflag)
      \<lparr>NUM_ROWS := r, NUM_COLS := n, MAX_NUM_TRAVELER_THREADS := m, numLiveThreads := t, cout := s'\<rparr>"
    by (rule main_arguments_result [OF b]) (simp_all add: initial_app_def)
  have g: "grid a = Rows (map Some (replicate (nat r) (replicate (nat n) 0)))" "NUM_ROWS a = r" "NUM_COLS a = n"
    by (simp_all add: a s bb initializeApplication_def)
  then have gok: "grid_ok a" using rn by (auto simp: grid_ok_def intro!: exI [of _ "replicate (nat r) (replicate (nat n) 0)"])
  then show "app_ok a" using live
    by (auto simp: app_ok_def tank_ok_def MIN_SLEEP_TIME_def a s bb initializeApplication_def initial_app_def)
  show tanks: "tank k a = initial_level k" for k
    by (cases k) (simp_all add: a s bb initializeApplication_def initial_app_def)
  have "level_ok k (initial_level k)" for k by (cases k) (simp_all add: level_ok_def)
  then show "shared_ok a" using live rn g(1)
    by (simp add: shared_ok_def tanks) (simp add: producer_ok_def MIN_SLEEP_TIME_def int_ok_def a s bb
        initializeApplication_def initial_app_def)
  show "intact a" using g(1) by (simp add: intact_def)
  show "recursiveDepth a = 0" "numPipesOpen a = 0" "inklingSleepTime a = 1000000"
    by (simp_all add: a s bb initializeApplication_def initial_app_def)
qed





lemma cpp_main_default:
  "\<exists>a. cpp_main (\<lambda>r c. True) [] (initial_app lflag) = Looping a \<and> NUM_ROWS a = 8"
proof -
  obtain b where b: "main_arguments [] (initial_app lflag) = Inr b" "numLiveThreads b \<noteq> 0" "NUM_ROWS b = 8"
    by (simp add: main_arguments_def)
  then have "cpp_main (\<lambda>r c. True) [] (initial_app lflag) = Looping (initializeApplication (redraw b))"
    by (simp add: cpp_main_def initializeFrontEnd_def updateTerminal_redraw)
  then show ?thesis using b by (simp add: initializeApplication_def)
qed



section \<open>A key handled alone, and two at a time\<close>

text \<open>The steps of one thread that no other thread interrupts.\<close>

primrec run_thread :: "nat \<Rightarrow> pipe_env \<Rightarrow> point \<Rightarrow> cpp_app \<Rightarrow> cpp_stop + cpp_app \<times> point" where
  "run_thread 0 env p a = Inr (a, p)"
| "run_thread (Suc n) env p a = bindR (myEventLoop env p a) (\<lambda>(a', p', new). run_thread n env p' a')"

lemma run_cleanup:
  "nat (NUM_ROWS a - i) = m \<Longrightarrow>
     run_thread (m + n) env (Quitting (Delete_Row i)) a =
       bindR (delete_rows [i..NUM_ROWS a - 1] a) (\<lambda>a. run_thread n env (Quitting (Delete_Row (max i (NUM_ROWS a)))) a)"
proof (induction m arbitrary: i a)
  case 0
  then show ?case by simp
next
  case (Suc m)
  then have i: "i < NUM_ROWS a" "nat (NUM_ROWS a - (i + 1)) = m" by auto
  have up: "[i..NUM_ROWS a - 1] = i # [i + 1..NUM_ROWS a - 1]" using i(1) by (simp add: upto_rec1)
  show ?case
  proof (cases "delete_row i a")
    case (Inr b)
    then have "NUM_ROWS b = NUM_ROWS a" by (auto simp: delete_row_def split: grid_memory.splits if_splits)
    moreover from this have "max (i + 1) (NUM_ROWS c) = max i (NUM_ROWS c)"
      if "delete_rows [i + 1..NUM_ROWS b - 1] b = Inr c" for c
    proof -
      have "delete_rows is b = Inr c \<Longrightarrow> NUM_ROWS c = NUM_ROWS b" for "is" b
        by (induction "is" arbitrary: b)
          (auto simp: bindR_eq_Inr delete_row_def split: grid_memory.splits if_splits)
      then show ?thesis using that i(1) \<open>NUM_ROWS b = NUM_ROWS a\<close> by force
    qed
    ultimately show ?thesis using Inr Suc.IH [of b "i + 1"] i up
      by (cases "delete_rows [i + 1..NUM_ROWS b - 1] b") simp_all
  qed (use i up in simp)
qed

lemma cleanup_alone:
  "\<exists>n. run_thread n env (Quitting (Message msg)) a = bindR (cleanupAndQuit msg a) (\<lambda>a. Inr (a, Returned))"
proof
  let ?a = "quit_message msg a"
  have rows: "NUM_ROWS ?a = NUM_ROWS a" by (simp add: quit_message_def)
  have max: "\<not> max 0 (NUM_ROWS b) < NUM_ROWS b" for b by simp
  show "run_thread (Suc (nat (NUM_ROWS ?a - 0) + 3)) env (Quitting (Message msg)) a =
      bindR (cleanupAndQuit msg a) (\<lambda>a. Inr (a, Returned))"
    unfolding run_thread.simps(2) using run_cleanup [of ?a 0 "nat (NUM_ROWS ?a - 0)" 3 env]
    by (simp add: cleanupAndQuit_def rows numeral_3_eq_3 bindR_assoc max del: max_less_iff_conj)
qed

text \<open>A key that is handled without interruption has the effect of \<open>myKeyboard\<close>.\<close>

lemma tank_same [simp]: "set_tank k (tank k a) a = a"
  by (cases k) simp_all

lemma keyboard_alone:
  "\<exists>n. run_thread n env (Keyboard (Press c)) a = bindR (myKeyboard c a) (\<lambda>a. Inr (a, Returned))"
proof (cases "c = CHR 0x1B")
  case True
  obtain n where "run_thread n env (Quitting (Message esc_message)) a =
      bindR (cleanupAndQuit esc_message a) (\<lambda>a. Inr (a, Returned))"
    using cleanup_alone by blast
  then show ?thesis using True by (intro exI [of _ "Suc n"]) (simp add: press_step_def myKeyboard_def)
next
  case False
  then show ?thesis
    by (intro exI [of _ "3"])
      (simp add: numeral_3_eq_3 press_step_def myKeyboard_def refill_test_def refillRedInk_def refillGreenInk_def
        refillBlueInk_def refill_def slowdownProducers_def speedupProducers_def int_res_def Let_def)
qed

text \<open>Schedules: which thread steps next, and what the system answers it.\<close>

fun schedule :: "(nat \<times> pipe_env) list \<Rightarrow> cpp_proc \<Rightarrow> cpp_proc" where
  "schedule ((i, env) # rest) (Running a ps) =
     (if i < length ps then schedule rest (advance_thread env i a ps) else Running a ps)"
| "schedule _ s = s"

lemma reachable_schedule:
  "reachable start loop_step (\<lambda>s s'. False) s \<Longrightarrow> reachable start loop_step (\<lambda>s s'. False) (schedule sched s)"
  by (induction sched s rule: schedule.induct) (auto intro: reachable.step loop_step.intros)

definition pipe_says :: "char \<Rightarrow> pipe_env" where
  "pipe_says c = \<lparr>pipe_exists = True, pipe_open = 3, pipe_byte = Some c\<rparr>"

lemma two_keys:
  "\<exists>a. reachable (main_start (\<lambda>r c. True) [] 0) loop_step (\<lambda>s s'. False)
       (Running a [Keyboard (Press c), Keyboard (Press c), Draw]) \<and>
     shared_ok a \<and> intact a \<and> blueLevel a = 40 \<and> NUM_ROWS a = 8"
proof -
  obtain a where main: "cpp_main (\<lambda>r c. True) [] (initial_app 0) = Looping a" and rows: "NUM_ROWS a = 8"
    using cpp_main_default by blast
  note a = cpp_main_Looping [OF main]
  have live: "numLiveThreads a \<noteq> 0" using a(1) by (simp add: app_ok_def)
  let ?s = "schedule (replicate 12 (0, pipe_says c) @ replicate 8 (1, pipe_says c)) (Running a [Draw])"
  have r: "reachable (main_start (\<lambda>r c. True) [] 0) loop_step (\<lambda>s s'. False) ?s"
    by (rule reachable_schedule, rule reachable.start) (auto simp: main_start_def main)
  have "\<exists>s d. ?s = Running (a\<lparr>cout := s, recursiveDepth := d, pipe_fd := 3, numPipesOpen := 1\<rparr>)
      [Keyboard (Press c), Keyboard (Press c), Draw]"
  proof -
    obtain s where s: "redraw a = a\<lparr>cout := s\<rparr>" using redraw_result by blast
    define b where "b = a\<lparr>cout := s, recursiveDepth := 0, pipe_fd := 3, numPipesOpen := 1\<rparr>"
    obtain t where t: "redraw b = b\<lparr>cout := t\<rparr>" using redraw_result by blast
    have first: "schedule (replicate 12 (0, pipe_says c) @ xs) (Running a [Draw]) =
        schedule xs (Running b [Keyboard (Press c), Draw])" for xs
      using live a(4,5) by (simp add: eval_nat_numeral s advance_thread_def pipe_says_def customTimerFunc_def b_def)
    have second: "schedule (replicate 8 (1, pipe_says c)) (Running b [Keyboard (Press c), Draw]) =
        Running (b\<lparr>cout := t\<rparr>) [Keyboard (Press c), Keyboard (Press c), Draw]"
      using live by (simp add: eval_nat_numeral t advance_thread_def pipe_says_def customTimerFunc_def b_def [symmetric])
        (simp add: b_def)
    have "b\<lparr>cout := t\<rparr> = a\<lparr>cout := t, recursiveDepth := 0, pipe_fd := 3, numPipesOpen := 1\<rparr>" by (simp add: b_def)
    then show ?thesis unfolding first second by blast
  qed
  then obtain s d where eq: "?s = Running (a\<lparr>cout := s, recursiveDepth := d, pipe_fd := 3, numPipesOpen := 1\<rparr>)
      [Keyboard (Press c), Keyboard (Press c), Draw]" by blast
  from r [unfolded eq] a(2,3) a(6) [of Blue_Ink] rows show ?thesis
    by (intro exI [of _ "a\<lparr>cout := s, recursiveDepth := d, pipe_fd := 3, numPipesOpen := 1\<rparr>"]) (simp add: intact_def)
qed

text \<open>
  The races: two threads that handle \<open>b\<close> at level 40 both pass the test and fill the tank to 60, over
  its maximum of 50; two threads that handle ESC free the first row twice.
\<close>

lemma ink_races:
  fixes R
  defines "R \<equiv> reachable (main_start (\<lambda>r c. True) [] 0) loop_step (\<lambda>s s'. False)"
  shows "\<exists>a ps. R (Running a ps) \<and> blueLevel a = 60 \<and> MAX_LEVEL a = 50" and "R (Stopped Double_Free)"
proof -
  obtain a where a: "R (Running a [Keyboard (Press CHR ''b''), Keyboard (Press CHR ''b''), Draw])"
      "shared_ok a" "blueLevel a = 40"
    using two_keys unfolding R_def by blast
  have "schedule (map (\<lambda>i. (i, env)) [0, 1, 0, 0, 1, 1]) (Running a [Keyboard (Press CHR ''b''), Keyboard (Press CHR ''b''), Draw]) =
      Running (a\<lparr>blueLevel := 60\<rparr>) [Returned, Returned, Draw]" for env
    using a(2,3) by (simp add: advance_thread_def press_step_def refill_test_def shared_ok_def int_res_def int_ok_def)
  with reachable_schedule [OF a(1) [unfolded R_def]] have "R (Running (a\<lparr>blueLevel := 60\<rparr>) [Returned, Returned, Draw])"
    unfolding R_def by metis
  then show "\<exists>a ps. R (Running a ps) \<and> blueLevel a = 60 \<and> MAX_LEVEL a = 50"
    using a(2) by (intro exI [of _ "a\<lparr>blueLevel := 60\<rparr>"]) (auto simp: shared_ok_def)
next
  obtain a where a: "R (Running a [Keyboard (Press CHR 0x1B), Keyboard (Press CHR 0x1B), Draw])"
      "shared_ok a" "intact a" "NUM_ROWS a = 8"
    using two_keys unfolding R_def by blast
  then obtain rs where rs: "grid a = Rows rs" "length rs = 8" "rs ! 0 \<noteq> None"
    by (cases "grid a") (auto simp: shared_ok_def intact_def in_set_conv_nth)
  have "schedule (map (\<lambda>i. (i, env)) [0, 1, 0, 1, 0, 1]) (Running a [Keyboard (Press CHR 0x1B), Keyboard (Press CHR 0x1B), Draw]) =
      Stopped Double_Free" for env
    using a(4) rs by (simp add: advance_thread_def press_step_def quit_message_def delete_row_def)
  with reachable_schedule [OF a(1) [unfolded R_def]] show "R (Stopped Double_Free)" unfolding R_def by metis
qed

section \<open>Keys that overflow\<close>

text \<open>The keys of a string pressed one after the other.\<close>

primrec press :: "string \<Rightarrow> cpp_app \<Rightarrow> cpp_stop + cpp_app" where
  "press [] a = Inr a"
| "press (c # cs) a = bindR (myKeyboard c a) (press cs)"

lemma myKeyboard_overflow:
  assumes "app_ok a"
  shows "myKeyboard c a = Inl Signed_Overflow \<longleftrightarrow>
    c = CHR ''<'' \<and> 178956970 < producerSleepTime a \<or> c = CHR ''-'' \<and> 2147383647 < inklingSleepTime a"
proof -
  have other: "myKeyboard c a \<noteq> Inl Signed_Overflow" if "c \<noteq> CHR ''<''" "c \<noteq> CHR ''-''"
  proof -
    have "refill (MAX_LEVEL a) level (MAX_ADD_INK a) \<noteq> Inl Signed_Overflow" if "tank_ok a level" for level
      using that assms refill_tank [of a level 10] by (simp add: app_ok_def)
    moreover obtain b where "cleanupAndQuit esc_message a = Inl (Quit b)"
      using cleanupAndQuit_grid [of a esc_message] assms by (auto simp: app_ok_def)
    ultimately show ?thesis
      using that assms
      by (auto simp: myKeyboard_def speedupProducers_result refillRedInk_def refillGreenInk_def refillBlueInk_def
          bindR_eq_Inl int_ok_def app_ok_def split: prod.splits if_splits)
  qed
  show ?thesis
    using other assms by (cases "c = CHR ''<''"; cases "c = CHR ''-''") (auto simp: myKeyboard_slow slowdownProducers_result)
qed

lemma press_minus:
  assumes "app_ok a" "inklingSleepTime a = 1000000 + 100000 * int k" "k \<le> 21464"
  shows "press (replicate n CHR ''-'') a = Inl Signed_Overflow \<longleftrightarrow> 21465 \<le> k + n"
  using assms
proof (induction n arbitrary: a k)
  case (Suc n)
  show ?case
  proof (cases "k = 21464")
    case True
    with Suc.prems show ?thesis by (simp add: myKeyboard_slow)
  next
    case False
    let ?a = "a\<lparr>inklingSleepTime := inklingSleepTime a + 100000\<rparr>"
    have "k < 21464" using False Suc.prems(3) by simp
    then have m: "myKeyboard CHR ''-'' a = Inr ?a" using Suc.prems by (simp add: myKeyboard_slow)
    then have "app_ok ?a" using keeps_myKeyboard [OF Suc.prems(1), of "CHR ''-''"] by simp
    then show ?thesis using Suc.IH [of ?a "Suc k"] Suc.prems(2) \<open>k < 21464\<close> m by (simp add: algebra_simps)
  qed
qed simp

definition slowed :: "nat \<Rightarrow> int" where
  "slowed k = ((\<lambda>x. 12 * x div 10) ^^ k) 100000"

lemma slowed_values: "\<forall>k\<in>set [0..<42]. 12 * slowed k \<le> 2147483647" "slowed 42 = 211645632"
  by code_simp+

lemma press_less:
  assumes "app_ok a" "producerSleepTime a = slowed k" "k \<le> 42"
  shows "press (replicate n CHR ''<'') a = Inl Signed_Overflow \<longleftrightarrow> 43 \<le> k + n"
  using assms
proof (induction n arbitrary: a k)
  case (Suc n)
  show ?case
  proof (cases "k = 42")
    case True
    with Suc.prems show ?thesis by (simp add: myKeyboard_slow slowdownProducers_result slowed_values)
  next
    case False
    let ?a = "a\<lparr>producerSleepTime := 12 * producerSleepTime a div 10\<rparr>"
    have "k < 42" using False Suc.prems(3) by simp
    then have "12 * slowed k \<le> 2147483647" using slowed_values(1) by simp
    then have m: "myKeyboard CHR ''<'' a = Inr ?a"
      using Suc.prems by (simp add: myKeyboard_slow slowdownProducers_result)
    then have "app_ok ?a" using keeps_myKeyboard [OF Suc.prems(1), of "CHR ''<''"] by simp
    then show ?thesis using Suc.IH [of ?a "Suc k"] Suc.prems(2) \<open>k < 42\<close> m by (simp add: slowed_def)
  qed
qed simp

definition running_app :: cpp_app where
  "running_app = initializeApplication ((initial_app 0)\<lparr>NUM_ROWS := 8, NUM_COLS := 8, numLiveThreads := 4\<rparr>)"

lemma running_app_ok: "app_ok running_app" "producerSleepTime running_app = 100000" "inklingSleepTime running_app = 1000000"
  by (auto simp: running_app_def initializeApplication_def initial_app_def ok_defs
      intro!: exI [of _ "replicate 8 (replicate 8 0)"])

text \<open>C36 (keys that overflow). In a good state a key has undefined behaviour exactly if it is \<open><\<close> and
  twelve times the sleep time of the producers is not an \<open>int\<close>, or \<open>-\<close> and the sleep time of the
  inklings is within 100000 of the largest \<open>int\<close> (the test that should prevent the overflow
  overflows itself). From the initial times this is reached by the 43rd \<open><\<close> and by the 21465th \<open>-\<close>,
  and not before.\<close>

theorem keyboard_overflow:
  assumes "app_ok a"
  shows "(myKeyboard c a = Inl Signed_Overflow \<longleftrightarrow>
      c = CHR ''<'' \<and> 2147483647 < 12 * producerSleepTime a \<or> c = CHR ''-'' \<and> 2147483647 < inklingSleepTime a + 100000) \<and>
    (producerSleepTime a = 100000 \<longrightarrow> (press (replicate n CHR ''<'') a = Inl Signed_Overflow \<longleftrightarrow> 43 \<le> n)) \<and>
    (inklingSleepTime a = 1000000 \<longrightarrow> (press (replicate n CHR ''-'') a = Inl Signed_Overflow \<longleftrightarrow> 21465 \<le> n))"
proof -
  have "12 * p > 2147483647 \<longleftrightarrow> 178956970 < p" "p + 100000 > 2147483647 \<longleftrightarrow> 2147383647 < p" for p :: int
    by linarith+
  then show ?thesis
    using myKeyboard_overflow [OF assms] press_less [OF assms, of 0 n] press_minus [OF assms, of 0 n]
    by (simp add: slowed_def)
qed

theorem keyboard_overflow_witness:
  "press (replicate 43 CHR ''<'') running_app = Inl Signed_Overflow \<and>
   press (replicate 21464 CHR ''-'') running_app \<noteq> Inl Signed_Overflow \<and>
   press (replicate 21465 CHR ''-'') running_app = Inl Signed_Overflow"
  using keyboard_overflow [OF running_app_ok(1), of _ 43] keyboard_overflow [OF running_app_ok(1), of _ 21464]
    keyboard_overflow [OF running_app_ok(1), of _ 21465] running_app_ok(2,3)
  by simp

section \<open>The drawn grid\<close>

text \<open>The inklings that are drawn on a cell, and the picture of a cell that has at most one.\<close>

definition inklings_on :: "InklingInfo list \<Rightarrow> int \<Rightarrow> int \<Rightarrow> InklingInfo list" where
  "inklings_on inks r c = filter (\<lambda>k. isLive k \<and> row k = r \<and> col k = c \<and> type k \<noteq> NUM_TRAV_TYPES) inks"

fun cell_picture :: "InklingInfo list \<Rightarrow> string" where
  "cell_picture [] = printCell [Color BLACK, Text ''[ ]'']"
| "cell_picture (k # ks) = fst (inklingCell k)"

lemma setTextColor_brackets [simp]: "count_list (setTextColor c) CHR '']'' = 0"
proof -
  have "\<forall>c\<in>set [DEFAULT, BLACK, RED, GREEN, YELLOW, BLUE, MAGENTA, CYAN, WHITE]. count_list (setTextColor c) CHR '']'' = 0"
    by code_simp
  then show ?thesis by (cases c) simp_all
qed

lemma inklingCell_brackets:
  "count_list (fst (inklingCell k)) CHR '']'' = of_bool (type k \<noteq> NUM_TRAV_TYPES)"
  "snd (inklingCell k) \<longleftrightarrow> type k \<noteq> NUM_TRAV_TYPES"
  "type k = NUM_TRAV_TYPES \<Longrightarrow> fst (inklingCell k) = []"
  by (cases "type k"; cases "dir k"; simp add: inklingCell_def resetTextColor_def)+

lemma inklings_at_result:
  "inklings_at r c inks found =
     (concat (map (fst \<circ> inklingCell) (inklings_on inks r c)), found \<or> inklings_on inks r c \<noteq> [])"
  by (induction inks arbitrary: found)
    (auto simp: inklings_on_def inklingCell_brackets case_prod_unfold Let_def)

lemma drawCell_result:
  "drawCell inks r c =
     (if inklings_on inks r c = [] then cell_picture [] else concat (map (fst \<circ> inklingCell) (inklings_on inks r c)))"
  by (simp add: drawCell_def inklings_at_result)

lemma drawCell_brackets: "count_list (drawCell inks r c) CHR '']'' = max 1 (length (inklings_on inks r c))"
proof -
  have "count_list (concat (map (fst \<circ> inklingCell) ks)) CHR '']'' = length ks"
    if "\<forall>k\<in>set ks. type k \<noteq> NUM_TRAV_TYPES" for ks
    using that by (induction ks) (auto simp: inklingCell_brackets)
  moreover have "\<forall>k\<in>set (inklings_on inks r c). type k \<noteq> NUM_TRAV_TYPES" by (simp add: inklings_on_def)
  ultimately show ?thesis
    by (cases "inklings_on inks r c") (auto simp: drawCell_result resetTextColor_def inklingCell_brackets)
qed

lemma count_list_concat_map: "count_list (concat (map f xs)) x = (\<Sum>y\<leftarrow>xs. count_list (f y) x)"
  by (induction xs) simp_all

text \<open>C37 (width of a drawn row). A row of the grid is printed as its cells exactly if no two live
  inklings share one: the number of boxes in the row is the number of columns plus the number of
  inklings in excess of one per cell. (The source has a remark about extra vertical lines of unknown
  origin; this is it.) A row without shared cells shows on each cell the inkling that is there, or an
  empty box.\<close>

theorem draw_row_width:
  "count_list (drawRow numCols inks r) CHR '']'' =
     nat numCols + (\<Sum>c<nat numCols. length (inklings_on inks r (int c)) - 1) \<and>
   ((\<forall>c<nat numCols. length (inklings_on inks r (int c)) \<le> 1) \<longrightarrow>
     drawRow numCols inks r =
       concat (map (\<lambda>c. cell_picture (inklings_on inks r (int c))) [0..<nat numCols]) @ [CHR 0x0A])"
proof
  have "count_list (drawRow numCols inks r) CHR '']'' = (\<Sum>c\<leftarrow>[0..<nat numCols]. max 1 (length (inklings_on inks r (int c))))"
    by (simp add: drawRow_def count_list_concat_map drawCell_brackets)
  also have "\<dots> = (\<Sum>c<nat numCols. 1 + (length (inklings_on inks r (int c)) - 1))"
    by (auto simp: sum_list_distinct_conv_sum_set atLeast0LessThan intro: sum.cong)
  finally show "count_list (drawRow numCols inks r) CHR '']'' =
     nat numCols + (\<Sum>c<nat numCols. length (inklings_on inks r (int c)) - 1)"
    by (simp only: sum.distrib) simp
  show "(\<forall>c<nat numCols. length (inklings_on inks r (int c)) \<le> 1) \<longrightarrow>
     drawRow numCols inks r =
       concat (map (\<lambda>c. cell_picture (inklings_on inks r (int c))) [0..<nat numCols]) @ [CHR 0x0A]"
  proof
    assume le: "\<forall>c<nat numCols. length (inklings_on inks r (int c)) \<le> 1"
    have "drawCell inks r (int c) = cell_picture (inklings_on inks r (int c))" if "c < nat numCols" for c
      using le that by (cases "inklings_on inks r (int c)") (auto simp: drawCell_result)
    then show "drawRow numCols inks r =
       concat (map (\<lambda>c. cell_picture (inklings_on inks r (int c))) [0..<nat numCols]) @ [CHR 0x0A]"
      by (auto simp: drawRow_def intro!: arg_cong [where f = concat])
  qed
qed

theorem draw_row_width_witness:
  "let k = \<lparr>type = RED_TRAV, row = 1, col = 5, dir = EAST, isLive = True\<rparr> in
   count_list (drawRow 8 [k, k] 1) CHR '']'' = 9 \<and>
   drawRow 8 [k] 1 = concat (map (\<lambda>c. cell_picture (inklings_on [k] 1 (int c))) [0..<8]) @ [CHR 0x0A]"
  using draw_row_width [of 8 "[\<lparr>type = RED_TRAV, row = 1, col = 5, dir = EAST, isLive = True\<rparr>,
      \<lparr>type = RED_TRAV, row = 1, col = 5, dir = EAST, isLive = True\<rparr>]" 1]
    draw_row_width [of 8 "[\<lparr>type = RED_TRAV, row = 1, col = 5, dir = EAST, isLive = True\<rparr>]" 1]
  by (simp add: inklings_on_def Let_def lessThan_nat_numeral lessThan_Suc)

section \<open>Smaller facts\<close>

text \<open>Acquiring ink takes exactly what was asked for or nothing, and never below empty.\<close>

lemma acquireRedInk_result:
  assumes "app_ok a" "0 \<le> amount"
  shows "acquireRedInk amount a =
    (if amount \<le> redLevel a then Inr (True, a\<lparr>redLevel := redLevel a - amount\<rparr>) else Inr (False, a))"
  using assms acquire_tank [of a "redLevel a" amount] by (simp add: acquireRedInk_def app_ok_def)

lemma acquireGreenInk_result:
  assumes "app_ok a" "0 \<le> amount"
  shows "acquireGreenInk amount a =
    (if amount \<le> greenLevel a then Inr (True, a\<lparr>greenLevel := greenLevel a - amount\<rparr>) else Inr (False, a))"
  using assms acquire_tank [of a "greenLevel a" amount] by (simp add: acquireGreenInk_def app_ok_def)

lemma acquireBlueInk_result:
  assumes "app_ok a" "0 \<le> amount"
  shows "acquireBlueInk amount a =
    (if amount \<le> blueLevel a then Inr (True, a\<lparr>blueLevel := blueLevel a - amount\<rparr>) else Inr (False, a))"
  using assms acquire_tank [of a "blueLevel a" amount] by (simp add: acquireBlueInk_def app_ok_def)

text \<open>Three numbers of which one is too small leave everything 0, and the first drawing quits.\<close>

lemma cpp_main_too_small:
  assumes "sizes_ok [(rows, 20), (cols, 20), (threads, 8)] = Inr False"
  shows "\<exists>a. cpp_main new_ok [rows, cols, threads] (initial_app lflag) = Ended (Quit a)"
proof -
  have "main_arguments [rows, cols, threads] (initial_app lflag) = Inr (initial_app lflag)"
    using assms by (simp add: main_arguments_def)
  moreover have "\<exists>a. updateTerminal (initial_app lflag) = Inl (Quit a)"
    by (simp add: updateTerminal_redraw cleanupAndQuit_def delete_grid_def quit_message_def)
      (simp add: initial_app_def)
  ultimately show ?thesis by (auto simp: cpp_main_def initializeFrontEnd_def)
qed

text \<open>The number of open pipes is counted even if \<open>open\<close> failed, so it is not tried again.\<close>

lemma failed_open_is_final:
  assumes "numPipesOpen a = 0" "pipe_open env \<le> 0"
  shows "\<exists>b. run_thread 6 env (Pipe Test_Count) a = Inr (b, Returned) \<and>
    (\<forall>env'. run_thread 2 env' (Pipe Test_Count) b = Inr (b, Returned))"
  using assms by (auto simp: eval_nat_numeral)

text \<open>The listener restores the terminal unless the key ends the process.\<close>

lemma enable_disable: "c_lflag (disableRawMode (enableRawMode a)) = c_lflag a OR (ICANON OR ECHO)"
  by (simp add: enableRawMode_def disableRawMode_def bit_eq_iff bit_simps) blast

lemma keyListener_esc:
  assumes "grid_ok a"
  shows "\<exists>b. keyListener (Some CHR 0x1B) a = Inl (Quit b) \<and> c_lflag b = c_lflag a AND NOT (ICANON OR ECHO)"
proof -
  have "grid_ok (enableRawMode a)" using assms by (simp add: grid_ok_def enableRawMode_def)
  then obtain b where "cleanupAndQuit esc_message (enableRawMode a) = Inl (Quit b)" "c_lflag b = c_lflag (enableRawMode a)"
    using cleanupAndQuit_grid by blast
  then show ?thesis by (simp add: keyListener_def myKeyboard_def enableRawMode_def)
qed

text \<open>
  The header says that the opposite of a direction is \<open>NUM_TRAVEL_DIRECTIONS - dir\<close>; that is so for
  west and east only. The left turn is as described.
\<close>

lemma opposite_comment:
  "direction_value NUM_TRAVEL_DIRECTIONS - direction_value WEST = direction_value EAST"
  "direction_value NUM_TRAVEL_DIRECTIONS - direction_value NORTH \<noteq> direction_value SOUTH"
  "(direction_value NORTH + 1) mod direction_value NUM_TRAVEL_DIRECTIONS = direction_value WEST"
  by simp_all

end
