(* ===== verification/Revtest.thy ===== *)
theory Revtest
  imports Libc "HOL-Library.Multiset"
begin

text \<open>
  The exercise on reversing (\<open>modules/m1\<close>): the test driver \<open>revtest.c\<close> with the function under test
  as a parameter, and \<open>reverse_arr1\<close> of \<open>reverse.c\<close>, whose body is empty. An array of strings is a
  list; a modifiable string is the list of the bytes of its array, terminator included, and its
  value as a C string ends at the first zero.
\<close>

record tests =
  tests_run :: int
  tests_correct :: int
  tests_incorrect :: int
  stdout :: string

definition printf :: "string \<Rightarrow> tests \<Rightarrow> tests" where
  "printf s t = t\<lparr>stdout := stdout t @ s\<rparr>"

definition red :: string where "red = CHR 0x1B # ''[0;31m''"

definition green :: string where "green = CHR 0x1B # ''[0;32m''"

definition default_color :: string where "default_color = CHR 0x1B # ''[0m''"

section \<open>Assertions\<close>

text \<open>The loop of \<open>assert_equal\<close>, from index \<open>i\<close>, on the remaining elements.\<close>

fun assert_elements :: "string \<Rightarrow> nat \<Rightarrow> nat \<Rightarrow> (string \<times> string) list \<Rightarrow> nat \<Rightarrow> nat \<Rightarrow> tests \<Rightarrow> nat \<times> tests" where
  "assert_elements message len i [] element_correct element_incorrect t = (element_incorrect, t)"
| "assert_elements message len i ((e, a) # rest) element_correct element_incorrect t =
     (if e = a then
        let element_correct = element_correct + 1;
            t = (if element_correct = len then t\<lparr>tests_correct := tests_correct t + 1\<rparr> else t)
        in assert_elements message len (i + 1) rest element_correct element_incorrect t
      else
        let element_incorrect = element_incorrect + 1;
            t = (if element_correct = len then t\<lparr>tests_correct := tests_correct t + 1\<rparr> else t);
            t = printf (red @ ''[FAILED Test '' @ show_int (tests_run t) @ '': '' @ message @ '']: At index: ''
                  @ show_int (int i) @ '', expected string: '' @ e @ '', actual string: '' @ a
                  @ [CHR 0x0A] @ default_color) t
        in assert_elements message len (i + 1) rest element_correct element_incorrect t)"

definition assert_equal :: "string list \<Rightarrow> string list \<Rightarrow> string \<Rightarrow> nat \<Rightarrow> tests \<Rightarrow> tests" where
  "assert_equal expected actual message len t =
     (let t = t\<lparr>tests_run := tests_run t + 1\<rparr>;
          (element_incorrect, t) = assert_elements message len 0 (zip (take len expected) (take len actual)) 0 0 t
      in if element_incorrect = 0
         then printf (green @ ''[PASSED Test '' @ show_int (tests_run t) @ '': '' @ message @ '']'' @ [CHR 0x0A] @ default_color) t
         else t)"

definition assert_string_equal :: "string \<Rightarrow> string \<Rightarrow> string \<Rightarrow> tests \<Rightarrow> tests" where
  "assert_string_equal expected actual message t =
     (let t = t\<lparr>tests_run := tests_run t + 1\<rparr> in
      if expected = actual then
        printf (green @ ''[PASSED Test '' @ show_int (tests_run t) @ '': '' @ message @ '']'' @ [CHR 0x0A] @ default_color)
          (t\<lparr>tests_correct := tests_correct t + 1\<rparr>)
      else
        printf (red @ ''[FAILED Test '' @ show_int (tests_run t) @ '': '' @ message @ '']: Expected string: ''
            @ [CHR 0x27] @ expected @ [CHR 0x27] @ '', Actual string: '' @ [CHR 0x27] @ actual @ [CHR 0x27]
            @ [CHR 0x0A] @ default_color)
          (t\<lparr>tests_incorrect := tests_incorrect t + 1\<rparr>))"

text \<open>\<open>snprintf\<close> terminates the string; with size 0 the destination is left alone.\<close>

definition safe_strncpy :: "string \<Rightarrow> string \<Rightarrow> nat \<Rightarrow> string" where
  "safe_strncpy dest src sz = (if sz > 0 then snprintf_s sz src else dest)"

section \<open>The tests\<close>

type_synonym reverse_arr = "string list \<Rightarrow> nat \<Rightarrow> string list"
type_synonym reverse_str = "string \<Rightarrow> nat \<Rightarrow> string"

definition test_array_reverse :: "reverse_arr \<Rightarrow> int \<Rightarrow> tests \<Rightarrow> tests" where
  "test_array_reverse func testnum t =
     (let t = printf (CHR 0x0A # ''   Starting tests for reverse_arr'' @ show_int testnum @ [CHR 0x0A]) t;
          str1 = func [''hello''] 1;
          t = assert_equal str1 str1 ''one element test'' 1 t;
          str3 = func [''hello'', ''my'', ''name'', ''is''] 4;
          t = assert_equal str3 [''is'', ''name'', ''my'', ''hello''] ''four element test'' 4 t;
          str4 = func [''i'', ''love'', ''systems'', ''csc'', ''412''] 5;
          t = assert_equal str4 [''412'', ''csc'', ''systems'', ''love'', ''i''] ''five element test'' 5 t;
          escaped = ''abc'' @ CHR 0x5C # ''ndef'' @ CHR 0x5C # ''tghi'';
          str5 = func [escaped, '' abc ''] 2;
          t = assert_equal str5 ['' abc '', escaped]
                ''test two elements with escaped chars and with leading/trailing whitespace'' 2 t;
          str6 = func [''hello NULL'', []] 2
      in assert_equal str6 [[], ''hello NULL''] ''test empty input'' 2 t)"

text \<open>A character array that is initialised from a literal.\<close>

definition chars :: "string \<Rightarrow> string" where
  "chars literal = literal @ [CHR 0x00]"

definition konnichiwa :: string where
  "konnichiwa = [CHR 0xE3, CHR 0x81, CHR 0x93, CHR 0xE3, CHR 0x82, CHR 0x93, CHR 0xE3, CHR 0x81, CHR 0xAB,
     CHR 0xE3, CHR 0x81, CHR 0xA1, CHR 0xE3, CHR 0x81, CHR 0xAF]"

definition konnichiwa_reversed :: string where
  "konnichiwa_reversed = [CHR 0xE3, CHR 0x81, CHR 0xAF, CHR 0xE3, CHR 0x81, CHR 0xA1, CHR 0xE3, CHR 0x81, CHR 0xAB,
     CHR 0xE3, CHR 0x82, CHR 0x93, CHR 0xE3, CHR 0x81, CHR 0x93]"

text \<open>The tests of \<open>test_char_reverse\<close> in order: literal, size argument, expected string, message.\<close>

definition char_tests :: "(string \<times> nat \<times> string \<times> string) list" where
  "char_tests =
     [(''madam'', 5, ''madam'', ''palindrome test''),
      (''hello'', 5, ''olleh'', ''test simple string''),
      (''hello, world!'', 13, ''!dlrow ,olleh'', ''simple special characters test''),
      (''  leading space'', 15, ''ecaps gnidael  '', ''leading space characters test''),
      (''trailing space  '', 16, ''  ecapS gniliart'', ''trailing space characters test''),
      ('' trailing space   '', 17, ''   ecapS gniliart '', ''leading + trailing space characters test! (hard)''),
      (konnichiwa, 6, konnichiwa_reversed, ''Unicode Characters special test! (extra credit)''),
      (''h'' @ [CHR 0xC3, CHR 0xA9] @ ''llo'', 6, ''oll'' @ [CHR 0xC3, CHR 0xA9] @ ''h'',
        ''string with Non-ASCII characters test! (extra credit)'')]"

definition char_test :: "reverse_str \<Rightarrow> string \<times> nat \<times> string \<times> string \<Rightarrow> tests \<Rightarrow> tests" where
  "char_test func = (\<lambda>(str, sz, rev1, message). assert_string_equal (c_string (func (chars str) sz)) rev1 message)"

definition test_char_reverse :: "reverse_str \<Rightarrow> int \<Rightarrow> tests \<Rightarrow> tests" where
  "test_char_reverse func testnum t =
     fold (char_test func) char_tests
       (printf (CHR 0x0A # ''   Starting tests for test_char_reverse'' @ show_int testnum @ [CHR 0x0A]) t)"

definition print_summary_stats :: "tests \<Rightarrow> tests" where
  "print_summary_stats t =
     printf (CHR 0x0A # '' Your code ran '' @ show_int (tests_run t) @ '' tests. '' @ CHR 0x0A
       # '' Your reverse functions passed '' @ show_int (tests_correct t)
       @ '' of the 55 tests needed to get full credit.'' @ [CHR 0x0A]) t"

text \<open>The body of \<open>reverse_arr1\<close> is empty.\<close>

definition reverse_arr1 :: reverse_arr where
  "reverse_arr1 arr sz = arr"

definition no_tests :: tests where
  "no_tests = \<lparr>tests_run = 0, tests_correct = 0, tests_incorrect = 0, stdout = []\<rparr>"

definition revtest_main :: tests where
  "revtest_main = print_summary_stats (test_array_reverse reverse_arr1 1 no_tests)"

section \<open>What the assertions count\<close>

lemma printf_counts [simp]:
  "tests_run (printf s t) = tests_run t" "tests_correct (printf s t) = tests_correct t"
  "tests_incorrect (printf s t) = tests_incorrect t"
  by (simp_all add: printf_def)

lemma assert_elements_counts:
  assumes "assert_elements message len i ps c w t = (w', t')" "length ps + c + w = len" "ps \<noteq> [] \<or> w > 0"
  shows "tests_run t' = tests_run t \<and> tests_incorrect t' = tests_incorrect t \<and>
    tests_correct t' = tests_correct t + of_bool (w = 0 \<and> (\<forall>(e, a)\<in>set ps. e = a)) \<and>
    (w' = 0 \<longleftrightarrow> w = 0 \<and> (\<forall>(e, a)\<in>set ps. e = a))"
  using assms
proof (induction ps arbitrary: i c w t)
  case (Cons p ps)
  obtain e a where p: "p = (e, a)" by (cases p)
  show ?case
  proof (cases "ps = []")
    case True
    with Cons.prems p show ?thesis by (auto simp: Let_def split: if_splits)
  next
    case False
    then have "0 < length ps" by simp
    then have len: "Suc c \<noteq> len" "c \<noteq> len" using Cons.prems(2) unfolding length_Cons by linarith+
    show ?thesis
    proof (cases "e = a")
      case True
      with len Cons.prems p Cons.IH [of "Suc i" "Suc c" w t] False show ?thesis by simp
    next
      case neq: False
      with Cons.prems p False len show ?thesis
        by (simp add: Let_def) (drule Cons.IH; simp)
    qed
  qed
qed auto

lemma assert_equal_counts:
  assumes "length expected = len" "length actual = len" "0 < len"
  shows "tests_run (assert_equal expected actual message len t) = tests_run t + 1"
    "tests_incorrect (assert_equal expected actual message len t) = tests_incorrect t"
    "tests_correct (assert_equal expected actual message len t) = tests_correct t + of_bool (expected = actual)"
proof -
  let ?t = "t\<lparr>tests_run := tests_run t + 1\<rparr>"
  obtain w' t' where e: "assert_elements message len 0 (zip expected actual) 0 0 ?t = (w', t')" by fastforce
  have "zip expected actual \<noteq> []" using assms by auto
  with assert_elements_counts [OF e] assms have c: "tests_run t' = tests_run t + 1"
    "tests_incorrect t' = tests_incorrect t"
    "tests_correct t' = tests_correct t + of_bool (\<forall>(x, y)\<in>set (zip expected actual). x = y)"
    by auto
  have "(\<forall>(x, y)\<in>set (zip expected actual). x = y) \<longleftrightarrow> expected = actual"
    using assms(1,2) by (auto simp: list_eq_iff_zip_eq)
  with c e assms(1,2) show "tests_run (assert_equal expected actual message len t) = tests_run t + 1"
    "tests_incorrect (assert_equal expected actual message len t) = tests_incorrect t"
    "tests_correct (assert_equal expected actual message len t) = tests_correct t + of_bool (expected = actual)"
    by (simp_all add: assert_equal_def Let_def)
qed

lemma assert_string_equal_counts [simp]:
  "tests_run (assert_string_equal expected actual message t) = tests_run t + 1"
  "tests_correct (assert_string_equal expected actual message t) = tests_correct t + of_bool (expected = actual)"
  "tests_incorrect (assert_string_equal expected actual message t) = tests_incorrect t + of_bool (expected \<noteq> actual)"
  by (simp_all add: assert_string_equal_def Let_def)

section \<open>Scores\<close>

text \<open>Whether a function under test passes a test.\<close>

definition passes :: "reverse_str \<Rightarrow> string \<times> nat \<times> string \<times> string \<Rightarrow> bool" where
  "passes func = (\<lambda>(str, sz, rev1, message). c_string (func (chars str) sz) = rev1)"

lemma test_char_reverse_counts:
  "tests_run (test_char_reverse func testnum t) = tests_run t + int (length char_tests) \<and>
   tests_correct (test_char_reverse func testnum t) = tests_correct t + int (length (filter (passes func) char_tests))"
proof -
  have "tests_run (fold (char_test func) cs t) = tests_run t + int (length cs) \<and>
    tests_correct (fold (char_test func) cs t) = tests_correct t + int (length (filter (passes func) cs))" for cs t
    by (induction cs arbitrary: t) (auto simp: char_test_def passes_def split: prod.splits)
  then show ?thesis by (simp add: test_char_reverse_def)
qed

lemma test_array_reverse_counts:
  assumes "\<And>arr. func arr (length arr) = rev arr"
  shows "tests_run (test_array_reverse func testnum t) = tests_run t + 5 \<and>
    tests_correct (test_array_reverse func testnum t) = tests_correct t + 5"
proof -
  have f: "func [a] 1 = [a]" "func [a, b] 2 = [b, a]" "func [a, b, c, d] 4 = [d, c, b, a]"
    "func [a, b, c, d, e] 5 = [e, d, c, b, a]" for a b c d e
    using assms [of "[a]"] assms [of "[a, b]"] assms [of "[a, b, c, d]"] assms [of "[a, b, c, d, e]"]
    by (simp_all add: numeral_eq_Suc)
  show ?thesis unfolding test_array_reverse_def Let_def f by (simp add: assert_equal_counts)
qed

text \<open>
  The strings that two of the tests expect have a capital letter that the input has not, so no
  function that only moves bytes passes them.
\<close>

lemma capital_tests_fail:
  assumes "mset (func (chars str) sz) = mset (chars str)" "CHR ''S'' \<in> set rev1" "CHR ''S'' \<notin> set str"
  shows "\<not> passes func (str, sz, rev1, message)"
proof
  assume "passes func (str, sz, rev1, message)"
  then have "set rev1 \<subseteq> set (func (chars str) sz)"
    by (auto simp: passes_def c_string_def dest: set_takeWhileD)
  moreover have "set (func (chars str) sz) = set (chars str)" using assms(1) by (rule mset_eq_setD)
  ultimately show False using assms(2,3) by (auto simp: chars_def)
qed

lemma byte_reverse_passes:
  assumes "\<And>s n. n \<le> length s \<Longrightarrow> func s n = rev (take n s) @ drop n s"
  shows "length (filter (passes func) char_tests) = 4"
proof -
  have "length (filter (passes (\<lambda>s n. rev (take n s) @ drop n s)) char_tests) = 4" by code_simp
  moreover have "filter (passes func) char_tests = filter (passes (\<lambda>s n. rev (take n s) @ drop n s)) char_tests"
    by (rule filter_cong) (auto simp: char_tests_def passes_def assms chars_def konnichiwa_def)
  ultimately show ?thesis by simp
qed

lemma moving_bytes_passes:
  assumes "\<And>s n. n \<le> length s \<Longrightarrow> mset (func s n) = mset s"
  shows "length (filter (passes func) char_tests) \<le> 6"
proof -
  have "\<not> passes func (char_tests ! 4)" "\<not> passes func (char_tests ! 5)"
    unfolding char_tests_def by (simp; rule capital_tests_fail; simp add: assms chars_def)+
  then have "filter (passes func) char_tests = filter (passes func) (take 4 char_tests @ drop 6 char_tests)"
    by (simp add: char_tests_def)
  moreover have "length (take 4 char_tests @ drop 6 char_tests) = 6" by (simp add: char_tests_def)
  ultimately show ?thesis by (metis length_filter_le)
qed

text \<open>C38 (what the tests of the reversing exercise score). For an array function that reverses every
  array, \<open>test_array_reverse\<close> runs 5 tests and all pass. For a string function that only moves the bytes
  it is given, \<open>test_char_reverse\<close> runs 8 tests and at most 6 pass, since two of the expected strings
  contain a letter that their input does not; if it reverses the given number of bytes, exactly 4 pass.
  The program as it stands calls only \<open>test_array_reverse\<close> on \<open>reverse_arr1\<close>, whose body is empty: it
  runs 5 tests and passes 1, the one that compares an array with itself.\<close>

theorem revtest_scores:
  assumes "\<And>arr. f arr (length arr) = rev arr"
    and "\<And>s n. n \<le> length s \<Longrightarrow> mset (g s n) = mset s"
  shows "tests_run (test_array_reverse f testnum t) = tests_run t + 5 \<and>
    tests_correct (test_array_reverse f testnum t) = tests_correct t + 5 \<and>
    tests_run (test_char_reverse g testnum t) = tests_run t + 8 \<and>
    tests_correct (test_char_reverse g testnum t) \<le> tests_correct t + 6 \<and>
    ((\<forall>s n. n \<le> length s \<longrightarrow> g s n = rev (take n s) @ drop n s) \<longrightarrow>
       tests_correct (test_char_reverse g testnum t) = tests_correct t + 4) \<and>
    tests_run revtest_main = 5 \<and> tests_correct revtest_main = 1"
proof -
  have "length char_tests = 8" by (simp add: char_tests_def)
  moreover have "tests_run revtest_main = 5" "tests_correct revtest_main = 1"
    by (simp_all add: revtest_main_def print_summary_stats_def test_array_reverse_def reverse_arr1_def Let_def
        assert_equal_counts no_tests_def)
  ultimately show ?thesis
    using test_array_reverse_counts [of f testnum t] assms(1) test_char_reverse_counts [of g testnum t]
      moving_bytes_passes [of g] assms(2) byte_reverse_passes [of g] by simp
qed

theorem revtest_scores_witness:
  "tests_correct (test_array_reverse (\<lambda>arr n. rev arr) 1 no_tests) = 5 \<and>
   tests_run (test_char_reverse (\<lambda>s n. rev (take n s) @ drop n s) 1 no_tests) = 8 \<and>
   tests_correct (test_char_reverse (\<lambda>s n. rev (take n s) @ drop n s) 1 no_tests) = 4"
proof -
  have m: "mset (rev (take n s) @ drop n s) = mset s" for n and s :: string
    by simp (metis append_take_drop_id mset_append)
  show ?thesis
    using revtest_scores [of "\<lambda>arr n. rev arr" "\<lambda>s n. rev (take n s) @ drop n s" 1 no_tests, OF refl m]
    by (simp add: no_tests_def)
qed

end
