(* ===== verification/Forks.thy ===== *)
theory Forks
  imports Libc
begin

text \<open>
  The demonstrations of processes: \<open>insecure/main.c\<close> (a shared page, a private variable, and an
  overflow that is there on purpose), and \<open>example_fork.c\<close> and \<open>example.c\<close> of the shell module. A
  process has its own variables and its own buffer of \<open>stdio\<close>, both of which \<open>fork\<close> copies; what
  processes write to the same descriptor interleaves in units of one \<open>write\<close>.
\<close>

section \<open>Shared and private memory\<close>

datatype demo_result = Exit int string | Child_Overflow

text \<open>
  \<open>gets\<close> into a buffer of \<open>n\<close> bytes: the line without its newline, with a terminator; \<open>None\<close> if it
  does not fit.
\<close>

definition gets :: "nat \<Rightarrow> string \<Rightarrow> string option" where
  "gets n stdin = (let line = takeWhile (\<lambda>c. c \<noteq> CHR 0x0A) stdin in if length line < n then Some line else None)"

text \<open>The child: its variable \<open>m\<close>, the shared byte and what it prints, or \<open>None\<close> if it overflows.\<close>

definition insecure_child :: "string \<Rightarrow> int \<times> u8 \<Rightarrow> ((int \<times> u8) \<times> string) option" where
  "insecure_child stdin = (\<lambda>(m, shared).
     let shared = 5; m = 22 in
     map_option (\<lambda>buffer. ((m, shared), ''Enter some text: '')) (gets 16 stdin))"

text \<open>
  \<open>fork\<close> copies \<open>m\<close>; the page is mapped in both processes. The parent goes on when the child has
  ended, so the child's part comes first. \<open>munmap\<close> only adds a message to \<open>stderr\<close> if it fails.
\<close>

definition insecure_main :: "bool \<Rightarrow> int \<Rightarrow> string \<Rightarrow> demo_result" where
  "insecure_main mmap_ok pid stdin =
     (let m = 9; shared = 0 in
      if \<not> mmap_ok then Exit 1 []
      else if pid = -1 then Exit 1 []
      else
        (case insecure_child stdin (m, shared) of
           None \<Rightarrow> Child_Overflow
         | Some ((child_m, shared), out) \<Rightarrow>
             Exit 0 (out @ ''Mem not shared. '' @ show_int m @ [CHR 0x0A]
               @ ''Mem shared. '' @ show_int (uint shared) @ [CHR 0x0A])))"

lemma insecure_main_result:
  assumes "pid \<noteq> -1"
  shows "insecure_main True pid stdin =
    (if length (takeWhile (\<lambda>c. c \<noteq> CHR 0x0A) stdin) < 16
     then Exit 0 (''Enter some text: Mem not shared. 9'' @ [CHR 0x0A] @ ''Mem shared. 5'' @ [CHR 0x0A])
     else Child_Overflow)"
proof -
  have "show_int 9 = ''9''" "show_int 5 = ''5''" by code_simp+
  then show ?thesis using assms by (simp add: insecure_main_def insecure_child_def gets_def Let_def)
qed

text \<open>The comment puts the limit at 32 characters; 16 already overflow.\<close>

lemma insecure_limit: "insecure_main True 1 (replicate 16 CHR ''a'') = Child_Overflow"
  by (simp add: insecure_main_result)

section \<open>What two processes print\<close>

record process =
  x :: int
  child :: int
  buffer :: string
  writes :: "string list"

text \<open>
  \<open>printf\<close> of a text that ends with a newline: on a terminal the buffer is written at once, otherwise
  when the process ends.
\<close>

definition put :: "bool \<Rightarrow> string \<Rightarrow> process \<Rightarrow> process" where
  "put tty s p =
     (if tty then p\<lparr>buffer := [], writes := writes p @ [buffer p @ s]\<rparr> else p\<lparr>buffer := buffer p @ s\<rparr>)"

definition flush :: "process \<Rightarrow> process" where
  "flush p = (if buffer p = [] then p else p\<lparr>buffer := [], writes := writes p @ [buffer p]\<rparr>)"

definition fork_tail :: "bool \<Rightarrow> process \<Rightarrow> process" where
  "fork_tail tty p =
     flush (put tty (''Child is '' @ show_int (child p) @ '' and x is '' @ show_int (x p) @ ''.'' @ [CHR 0x0A])
       (put tty (''I am outside the if statement.'' @ [CHR 0x0A]) p))"

definition fork_child :: "bool \<Rightarrow> process \<Rightarrow> process" where
  "fork_child tty p =
     (let p = p\<lparr>x := x p + 1\<rparr> in
      put tty (''I am in the child process: x is '' @ show_int (x p) @ ''.'' @ [CHR 0x0A]) p)"

text \<open>The possible outputs, as sequences of writes; \<open>pid\<close> is what \<open>fork\<close> returns in the parent.\<close>

definition example_fork :: "bool \<Rightarrow> int \<Rightarrow> string list set" where
  "example_fork tty pid =
     (let p = put tty (''Hi I am in the parent process.'' @ [CHR 0x0A]) \<lparr>x = 5, child = 0, buffer = [], writes = []\<rparr>;
          parent = fork_tail tty (p\<lparr>child := pid, writes := []\<rparr>);
          kid = fork_tail tty (fork_child tty (p\<lparr>child := 0, writes := []\<rparr>))
      in (\<lambda>w. writes p @ w) ` (if pid = -1 then {writes parent} else shuffles (writes parent) (writes kid)))"

text \<open>
  The greeting comes once on a terminal, but twice if the output is a file or a pipe, because \<open>fork\<close>
  copies the buffer that holds it.
\<close>

definition greeting :: string where
  "greeting = ''Hi I am in the parent process.'' @ [CHR 0x0A]"

definition outside :: string where
  "outside = ''I am outside the if statement.'' @ [CHR 0x0A]"

definition fork_report :: "int \<Rightarrow> int \<Rightarrow> string" where
  "fork_report pid n = ''Child is '' @ show_int pid @ '' and x is '' @ show_int n @ ''.'' @ [CHR 0x0A]"

definition child_line :: string where
  "child_line = ''I am in the child process: x is '' @ show_int 6 @ ''.'' @ [CHR 0x0A]"

lemmas fork_texts = greeting_def outside_def fork_report_def child_line_def

lemma example_fork_file:
  assumes "pid \<noteq> -1"
  shows "example_fork False pid =
    {[greeting @ outside @ fork_report pid 5, greeting @ child_line @ outside @ fork_report 0 6],
     [greeting @ child_line @ outside @ fork_report 0 6, greeting @ outside @ fork_report pid 5]}"
  using assms unfolding example_fork_def fork_tail_def fork_child_def put_def flush_def Let_def
  by (simp add: fork_texts) auto

lemma example_fork_terminal:
  assumes "pid \<noteq> -1"
  shows "example_fork True pid =
    (\<lambda>w. greeting # w) ` shuffles [outside, fork_report pid 5] [child_line, outside, fork_report 0 6]"
  using assms unfolding example_fork_def fork_tail_def fork_child_def put_def flush_def Let_def
  by (simp add: fork_texts)

section \<open>Replacing the process image\<close>

text \<open>
  The system either replaces the image (the path and the arguments that the new program gets) or
  \<open>execv\<close> returns, and the program exits with \<open>EXIT_FAILURE\<close>.
\<close>

datatype image = Image string "string list" | Failed int

definition example :: "(string \<Rightarrow> bool) \<Rightarrow> image" where
  "example executable =
     (let program_name = ''/bin/echo''; newargv = [program_name, ''hello'', ''worlds''] in
      if executable ''/bin/hello'' then Image ''/bin/hello'' newargv else Failed 1)"

text \<open>The comment says that \<open>/bin/echo\<close> is run; it does not even matter whether it exists.\<close>

lemma example_ignores_echo: "example (\<lambda>p. p = ''/bin/echo'') = Failed 1"
  by (simp add: example_def)

end
