(* ===== verification/Spec2Isabelle.thy ===== *)
theory Spec2Isabelle
  imports KernelProps AppsProps RoundRobinLog InkSim LinkedList BootDisk Shell Snake Alloc Nograb Words CppInkProps Revtest Forks
begin

text \<open>
  Verification of the C programs of the operating-systems course repository.

  \<^bold>\<open>The program and its parts.\<close> The largest program is WeensyOS (\<open>src/modules/m3\<close>), a teaching kernel for
  x86-64: \<open>mkbootdisk\<close> writes a disk image, \<open>boot.c\<close> loads the kernel from it, \<open>kernel.c\<close> sets the
  hardware up (\<open>k-hardware.c\<close>), loads applications (\<open>k-loader.c\<close>) and then runs as the handler of
  exceptions; \<open>lib.c\<close> is its C library, shared with the applications (\<open>process.c\<close>, \<open>p-*.c\<close>), which
  reach the kernel by system calls. The other programs are independent of it: a round-robin scheduler
  with threads (\<open>assignments/a2/scheduling_rr\<close>), the simulation inklings
  (\<open>assignments/a4/inklings/cink\<close>), a doubly linked list (\<open>modules/m2/double_link\<close>), a command
  interpreter (\<open>modules/m2/shell\<close>), the game snake (\<open>assignments/a2/src\<close>), a debugging allocator and
  an arena (\<open>assignments/a3\<close>), line filters (\<open>a1\<close>, \<open>lab2\<close>), the older C++ front end of inklings
  (\<open>assignments/a4/a4_cpp/stencil_old\<close>), the tests of an exercise on reversing (\<open>modules/m1\<close>) and
  demonstrations of processes (\<open>modules/m2\<close>).

  \<^bold>\<open>Foundations.\<close> \<open>Prelude\<close>: words of fixed width, memory as a function from 64-bit addresses to
  bytes, little-endian cells with the locale \<open>cell_memory\<close>, failed assertions as values. \<open>Libc\<close>: what
  user programs use of the standard library. \<open>Transition\<close>: transition systems, the locales
  \<open>invariant_system\<close> and \<open>terminating_system\<close>, with interpretations for the threads of the scheduler
  and its logging threads, for the application \<open>p-allocator\<close> and for the threads of the C++ event loop.

  \<^bold>\<open>WeensyOS.\<close>
  \<^item> \<open>CLib\<close> and \<open>Printf\<close> are \<open>lib.c\<close>. Loops that end at a terminator are partial functions; the
    theorems show that they return. A formatter is proved against the locale \<open>printer_sink\<close>, which the
    console and the string buffer interpret; a conversion that does not fit its argument is \<open>None\<close>. The
    exact output of a conversion with flags and width is a theorem.
  \<^item> \<open>PageTable\<close> and \<open>AddressSpace\<close>: lookup, mapping and initial table of \<open>k-hardware.c\<close>, over an
    allocator that is a parameter; a last-level table at address 0 is a null pointer, as in the code.
    \<open>Machine\<close>, \<open>Devices\<close>, \<open>Keyboard\<close>: the machine state (a record with
    memory, console, registers and the history of port accesses) and the drivers. A device is a
    function from that history to the value that is read, so the theorems hold for all devices.
  \<^item> \<open>KernelState\<close>, \<open>Loader\<close>, \<open>MemShow\<close>, \<open>Kernel\<close>: the kernel's data (\<open>kernel.h\<close>) as an extension of
    the machine record, and all of \<open>kernel.c\<close> and \<open>k-loader.c\<close>. Operations that can panic, reboot or
    fail an assertion return a sum; \<open>schedule\<close> is a partial function because it spins while nothing
    is runnable. \<open>KernelInv\<close>, \<open>KernelThms\<close>, \<open>KernelBoot\<close>, \<open>KernelProps\<close>: the kernel invariant \<open>kinv\<close>
    (process table, page ownership, page tables), its establishment by initialisation, its
    preservation by the exception handler, liveness and fairness of the scheduler.
  \<^item> \<open>Apps\<close>, \<open>AppsProps\<close>: system calls, \<open>app_printf\<close>, \<open>panic\<close> and the three applications as functions
    from the answer of one system call to the next call; the theorem on \<open>p-allocator\<close> composes it with
    the kernel.
  \<^item> \<open>Boot\<close>, \<open>Mkbootdisk\<close>, \<open>BootDisk\<close>: the boot loader on a machine whose disk satisfies the hypothesis
    \<open>ata_disk\<close> (the documented protocol of an ATA disk; \<open>ready_disk\<close> is one that does), the image
    builder with its partial and interrupted writes, and their composition: the image boots.

  \<^bold>\<open>The other programs.\<close>
  \<^item> \<open>RoundRobin\<close> (input, scheduling loop, report), \<open>RoundRobinThreads\<close> (scheduler and workers with one
    mutex and condition variables as a step relation, with spurious wake-ups), \<open>RoundRobinLog\<close> (log
    files, and the join of the threads that write them): the threads never deadlock, every run ends,
    and every interleaving computes the sequential schedule, which is work-conserving and fair. Times
    are mathematical integers; for inputs with \<open>times_fit\<close> they are shown to stay \<open>int\<close> values.
  \<^item> \<open>InkConfig\<close>, \<open>InkSim\<close>: reading of the configuration with its buffers and \<open>int\<close> fields, and the
    main program. Round trip, bounds, and the section header that the reader misses.
  \<^item> \<open>LinkedList\<close>: the list on an explicit heap with allocation, in which use after free, null and
    indeterminate pointers are faults. What is correct is proved correct; the defects are theorems.
  \<^item> \<open>Shell\<close>, \<open>Snake\<close>, \<open>Alloc\<close>, \<open>Nograb\<close>, \<open>Words\<close>: the command interpreter against a reference
    splitter of words; the board, placing of food and drawing of snake; the allocator and the arena;
    the wrappers of \<open>qemu-nograb.c\<close>; the line filters.
  \<^item> \<open>CppInk\<close>, \<open>CppInkProps\<close>: the globals of \<open>main.cpp\<close> as a record, tanks, sleep times, drawing, keyboard
    and the event loop, whose timer threads are a list of program points that interleave. A step is one
    load or store of a shared variable (sections under the mutex and a drawing are one step each);
    signed overflow, a missing grid, double frees and reads of freed memory are error values. What holds
    in all interleavings, that a key handled alone does what \<open>myKeyboard\<close> does, two races (a tank over
    its maximum, a double free), the keys that overflow, the width of a drawn row.
  \<^item> \<open>Revtest\<close>: the test driver with the function under test as a parameter, and what it can score.
    \<open>Forks\<close>: private and shared memory after \<open>fork\<close>, the output buffer that \<open>fork\<close> copies, \<open>execv\<close>.

  \<^bold>\<open>Bounds and fuel.\<close> No theorem rests on fuel that could run out. Loops have a termination proof or
  are partial functions with a theorem that they return. The only counters are those of the code: the
  12800 polls of the printer port, and the buffer of 160 bytes that \<open>mem_string\<close> reads back, which
  \<open>panic_message_fits\<close> shows to hold a terminator. Numbers have their width wherever the code depends
  on it; pids and table indices are small by the invariant, and the times of the round-robin scheduler
  by the hypothesis \<open>times_fit\<close> of its theorems.

  \<^bold>\<open>Not modelled.\<close> Assembly (\<open>bootstart.S\<close>, \<open>k-exception.S\<close>): the state on entry to the handler is a
  hypothesis. The inline instructions of \<open>x86-64.h\<close> that no modelled code uses. Function bodies that
  the repository leaves empty (\<open>modules/m1/reverse.c\<close>, the game step of snake, the simulation of
  inklings, parts of the arena and of the shell): there is no code to translate. Drawing inside curses
  and the terminal. The tests under \<open>test\<close> and \<open>tests\<close>, of the list, of the arena and of the allocator.
  The Go and Python programs, and the files under \<open>labs\<close> that are copies of files under \<open>assignments\<close>.
\<close>

end
